(* ===== verification/Prelude.thy ===== *)
theory Prelude
  imports Main "HOL-Library.Word"
begin

text \<open>
  Shared vocabulary of the development.

  Go values are modelled as follows throughout.  A \<open>[]byte\<close> or a \<open>string\<close> is a list
  of \<^typ>\<open>char\<close>, and an Isabelle character is exactly one byte, so lengths count bytes
  as Go's \<open>len\<close> does.  An \<open>error\<close> is a value of the datatype \<open>error\<close> below:
  the package-level sentinel errors of the program (and the ones it tests from
  \<open>os\<close>, \<open>io\<close>, \<open>context\<close> and \<open>flag\<close>) are constructors of \<open>sentinel\<close>,
  \<open>fmt.Errorf\<close> with \<open>%w\<close> verbs is \<open>Wrap\<close> and \<open>errors.Is\<close> searches the wrapped
  tree, as the Go function does.  A function returning \<open>(T, error)\<close> returns
  \<open>error + T\<close>.

  The named collections hold the facts the component proofs share: \<open>invar_intros\<close> the
  preservation lemmas of the component invariants and \<open>run_simps\<close> the equations that
  run an operation on a known branch.
\<close>

named_theorems invar_intros
named_theorems run_simps

section \<open>Bytes and results\<close>

type_synonym bytes = "char list"
type_synonym u64 = "64 word"
type_synonym u32 = "32 word"
type_synonym u8 = "8 word"

definition byte_code :: "char \<Rightarrow> nat" where
  "byte_code c = of_char c"

section \<open>Errors\<close>

datatype sentinel =
    ErrNeedMore
  | ErrClosed
  | ErrInvalidFraming
  | ErrRecordTooLarge
  | ErrOffsetMismatch
  | ErrInvalidCommit
  | ErrUnsafeSource
  | ErrStaleGeneration
  | ErrGenerationTruncated
  | ErrWatcherInvalidated
  | ErrProcessIdentityChanged
  | ErrSourceSessionEnded
  | ErrHelp
  | Os_ErrClosed
  | Os_ErrNotExist
  | Io_EOF
  | Io_ErrUnexpectedEOF
  | Context_Canceled
  | Context_DeadlineExceeded

datatype error =
    Sentinel sentinel
  | Text string
  | Wrap string "error list"

text \<open>\<open>errors.Is(err, target)\<close> for a sentinel target: the error itself or anything it wraps.\<close>

fun errors_is :: "sentinel \<Rightarrow> error \<Rightarrow> bool" where
  "errors_is s (Sentinel t) = (s = t)"
| "errors_is s (Text m) = False"
| "errors_is s (Wrap m es) = list_ex (errors_is s) es"

text \<open>\<open>errors.Join\<close> drops the nil errors and is nil when none is left.\<close>

definition errors_join :: "error option list \<Rightarrow> error option" where
  "errors_join es =
     (let present = map the (filter (\<lambda>e. e \<noteq> None) es)
      in if present = [] then None else Some (Wrap [] present))"

lemma errors_join_None [simp]: "errors_join es = None \<longleftrightarrow> (\<forall>e \<in> set es. e = None)"
  by (auto simp: errors_join_def Let_def filter_empty_conv)

lemma errors_join_is:
  "errors_join es = Some e \<Longrightarrow>
     errors_is s e \<longleftrightarrow> (\<exists>e' \<in> set es. \<exists>x. e' = Some x \<and> errors_is s x)"
  by (force simp: errors_join_def Let_def list_ex_iff split: if_splits)

section \<open>Lists\<close>

text \<open>Bounds that the decoder and reader proofs use when they move bytes.\<close>

lemma take_append_le [simp]: "n \<le> length xs \<Longrightarrow> take n (xs @ ys) = take n xs"
  by simp

lemma drop_append_le [simp]: "n \<le> length xs \<Longrightarrow> drop n (xs @ ys) = drop n xs @ ys"
  by simp

lemma nth_append_less: "n < length xs \<Longrightarrow> (xs @ ys) ! n = xs ! n"
  by (simp add: nth_append)

lemma drop_eq_ConsD: "drop n xs = y # ys \<Longrightarrow> n < length xs \<and> xs ! n = y"
proof -
  assume d: "drop n xs = y # ys"
  then have n: "n < length xs"
    by (metis drop_eq_Nil list.distinct(1) not_le_imp_less)
  with d show ?thesis
    by (metis Cons_nth_drop_Suc list.inject)
qed

text \<open>A Go map literal built by successive assignments: a later write to a key wins.\<close>

definition alist_map :: "('k \<times> 'v) list \<Rightarrow> ('k \<rightharpoonup> 'v)" where
  "alist_map kvs = map_of (rev kvs)"

lemma alist_map_Nil [simp]: "alist_map [] k = None"
  by (simp add: alist_map_def)

lemma alist_map_snoc [simp]: "alist_map (kvs @ [(k, v)]) = (alist_map kvs)(k \<mapsto> v)"
  by (simp add: alist_map_def)

lemma alist_map_SomeD: "alist_map kvs k = Some v \<Longrightarrow> (k, v) \<in> set kvs"
  by (auto simp: alist_map_def dest: map_of_SomeD)

text \<open>The keys of such a map, each once.\<close>

definition alist_keys :: "('k \<times> 'v) list \<Rightarrow> 'k list" where
  "alist_keys kvs = remdups (map fst kvs)"

lemma set_alist_keys [simp]: "set (alist_keys kvs) = dom (alist_map kvs)"
  by (auto simp: alist_keys_def alist_map_def dom_map_of_conv_image_fst)

lemma distinct_alist_keys [simp]: "distinct (alist_keys kvs)"
  by (simp add: alist_keys_def)

text \<open>
  Ranging over a Go map visits every key once, in an order the runtime chooses: such a loop takes
  the visiting order as an argument, a list that enumerates the map's keys.
\<close>

definition enumerates :: "'k list \<Rightarrow> ('k \<rightharpoonup> 'v) \<Rightarrow> bool" where
  "enumerates ks m \<longleftrightarrow> distinct ks \<and> set ks = dom m"

lemma enumerates_empty [simp]: "enumerates ks Map.empty \<longleftrightarrow> ks = []"
  by (auto simp: enumerates_def)

lemma enumerates_alist_keys [simp]: "enumerates (alist_keys kvs) (alist_map kvs)"
  by (simp add: enumerates_def)

lemma enumerates_length: "enumerates ks m \<Longrightarrow> enumerates ks' m \<Longrightarrow> length ks = length ks'"
  by (metis distinct_card enumerates_def)

lemma enumerates_finite: "enumerates ks m \<Longrightarrow> finite (dom m)"
  by (metis List.finite_set enumerates_def)

text \<open>The mode a record is applied in: before the live cutover or after it (\<open>RecordMode\<close>).\<close>

datatype record_mode = RecordModeBaseline | RecordModeLive

end
