(* ===== verification/Go_Json.thy ===== *)
theory Go_Json
  imports Prelude
begin

text \<open>
  The part of Go's \<open>encoding/json\<close> the exporter uses: the byte-at-a-time scanner, the
  \<open>Decoder\<close>'s search for the end of one value in a buffer, and the decoding of that value
  into the targets of the program (\<open>map[string]json.RawMessage\<close>, \<open>[]json.RawMessage\<close>,
  \<open>string\<close> and a \<open>json.Number\<close> held in an \<open>any\<close>).  A \<open>json.RawMessage\<close> is the
  bytes of a value, so decoding stays on bytes at every level, as in the code.

  The scanner is the library's automaton: a current state, the stack of enclosing objects and
  arrays, and one transition per byte that returns an opcode.  The depth limit is the library's
  \<open>maxNestingDepth\<close>.
\<close>

section \<open>The scanner\<close>

datatype scan_op =
    ScanContinue | ScanBeginLiteral | ScanBeginObject | ScanObjectKey | ScanObjectValue
  | ScanEndObject | ScanBeginArray | ScanArrayValue | ScanEndArray | ScanSkipSpace
  | ScanEnd | ScanError

datatype parse_frame = ParseObjectKey | ParseObjectValue | ParseArrayValue

datatype scan_state =
    StBeginValueOrEmpty | StBeginValue | StBeginStringOrEmpty | StBeginString
  | StEndValue | StEndTop
  | StInString | StInStringEsc | StInStringEscU | StInStringEscU1 | StInStringEscU12
  | StInStringEscU123
  | StNeg | St1 | St0 | StDot | StDot0 | StE | StESign | StE0
  | StT | StTr | StTru | StF | StFa | StFal | StFals | StN | StNu | StNul
  | StError

record scanner =
  step_state :: scan_state
  parse_stack :: "parse_frame list"   \<comment> \<open>innermost first\<close>

definition new_scanner :: scanner where
  "new_scanner = \<lparr>step_state = StBeginValue, parse_stack = []\<rparr>"

definition maxNestingDepth :: nat where
  "maxNestingDepth = 10000"

definition is_space :: "char \<Rightarrow> bool" where
  "is_space c \<longleftrightarrow> c = CHR '' '' \<or> c = CHR 0x09 \<or> c = CHR 0x0D \<or> c = CHR 0x0A"

definition is_digit :: "char \<Rightarrow> bool" where
  "is_digit c \<longleftrightarrow> byte_code (CHR ''0'') \<le> byte_code c \<and> byte_code c \<le> byte_code (CHR ''9'')"

definition is_digit19 :: "char \<Rightarrow> bool" where
  "is_digit19 c \<longleftrightarrow> byte_code (CHR ''1'') \<le> byte_code c \<and> byte_code c \<le> byte_code (CHR ''9'')"

definition is_hex :: "char \<Rightarrow> bool" where
  "is_hex c \<longleftrightarrow> is_digit c
     \<or> (byte_code (CHR ''a'') \<le> byte_code c \<and> byte_code c \<le> byte_code (CHR ''f''))
     \<or> (byte_code (CHR ''A'') \<le> byte_code c \<and> byte_code c \<le> byte_code (CHR ''F''))"

definition is_control :: "char \<Rightarrow> bool" where
  "is_control c \<longleftrightarrow> byte_code c < 0x20"

definition scan_error :: "scanner \<Rightarrow> scan_op \<times> scanner" where
  "scan_error s = (ScanError, s\<lparr>step_state := StError\<rparr>)"

definition goto :: "scanner \<Rightarrow> scan_op \<Rightarrow> scan_state \<Rightarrow> scan_op \<times> scanner" where
  "goto s op st = (op, s\<lparr>step_state := st\<rparr>)"

definition push_frame :: "scanner \<Rightarrow> scan_state \<Rightarrow> parse_frame \<Rightarrow> scan_op \<Rightarrow> scan_op \<times> scanner" where
  "push_frame s st p op =
     (if length (parse_stack s) < maxNestingDepth
      then (op, s\<lparr>step_state := st, parse_stack := p # parse_stack s\<rparr>)
      else scan_error (s\<lparr>parse_stack := p # parse_stack s\<rparr>))"

definition pop_frame :: "scanner \<Rightarrow> scan_op \<Rightarrow> scan_op \<times> scanner" where
  "pop_frame s op =
     (let rest = tl (parse_stack s)
      in (op, s\<lparr>step_state := (if rest = [] then StEndTop else StEndValue), parse_stack := rest\<rparr>))"

text \<open>
  \<open>stateEndTop\<close>: only a complaint is left; it is delivered by the next call, this one
  already reports the end of the value.
\<close>

definition end_top :: "scanner \<Rightarrow> char \<Rightarrow> scan_op \<times> scanner" where
  "end_top s c = (ScanEnd, s\<lparr>step_state := (if is_space c then StEndTop else StError)\<rparr>)"

definition end_value :: "scanner \<Rightarrow> char \<Rightarrow> scan_op \<times> scanner" where
  "end_value s c =
     (case parse_stack s of
        [] \<Rightarrow> end_top s c
      | p # ps \<Rightarrow>
          if is_space c then goto s ScanSkipSpace StEndValue
          else (case p of
              ParseObjectKey \<Rightarrow>
                (if c = CHR '':''
                 then (ScanObjectKey, s\<lparr>step_state := StBeginValue, parse_stack := ParseObjectValue # ps\<rparr>)
                 else scan_error s)
            | ParseObjectValue \<Rightarrow>
                (if c = CHR '',''
                 then (ScanObjectValue, s\<lparr>step_state := StBeginString, parse_stack := ParseObjectKey # ps\<rparr>)
                 else if c = CHR ''}'' then pop_frame s ScanEndObject
                 else scan_error s)
            | ParseArrayValue \<Rightarrow>
                (if c = CHR '','' then goto s ScanArrayValue StBeginValue
                 else if c = CHR '']'' then pop_frame s ScanEndArray
                 else scan_error s)))"

definition begin_value :: "scanner \<Rightarrow> char \<Rightarrow> scan_op \<times> scanner" where
  "begin_value s c =
     (if is_space c then (ScanSkipSpace, s)
      else if c = CHR ''{'' then push_frame s StBeginStringOrEmpty ParseObjectKey ScanBeginObject
      else if c = CHR ''['' then push_frame s StBeginValueOrEmpty ParseArrayValue ScanBeginArray
      else if c = CHR 0x22 then goto s ScanBeginLiteral StInString
      else if c = CHR ''-'' then goto s ScanBeginLiteral StNeg
      else if c = CHR ''0'' then goto s ScanBeginLiteral St0
      else if c = CHR ''t'' then goto s ScanBeginLiteral StT
      else if c = CHR ''f'' then goto s ScanBeginLiteral StF
      else if c = CHR ''n'' then goto s ScanBeginLiteral StN
      else if is_digit19 c then goto s ScanBeginLiteral St1
      else scan_error s)"

definition begin_string :: "scanner \<Rightarrow> char \<Rightarrow> scan_op \<times> scanner" where
  "begin_string s c =
     (if is_space c then (ScanSkipSpace, s)
      else if c = CHR 0x22 then goto s ScanBeginLiteral StInString
      else scan_error s)"

definition state_dot0 :: "scanner \<Rightarrow> char \<Rightarrow> scan_op \<times> scanner" where
  "state_dot0 s c =
     (if is_digit c then (ScanContinue, s)
      else if c = CHR ''e'' \<or> c = CHR ''E'' then goto s ScanContinue StE
      else end_value s c)"

definition state_0 :: "scanner \<Rightarrow> char \<Rightarrow> scan_op \<times> scanner" where
  "state_0 s c =
     (if c = CHR ''.'' then goto s ScanContinue StDot
      else if c = CHR ''e'' \<or> c = CHR ''E'' then goto s ScanContinue StE
      else end_value s c)"

definition expect_hex :: "scanner \<Rightarrow> char \<Rightarrow> scan_state \<Rightarrow> scan_op \<times> scanner" where
  "expect_hex s c st = (if is_hex c then goto s ScanContinue st else scan_error s)"

definition expect_char :: "scanner \<Rightarrow> char \<Rightarrow> char \<Rightarrow> scan_state \<Rightarrow> scan_op \<times> scanner" where
  "expect_char s c k st = (if c = k then goto s ScanContinue st else scan_error s)"

definition state_esign :: "scanner \<Rightarrow> char \<Rightarrow> scan_op \<times> scanner" where
  "state_esign s c = (if is_digit c then goto s ScanContinue StE0 else scan_error s)"

definition scan_step :: "scanner \<Rightarrow> char \<Rightarrow> scan_op \<times> scanner" where
  "scan_step s c =
     (case step_state s of
        StBeginValueOrEmpty \<Rightarrow>
          (if is_space c then (ScanSkipSpace, s)
           else if c = CHR '']'' then end_value s c
           else begin_value s c)
      | StBeginValue \<Rightarrow> begin_value s c
      | StBeginStringOrEmpty \<Rightarrow>
          (if is_space c then (ScanSkipSpace, s)
           else if c = CHR ''}''
           then end_value (s\<lparr>parse_stack := ParseObjectValue # tl (parse_stack s)\<rparr>) c
           else begin_string s c)
      | StBeginString \<Rightarrow> begin_string s c
      | StEndValue \<Rightarrow> end_value s c
      | StEndTop \<Rightarrow> end_top s c
      | StInString \<Rightarrow>
          (if c = CHR 0x22 then goto s ScanContinue StEndValue
           else if c = CHR 0x5C then goto s ScanContinue StInStringEsc
           else if is_control c then scan_error s
           else (ScanContinue, s))
      | StInStringEsc \<Rightarrow>
          (if c \<in> {CHR ''b'', CHR ''f'', CHR ''n'', CHR ''r'', CHR ''t'', CHR 0x5C, CHR ''/'', CHR 0x22}
           then goto s ScanContinue StInString
           else if c = CHR ''u'' then goto s ScanContinue StInStringEscU
           else scan_error s)
      | StInStringEscU \<Rightarrow> expect_hex s c StInStringEscU1
      | StInStringEscU1 \<Rightarrow> expect_hex s c StInStringEscU12
      | StInStringEscU12 \<Rightarrow> expect_hex s c StInStringEscU123
      | StInStringEscU123 \<Rightarrow> expect_hex s c StInString
      | StNeg \<Rightarrow>
          (if c = CHR ''0'' then goto s ScanContinue St0
           else if is_digit19 c then goto s ScanContinue St1
           else scan_error s)
      | St1 \<Rightarrow> (if is_digit c then goto s ScanContinue St1 else state_0 s c)
      | St0 \<Rightarrow> state_0 s c
      | StDot \<Rightarrow> (if is_digit c then goto s ScanContinue StDot0 else scan_error s)
      | StDot0 \<Rightarrow> state_dot0 s c
      | StE \<Rightarrow>
          (if c = CHR ''+'' \<or> c = CHR ''-'' then goto s ScanContinue StESign else state_esign s c)
      | StESign \<Rightarrow> state_esign s c
      | StE0 \<Rightarrow> (if is_digit c then (ScanContinue, s) else end_value s c)
      | StT \<Rightarrow> expect_char s c (CHR ''r'') StTr
      | StTr \<Rightarrow> expect_char s c (CHR ''u'') StTru
      | StTru \<Rightarrow> expect_char s c (CHR ''e'') StEndValue
      | StF \<Rightarrow> expect_char s c (CHR ''a'') StFa
      | StFa \<Rightarrow> expect_char s c (CHR ''l'') StFal
      | StFal \<Rightarrow> expect_char s c (CHR ''s'') StFals
      | StFals \<Rightarrow> expect_char s c (CHR ''e'') StEndValue
      | StN \<Rightarrow> expect_char s c (CHR ''u'') StNu
      | StNu \<Rightarrow> expect_char s c (CHR ''l'') StNul
      | StNul \<Rightarrow> expect_char s c (CHR ''l'') StEndValue
      | StError \<Rightarrow> (ScanError, s))"

section \<open>Finding the end of one value\<close>

text \<open>
  \<open>Decoder.readValue\<close> on a reader that holds all its bytes: \<open>ReadOk n\<close> when the next value
  ends after \<open>n\<close> bytes (leading white space included), \<open>ReadEOF\<close> when only white space is
  left, \<open>ReadUnexpectedEOF\<close> when the bytes end inside a value, and \<open>ReadSyntax off\<close> for a
  \<open>SyntaxError\<close> whose \<open>Offset\<close> counts the bytes read including the offending one.
\<close>

datatype read_result = ReadOk nat | ReadEOF | ReadUnexpectedEOF | ReadSyntax nat

fun skip_space :: "bytes \<Rightarrow> bytes" where
  "skip_space [] = []"
| "skip_space (c # cs) = (if is_space c then skip_space cs else c # cs)"

fun read_loop :: "bool \<Rightarrow> scanner \<Rightarrow> nat \<Rightarrow> bytes \<Rightarrow> read_result" where
  "read_loop nonspace s n [] =
     (if fst (scan_step s (CHR '' '')) = ScanEnd then ReadOk n
      else if nonspace then ReadUnexpectedEOF else ReadEOF)"
| "read_loop nonspace s n (c # cs) =
     (case scan_step s c of (op, s') \<Rightarrow>
        if op = ScanEnd then ReadOk n
        else if (op = ScanEndObject \<or> op = ScanEndArray) \<and> parse_stack s' = [] then ReadOk (Suc n)
        else if op = ScanError then ReadSyntax (Suc n)
        else read_loop nonspace s' (Suc n) cs)"

definition read_value :: "bytes \<Rightarrow> read_result" where
  "read_value data = read_loop (skip_space data \<noteq> []) new_scanner 0 data"

section \<open>The scanner inside a composite value\<close>

text \<open>
  While the stack is not empty the scanner cannot report the end of the top-level value, so what
  it decides about a composite value does not depend on the bytes behind it.  These lemmas are
  what makes incremental framing independent of how the bytes arrive.
\<close>

lemmas scan_defs =
  scan_step_def begin_value_def end_value_def end_top_def begin_string_def push_frame_def
  pop_frame_def state_0_def state_dot0_def state_esign_def expect_hex_def expect_char_def
  goto_def scan_error_def

definition scan_active :: "scanner \<Rightarrow> bool" where
  "scan_active s \<longleftrightarrow> parse_stack s \<noteq> [] \<and> step_state s \<noteq> StEndTop"

lemma end_value_active:
  assumes "parse_stack s \<noteq> []" "end_value s c = (op, s')"
  shows "op \<noteq> ScanEnd \<and> (scan_active s' \<or> ((op = ScanEndObject \<or> op = ScanEndArray) \<and> parse_stack s' = []))"
proof -
  obtain p ps where "parse_stack s = p # ps" using assms(1) by (cases "parse_stack s") auto
  with assms(2) show ?thesis
    by (cases p) (auto simp: end_value_def goto_def scan_error_def pop_frame_def Let_def scan_active_def
        split: if_splits)
qed

lemma begin_value_active:
  assumes "scan_active s" "begin_value s c = (op, s')"
  shows "op \<noteq> ScanEnd \<and> scan_active s'"
  using assms
  by (auto simp: begin_value_def goto_def push_frame_def scan_error_def scan_active_def split: if_splits)

lemma scan_step_active:
  assumes "scan_active s" "scan_step s c = (op, s')"
  shows "op \<noteq> ScanEnd \<and> (scan_active s' \<or> ((op = ScanEndObject \<or> op = ScanEndArray) \<and> parse_stack s' = []))"
proof -
  have ne: "parse_stack s \<noteq> []" and st: "step_state s \<noteq> StEndTop"
    using assms(1) by (auto simp: scan_active_def)
  note brace = end_value_active [of "s\<lparr>parse_stack := ParseObjectValue # tl (parse_stack s)\<rparr>" c op s']
  show ?thesis
    using assms(2) ne st brace
    by (auto simp: scan_step_def begin_string_def state_0_def state_dot0_def state_esign_def
          expect_hex_def expect_char_def goto_def scan_error_def scan_active_def
        split: scan_state.splits if_splits
        dest: end_value_active begin_value_active [OF assms(1)])
qed

lemma read_loop_shift:
  "read_loop ns s (n + k) bs =
     (case read_loop ns s n bs of
        ReadOk m \<Rightarrow> ReadOk (m + k) | ReadSyntax m \<Rightarrow> ReadSyntax (m + k) | r \<Rightarrow> r)"
proof (induction bs arbitrary: s n)
  case Nil
  show ?case by simp
next
  case (Cons c cs)
  show ?case using Cons.IH [of _ "Suc n"] by (cases "scan_step s c") simp
qed

text \<open>Once inside a composite value, its end does not depend on the bytes after it.\<close>

lemma read_loop_active_ok:
  assumes "scan_active s" "read_loop ns s n bs = ReadOk m"
  shows "n < m \<and> m \<le> n + length bs \<and> read_loop ns' s n (take (m - n) bs @ rest) = ReadOk m"
  using assms
proof (induction bs arbitrary: s n)
  case Nil
  obtain op s' where st: "scan_step s (CHR '' '') = (op, s')" by fastforce
  with Nil scan_step_active [OF Nil(1) st] show ?case by (auto split: if_splits)
next
  case (Cons c cs)
  obtain op s' where st: "scan_step s c = (op, s')" by fastforce
  note act = scan_step_active [OF Cons.prems(1) st]
  show ?case
  proof (cases "(op = ScanEndObject \<or> op = ScanEndArray) \<and> parse_stack s' = []")
    case True
    with Cons.prems(2) st act have "m = Suc n" by auto
    with True st act show ?thesis by auto
  next
    case False
    with act have a': "scan_active s'" by auto
    from False Cons.prems(2) st act have r: "read_loop ns s' (Suc n) cs = ReadOk m" "op \<noteq> ScanError"
      by (auto split: if_splits)
    from Cons.IH [OF a' r(1)] have ih: "Suc n < m" "m \<le> Suc n + length cs"
      "read_loop ns' s' (Suc n) (take (m - Suc n) cs @ rest) = ReadOk m" by auto
    then have t: "take (m - n) (c # cs) = c # take (m - Suc n) cs"
      by (metis Suc_diff_Suc Suc_lessD take_Suc_Cons)
    show ?thesis
      unfolding t using ih False st act r(2) by auto
  qed
qed

lemma read_loop_active_more:
  assumes "scan_active s" "read_loop ns s n bs = ReadOk m"
  shows "read_loop ns' s n (bs @ rest) = ReadOk m"
proof -
  have "bs @ rest = take (m - n) bs @ (drop (m - n) bs @ rest)" by simp
  then show ?thesis using read_loop_active_ok [OF assms] by metis
qed

lemma read_loop_syntax_more:
  assumes "read_loop ns s n bs = ReadSyntax off"
  shows "n < off \<and> off \<le> n + length bs \<and> read_loop ns' s n (bs @ rest) = ReadSyntax off"
  using assms
proof (induction bs arbitrary: s n)
  case Nil
  then show ?case by (auto split: if_splits)
next
  case (Cons c cs)
  obtain op s' where st: "scan_step s c = (op, s')" by fastforce
  show ?case
  proof (cases "op = ScanError")
    case True
    with Cons.prems st show ?thesis by (auto split: if_splits)
  next
    case False
    with Cons.prems st have "read_loop ns s' (Suc n) cs = ReadSyntax off"
      by (auto split: if_splits)
    from Cons.IH [OF this] Cons.prems st False show ?thesis by (auto split: if_splits)
  qed
qed

text \<open>A value cut short is completed, if at all, beyond the bytes seen so far.\<close>

lemma read_loop_eof_more:
  assumes "scan_active s" "read_loop ns s n bs \<in> {ReadEOF, ReadUnexpectedEOF}"
    and "read_loop ns' s n (bs @ rest) = ReadOk m"
  shows "n + length bs < m"
  using assms
proof (induction bs arbitrary: s n)
  case Nil
  then show ?case using read_loop_active_ok [OF Nil(1)] by fastforce
next
  case (Cons c cs)
  obtain op s' where st: "scan_step s c = (op, s')" by fastforce
  note act = scan_step_active [OF Cons.prems(1) st]
  from Cons.prems(2) st act have a': "scan_active s'" "op \<noteq> ScanError"
    "read_loop ns s' (Suc n) cs \<in> {ReadEOF, ReadUnexpectedEOF}"
    by (auto split: if_splits)
  moreover from a'(1) have "parse_stack s' \<noteq> []" by (simp add: scan_active_def)
  ultimately have "read_loop ns' s' (Suc n) (cs @ rest) = ReadOk m"
    using Cons.prems(3) st act by (auto split: if_splits)
  from Cons.IH [OF a'(1,3) this] show ?case by simp
qed

lemma read_loop_eof_syntax:
  assumes "scan_active s" "read_loop ns s n bs \<in> {ReadEOF, ReadUnexpectedEOF}"
    and "read_loop ns' s n (bs @ rest) = ReadSyntax m"
  shows "n + length bs < m"
  using assms
proof (induction bs arbitrary: s n)
  case Nil
  then show ?case using read_loop_syntax_more by fastforce
next
  case (Cons c cs)
  obtain op s' where st: "scan_step s c = (op, s')" by fastforce
  note act = scan_step_active [OF Cons.prems(1) st]
  from Cons.prems(2) st act have a': "scan_active s'" "op \<noteq> ScanError"
    "read_loop ns s' (Suc n) cs \<in> {ReadEOF, ReadUnexpectedEOF}"
    by (auto split: if_splits)
  moreover from a'(1) have "parse_stack s' \<noteq> []" by (simp add: scan_active_def)
  ultimately have "read_loop ns' s' (Suc n) (cs @ rest) = ReadSyntax m"
    using Cons.prems(3) st act by (auto split: if_splits)
  from Cons.IH [OF a'(1,3) this] show ?case by simp
qed

section \<open>Objects at the head of a buffer\<close>

definition after_open_brace :: scanner where
  "after_open_brace = \<lparr>step_state = StBeginStringOrEmpty, parse_stack = [ParseObjectKey]\<rparr>"

lemma after_open_brace_active: "scan_active after_open_brace"
  by (simp add: after_open_brace_def scan_active_def)

lemma is_space_brace [simp]: "\<not> is_space (CHR ''{'')" "\<not> is_space (CHR ''}'')" "\<not> is_space (CHR ''['')"
    "\<not> is_space (CHR '']'')" "\<not> is_space (CHR '','')" "\<not> is_space (CHR '':'')" "\<not> is_space (CHR 0x22)"
  by (simp_all add: is_space_def)

lemma read_value_object:
  "read_value (CHR ''{'' # cs) = read_loop True after_open_brace 1 cs"
  by (simp add: read_value_def new_scanner_def scan_step_def begin_value_def push_frame_def
      maxNestingDepth_def after_open_brace_def)

lemma read_object_ok:
  assumes "bs \<noteq> []" "hd bs = CHR ''{''" "read_value bs = ReadOk n"
  shows "1 < n" "n \<le> length bs" "read_value (bs @ rest) = ReadOk n" "read_value (take n bs) = ReadOk n"
proof -
  obtain cs where bs: "bs = CHR ''{'' # cs" using assms(1,2) by (cases bs) auto
  have r: "read_loop True after_open_brace 1 cs = ReadOk n" using assms(3) by (simp add: bs read_value_object)
  note ok = read_loop_active_ok [OF after_open_brace_active r]
  show "1 < n" "n \<le> length bs" using ok by (auto simp: bs)
  show "read_value (bs @ rest) = ReadOk n"
    using read_loop_active_more [OF after_open_brace_active r] by (simp add: bs read_value_object)
  have "take n bs = CHR ''{'' # take (n - 1) cs"
    using ok by (cases n) (auto simp: bs)
  then show "read_value (take n bs) = ReadOk n"
    using ok [of True "[]"] by (simp add: read_value_object)
qed

lemma read_object_syntax:
  assumes "bs \<noteq> []" "hd bs = CHR ''{''" "read_value bs = ReadSyntax off"
  shows "off \<le> length bs" "read_value (bs @ rest) = ReadSyntax off"
proof -
  obtain cs where bs: "bs = CHR ''{'' # cs" using assms(1,2) by (cases bs) auto
  show "off \<le> length bs" "read_value (bs @ rest) = ReadSyntax off"
    using read_loop_syntax_more [of True after_open_brace 1 cs off] assms(3)
    by (auto simp: bs read_value_object)
qed

lemma read_object_eof_more:
  assumes "bs \<noteq> []" "hd bs = CHR ''{''" "read_value bs \<in> {ReadEOF, ReadUnexpectedEOF}"
  shows "read_value (bs @ rest) = ReadOk n \<Longrightarrow> length bs < n"
    and "read_value (bs @ rest) = ReadSyntax n \<Longrightarrow> length bs < n"
proof -
  obtain cs where bs: "bs = CHR ''{'' # cs" using assms(1,2) by (cases bs) auto
  show "read_value (bs @ rest) = ReadOk n \<Longrightarrow> length bs < n"
    using read_loop_eof_more [OF after_open_brace_active, of True 1 cs True rest n] assms(3)
    by (auto simp: bs read_value_object)
  show "read_value (bs @ rest) = ReadSyntax n \<Longrightarrow> length bs < n"
    using read_loop_eof_syntax [OF after_open_brace_active, of True 1 cs True rest n] assms(3)
    by (auto simp: bs read_value_object)
qed
end
