(* ===== verification/Go_Value.thy ===== *)
theory Go_Value
  imports Go_Json
begin

text \<open>
  Decoding one JSON value into the targets the program uses, on top of the scanner of
  \<open>Go_Json\<close>: string literals are unquoted as \<open>encoding/json\<close> does (escapes, surrogate
  pairs, malformed UTF-8 replaced by U+FFFD), objects become the list of their members in
  order with unquoted keys and raw values, arrays the list of their raw elements.
\<close>

section \<open>UTF-8\<close>

definition byte_of :: "nat \<Rightarrow> char" where
  "byte_of n = char_of n"

definition rune_error :: nat where
  "rune_error = 0xFFFD"

text \<open>\<open>utf8.EncodeRune\<close>: surrogates and values beyond the last code point encode U+FFFD.\<close>

definition encode_rune :: "nat \<Rightarrow> bytes" where
  "encode_rune r =
     (let r = (if (0xD800 \<le> r \<and> r \<le> 0xDFFF) \<or> 0x10FFFF < r then rune_error else r)
      in if r < 0x80 then [byte_of r]
         else if r < 0x800 then [byte_of (0xC0 + r div 64), byte_of (0x80 + r mod 64)]
         else if r < 0x10000
           then [byte_of (0xE0 + r div 4096), byte_of (0x80 + r div 64 mod 64), byte_of (0x80 + r mod 64)]
         else [byte_of (0xF0 + r div 262144), byte_of (0x80 + r div 4096 mod 64),
               byte_of (0x80 + r div 64 mod 64), byte_of (0x80 + r mod 64)])"

definition is_cont :: "nat \<Rightarrow> bool" where
  "is_cont b \<longleftrightarrow> 0x80 \<le> b \<and> b \<le> 0xBF"

text \<open>
  \<open>utf8.DecodeRune\<close> on a nonempty slice: the rune and its width; anything malformed
  (overlong forms, surrogates, values beyond U+10FFFF, missing continuation bytes) is U+FFFD of
  width one.
\<close>

definition decode_rune :: "bytes \<Rightarrow> nat \<times> nat" where
  "decode_rune bs =
     (case map byte_code (take 4 bs) of
        [] \<Rightarrow> (rune_error, 0)
      | b0 # rest \<Rightarrow>
          if b0 < 0x80 then (b0, 1)
          else if 0xC2 \<le> b0 \<and> b0 \<le> 0xDF then
            (case rest of
               b1 # _ \<Rightarrow> if is_cont b1 then ((b0 - 0xC0) * 64 + (b1 - 0x80), 2) else (rune_error, 1)
             | _ \<Rightarrow> (rune_error, 1))
          else if 0xE0 \<le> b0 \<and> b0 \<le> 0xEF then
            (case rest of
               b1 # b2 # _ \<Rightarrow>
                 if (if b0 = 0xE0 then 0xA0 else 0x80) \<le> b1
                    \<and> b1 \<le> (if b0 = 0xED then 0x9F else 0xBF) \<and> is_cont b2
                 then ((b0 - 0xE0) * 4096 + (b1 - 0x80) * 64 + (b2 - 0x80), 3) else (rune_error, 1)
             | _ \<Rightarrow> (rune_error, 1))
          else if 0xF0 \<le> b0 \<and> b0 \<le> 0xF4 then
            (case rest of
               b1 # b2 # b3 # _ \<Rightarrow>
                 if (if b0 = 0xF0 then 0x90 else 0x80) \<le> b1
                    \<and> b1 \<le> (if b0 = 0xF4 then 0x8F else 0xBF) \<and> is_cont b2 \<and> is_cont b3
                 then ((b0 - 0xF0) * 262144 + (b1 - 0x80) * 4096 + (b2 - 0x80) * 64 + (b3 - 0x80), 4)
                 else (rune_error, 1)
             | _ \<Rightarrow> (rune_error, 1))
          else (rune_error, 1))"

lemma decode_rune_width: "bs \<noteq> [] \<Longrightarrow> 1 \<le> snd (decode_rune bs)"
  by (cases bs) (auto simp: decode_rune_def split: list.splits)

section \<open>String literals\<close>

definition hex_digit :: "char \<Rightarrow> nat" where
  "hex_digit c =
     (if is_digit c then byte_code c - byte_code (CHR ''0'')
      else if byte_code (CHR ''a'') \<le> byte_code c then byte_code c - byte_code (CHR ''a'') + 10
      else byte_code c - byte_code (CHR ''A'') + 10)"

text \<open>\<open>getu4\<close>: the code unit of a \<open>\uXXXX\<close> escape at the head of the bytes, if there is one.\<close>

definition getu4 :: "bytes \<Rightarrow> nat option" where
  "getu4 bs =
     (case bs of
        b # u # h1 # h2 # h3 # h4 # _ \<Rightarrow>
          if b = CHR 0x5C \<and> u = CHR ''u'' \<and> is_hex h1 \<and> is_hex h2 \<and> is_hex h3 \<and> is_hex h4
          then Some (((hex_digit h1 * 16 + hex_digit h2) * 16 + hex_digit h3) * 16 + hex_digit h4)
          else None
      | _ \<Rightarrow> None)"

definition is_surrogate :: "nat \<Rightarrow> bool" where
  "is_surrogate r \<longleftrightarrow> 0xD800 \<le> r \<and> r \<le> 0xDFFF"

definition utf16_decode :: "nat \<Rightarrow> nat \<Rightarrow> nat" where
  "utf16_decode r1 r2 =
     (if 0xD800 \<le> r1 \<and> r1 < 0xDC00 \<and> 0xDC00 \<le> r2 \<and> r2 < 0xE000
      then (r1 - 0xD800) * 1024 + (r2 - 0xDC00) + 0x10000 else rune_error)"

definition simple_escape :: "char \<Rightarrow> char option" where
  "simple_escape c =
     (if c = CHR 0x22 \<or> c = CHR 0x5C \<or> c = CHR ''/'' \<or> c = CHR 0x27 then Some c
      else if c = CHR ''b'' then Some (CHR 0x08)
      else if c = CHR ''f'' then Some (CHR 0x0C)
      else if c = CHR ''n'' then Some (CHR 0x0A)
      else if c = CHR ''r'' then Some (CHR 0x0D)
      else if c = CHR ''t'' then Some (CHR 0x09)
      else None)"

text \<open>
  \<open>unquoteBytes\<close> on the bytes between the quotes.  \<open>None\<close> is the library's failure
  on a literal the scanner would not have let through.
\<close>

function unquote_body :: "bytes \<Rightarrow> bytes option" where
  "unquote_body bs =
     (case bs of
        [] \<Rightarrow> Some []
      | c # cs \<Rightarrow>
          if c = CHR 0x5C then
            (case cs of
               [] \<Rightarrow> None
             | e # es \<Rightarrow>
                 if e = CHR ''u'' then
                   (case getu4 bs of
                      None \<Rightarrow> None
                    | Some rr \<Rightarrow>
                        let after = drop 6 bs in
                        if is_surrogate rr then
                          (let dec = (case getu4 after of None \<Rightarrow> rune_error | Some rr1 \<Rightarrow> utf16_decode rr rr1)
                           in if dec \<noteq> rune_error
                              then map_option ((@) (encode_rune dec)) (unquote_body (drop 6 after))
                              else map_option ((@) (encode_rune rune_error)) (unquote_body after))
                        else map_option ((@) (encode_rune rr)) (unquote_body after))
                 else
                   (case simple_escape e of
                      None \<Rightarrow> None
                    | Some d \<Rightarrow> map_option ((#) d) (unquote_body es)))
          else if c = CHR 0x22 \<or> is_control c then None
          else if byte_code c < 0x80 then map_option ((#) c) (unquote_body cs)
          else (case decode_rune bs of
                  (r, w) \<Rightarrow> map_option ((@) (encode_rune r)) (unquote_body (drop (max 1 w) bs))))"
  by pat_completeness auto
termination
  by (relation "measure length") (auto simp: getu4_def split: list.splits)

declare unquote_body.simps [simp del]

text \<open>A quoted literal: both quotes removed, the body unquoted.\<close>

definition unquote :: "bytes \<Rightarrow> bytes option" where
  "unquote lit =
     (if length lit < 2 \<or> hd lit \<noteq> CHR 0x22 \<or> last lit \<noteq> CHR 0x22 then None
      else unquote_body (butlast (tl lit)))"

section \<open>Members and elements\<close>

lemma length_skip_space: "length (skip_space bs) \<le> length bs"
  by (induction bs) auto

lemma skip_space_shorter: "skip_space bs = c # cs \<Longrightarrow> length cs < length bs"
  using length_skip_space [of bs] by simp

text \<open>One value at the head of the bytes, without the white space before it, and what follows.\<close>

definition take_value :: "bytes \<Rightarrow> (bytes \<times> bytes) option" where
  "take_value bs =
     (let t = skip_space bs in
      case read_value t of ReadOk n \<Rightarrow> Some (take n t, drop n t) | _ \<Rightarrow> None)"

lemma take_value_shorter: "take_value bs = Some (v, rest) \<Longrightarrow> length rest \<le> length bs"
  using length_skip_space [of bs]
  by (auto simp: take_value_def Let_def split: read_result.splits)

text \<open>The bytes after the opening brace, up to the closing one, as key literals and raw values.\<close>

function members :: "bytes \<Rightarrow> (bytes \<times> bytes) list option" where
  "members bs =
     (case take_value bs of
        None \<Rightarrow> None
      | Some (key, r1) \<Rightarrow>
          (case skip_space r1 of
             [] \<Rightarrow> None
           | c # r2 \<Rightarrow>
               if c \<noteq> CHR '':'' then None
               else (case take_value r2 of
                  None \<Rightarrow> None
                | Some (val, r3) \<Rightarrow>
                    (case skip_space r3 of
                       [] \<Rightarrow> None
                     | d # r4 \<Rightarrow>
                         if d = CHR '','' then map_option ((#) (key, val)) (members r4)
                         else if d = CHR ''}'' then Some [(key, val)]
                         else None))))"
  by pat_completeness auto
termination
proof (relation "measure length", goal_cases)
  case 1
  show ?case by simp
next
  case (2 bs kr key r1 c r2 vr val r3 d r4)
  have "length r3 \<le> length r2" "length r1 \<le> length bs"
    using 2 by (auto dest: take_value_shorter)
  moreover have "length r2 < length r1" "length r4 < length r3"
    using 2 by (auto dest: skip_space_shorter)
  ultimately show ?case by simp
qed

declare members.simps [simp del]

function elements :: "bytes \<Rightarrow> bytes list option" where
  "elements bs =
     (case take_value bs of
        None \<Rightarrow> None
      | Some (val, r1) \<Rightarrow>
          (case skip_space r1 of
             [] \<Rightarrow> None
           | d # r2 \<Rightarrow>
               if d = CHR '','' then map_option ((#) val) (elements r2)
               else if d = CHR '']'' then Some [val]
               else None))"
  by pat_completeness auto
termination
proof (relation "measure length", goal_cases)
  case 1
  show ?case by simp
next
  case (2 bs vr val r1 d r2)
  have "length r1 \<le> length bs" "length r2 < length r1"
    using 2 by (auto dest: take_value_shorter skip_space_shorter)
  then show ?case by simp
qed

declare elements.simps [simp del]

section \<open>Decoding into a target\<close>

text \<open>
  \<open>decoder.Decode(target)\<close> followed by the program's check that only white space is left.
  A value of another kind than the target is the library's \<open>UnmarshalTypeError\<close>.
\<close>

datatype decode_error = SyntaxErr nat | UnexpectedEOF | EOF_Err | TypeErr | TrailingData

definition sole_value :: "bytes \<Rightarrow> decode_error + bytes" where
  "sole_value raw =
     (case read_value raw of
        ReadSyntax off \<Rightarrow> Inl (SyntaxErr off)
      | ReadUnexpectedEOF \<Rightarrow> Inl UnexpectedEOF
      | ReadEOF \<Rightarrow> Inl EOF_Err
      | ReadOk n \<Rightarrow> Inr (skip_space (take n raw)))"

definition only_space :: "bytes \<Rightarrow> bool" where
  "only_space bs \<longleftrightarrow> skip_space bs = []"

definition value_rest :: "bytes \<Rightarrow> bytes" where
  "value_rest raw = (case read_value raw of ReadOk n \<Rightarrow> drop n raw | _ \<Rightarrow> [])"

definition null_literal :: bytes where
  "null_literal = ''null''"

text \<open>
  The members of an object with unquoted keys; a repeated key keeps the later value, as
  assignments to a Go map do.  The nil map is the result of decoding \<open>null\<close>.
\<close>

type_synonym fields = "(bytes \<times> bytes) list"

definition unquote_keys :: "(bytes \<times> bytes) list \<Rightarrow> fields option" where
  "unquote_keys kvs =
     those (map (\<lambda>(k, v). map_option (\<lambda>k'. (k', v)) (unquote k)) kvs)"

definition decode_object :: "bytes \<Rightarrow> decode_error + fields option" where
  "decode_object v =
     (if v = null_literal then Inr None
      else if v \<noteq> [] \<and> hd v = CHR ''{'' then
        (if skip_space (tl v) = ''}'' then Inr (Some [])
         else (case Option.bind (members (tl v)) unquote_keys of
                 None \<Rightarrow> Inl TypeErr
               | Some fs \<Rightarrow> Inr (Some fs)))
      else Inl TypeErr)"

definition decode_array :: "bytes \<Rightarrow> decode_error + bytes list" where
  "decode_array v =
     (if v = null_literal then Inr []
      else if v \<noteq> [] \<and> hd v = CHR ''['' then
        (if skip_space (tl v) = '']'' then Inr []
         else (case elements (tl v) of None \<Rightarrow> Inl TypeErr | Some es \<Rightarrow> Inr es))
      else Inl TypeErr)"

definition decode_string :: "bytes \<Rightarrow> decode_error + bytes" where
  "decode_string v =
     (if v = null_literal then Inr []
      else if v \<noteq> [] \<and> hd v = CHR 0x22 then
        (case unquote v of None \<Rightarrow> Inl TypeErr | Some s \<Rightarrow> Inr s)
      else Inl TypeErr)"

text \<open>Decoding into an \<open>any\<close> with \<open>UseNumber\<close>: the dynamic type the program tests for.\<close>

datatype any_value = AnyNumber bytes | AnyOther

definition decode_any :: "bytes \<Rightarrow> decode_error + any_value" where
  "decode_any v =
     (if v \<noteq> [] \<and> (hd v = CHR ''-'' \<or> is_digit (hd v)) then Inr (AnyNumber v) else Inr AnyOther)"

section \<open>Writing a string\<close>

text \<open>A string literal without escapes, to write JSON texts with.\<close>

definition quoted :: "bytes \<Rightarrow> bytes" where
  "quoted s = CHR 0x22 # s @ [CHR 0x22]"

end
