(* ===== verification/Go_Sha256.thy ===== *)
theory Go_Sha256
  imports Prelude
begin

unbundle bit_operations_syntax

text \<open>
  \<open>crypto/sha256.Sum256\<close> (FIPS 180-4), which fingerprints records and derives the service
  instance identifier, and \<open>encoding/hex.EncodeToString\<close>.  The initial hash value and the
  round constants are the first 32 bits of the fractional parts of the square and cube roots
  of the first primes.
\<close>

text \<open>Both are computed: an integer root found bit by bit, then its low 32 bits.\<close>

fun iroot_bits :: "nat \<Rightarrow> nat \<Rightarrow> nat \<Rightarrow> nat \<Rightarrow> nat" where
  "iroot_bits k n 0 acc = acc"
| "iroot_bits k n (Suc i) acc =
     iroot_bits k n i (if (acc + 2 ^ i) ^ k \<le> n then acc + 2 ^ i else acc)"

definition root_fraction :: "nat \<Rightarrow> nat \<Rightarrow> u32" where
  "root_fraction k p = of_nat (iroot_bits k (p * 2 ^ (32 * k)) 37 0)"

fun primes_upto :: "nat \<Rightarrow> nat list" where
  "primes_upto 0 = []"
| "primes_upto (Suc n) =
     (let ps = primes_upto n
      in if 2 \<le> Suc n \<and> list_all (\<lambda>p. Suc n mod p \<noteq> 0) ps then ps @ [Suc n] else ps)"

definition sha_init :: "u32 list" where
  "sha_init = map (root_fraction 2) ([2, 3, 5, 7, 11, 13, 17, 19])"

definition sha_round_constants :: "u32 list" where
  "sha_round_constants = map (root_fraction 3) (primes_upto 311)"

definition rotr :: "nat \<Rightarrow> u32 \<Rightarrow> u32" where
  "rotr n x = drop_bit n x OR push_bit (32 - n) x"

text \<open>Big-endian conversions between bytes and words.\<close>

fun be_bytes :: "nat \<Rightarrow> nat \<Rightarrow> bytes" where
  "be_bytes 0 v = []"
| "be_bytes (Suc k) v = be_bytes k (v div 256) @ [char_of (v mod 256)]"

definition be_nat :: "bytes \<Rightarrow> nat" where
  "be_nat bs = foldl (\<lambda>acc b. acc * 256 + byte_code b) 0 bs"

definition sha_pad :: "bytes \<Rightarrow> bytes" where
  "sha_pad msg =
     (let zeros = (119 - length msg mod 64) mod 64
      in msg @ [char_of (0x80::nat)] @ replicate zeros (char_of (0::nat)) @ be_bytes 8 (8 * length msg))"

fun chunks :: "nat \<Rightarrow> 'a list \<Rightarrow> 'a list list" where
  "chunks n xs =
     (if n = 0 \<or> xs = [] then [] else take n xs # chunks n (drop n xs))"

declare chunks.simps [simp del]

text \<open>The message schedule, newest word first.\<close>

fun sha_extend :: "nat \<Rightarrow> u32 list \<Rightarrow> u32 list" where
  "sha_extend 0 ws = ws"
| "sha_extend (Suc k) ws =
     (let w15 = ws ! 14; w2 = ws ! 1;
          s0 = rotr 7 w15 XOR rotr 18 w15 XOR drop_bit 3 w15;
          s1 = rotr 17 w2 XOR rotr 19 w2 XOR drop_bit 10 w2
      in sha_extend k ((ws ! 15 + s0 + ws ! 6 + s1) # ws))"

definition sha_schedule :: "bytes \<Rightarrow> u32 list" where
  "sha_schedule block =
     rev (sha_extend 48 (rev (map (\<lambda>b. of_nat (be_nat b)) (chunks 4 block))))"

fun sha_round :: "u32 list \<Rightarrow> u32 \<times> u32 \<Rightarrow> u32 list" where
  "sha_round [a, b, c, d, e, f, g, h] (k, w) =
     (let s1 = rotr 6 e XOR rotr 11 e XOR rotr 25 e;
          ch = (e AND f) XOR (NOT e AND g);
          t1 = h + s1 + ch + k + w;
          s0 = rotr 2 a XOR rotr 13 a XOR rotr 22 a;
          maj = (a AND b) XOR (a AND c) XOR (b AND c);
          t2 = s0 + maj
      in [t1 + t2, a, b, c, d + t1, e, f, g])"
| "sha_round hs kw = hs"

definition sha_block :: "u32 list \<Rightarrow> bytes \<Rightarrow> u32 list" where
  "sha_block hs block =
     map2 (+) hs (foldl sha_round hs (zip sha_round_constants (sha_schedule block)))"

definition sha256 :: "bytes \<Rightarrow> bytes" where
  "sha256 msg =
     concat (map (\<lambda>w. be_bytes 4 (unat w)) (foldl sha_block sha_init (chunks 64 (sha_pad msg))))"

definition hex_chars :: bytes where
  "hex_chars = ''0123456789abcdef''"

definition hex_encode :: "bytes \<Rightarrow> bytes" where
  "hex_encode bs =
     concat (map (\<lambda>b. [hex_chars ! (byte_code b div 16), hex_chars ! (byte_code b mod 16)]) bs)"

section \<open>Shape of the digest\<close>

lemma length_be_bytes [simp]: "length (be_bytes k v) = k"
  by (induction k arbitrary: v) auto

lemma length_sha_round [simp]: "length (sha_round hs kw) = length hs"
  by (induction hs kw rule: sha_round.induct) (auto simp: Let_def)

lemma length_sha_fold: "length (foldl sha_round hs kws) = length hs"
  by (induction kws arbitrary: hs) auto

lemma length_sha_block [simp]: "length (sha_block hs block) = length hs"
  by (simp add: sha_block_def length_sha_fold)

lemma length_sha_blocks: "length (foldl sha_block hs bs) = length hs"
  by (induction bs arbitrary: hs) auto

lemma length_sha256 [simp]: "length (sha256 msg) = 32"
proof -
  have "length (concat (map (\<lambda>w. be_bytes 4 (unat w)) ws)) = 4 * length ws" for ws :: "u32 list"
    by (induction ws) auto
  then show ?thesis
    by (simp add: sha256_def length_sha_blocks sha_init_def)
qed

lemma length_hex_encode [simp]: "length (hex_encode bs) = 2 * length bs"
  by (induction bs) (auto simp: hex_encode_def)

lemma byte_code_less: "byte_code b < 256"
  unfolding byte_code_def by simp

lemma hex_chars_nth_inj: "i < 16 \<Longrightarrow> j < 16 \<Longrightarrow> hex_chars ! i = hex_chars ! j \<Longrightarrow> i = j"
  by (rule nth_eq_iff_index_eq [THEN iffD1, of hex_chars]) (auto simp: hex_chars_def)

lemma byte_code_inj: "byte_code a = byte_code b \<Longrightarrow> a = b"
  unfolding byte_code_def by simp

lemma hex_encode_Cons:
  "hex_encode (b # bs) = hex_chars ! (byte_code b div 16) # hex_chars ! (byte_code b mod 16) # hex_encode bs"
  by (simp add: hex_encode_def)

lemma hex_encode_inj: "hex_encode xs = hex_encode ys \<Longrightarrow> xs = ys"
proof (induction xs arbitrary: ys)
  case Nil
  then have "length (hex_encode ys) = 0" by (simp add: hex_encode_def)
  then show ?case by simp
next
  case (Cons x xs)
  then have "length (hex_encode ys) = Suc (Suc (length (hex_encode xs)))"
    by (metis hex_encode_Cons length_Cons)
  then obtain y ys' where ys: "ys = y # ys'" by (cases ys) auto
  have b: "byte_code x div 16 < 16" "byte_code y div 16 < 16"
    using byte_code_less [of x] byte_code_less [of y] by auto
  from Cons.prems have "byte_code x div 16 = byte_code y div 16" "byte_code x mod 16 = byte_code y mod 16"
    using b by (auto simp: ys hex_encode_Cons intro: hex_chars_nth_inj)
  then have "x = y" by (metis byte_code_inj div_mult_mod_eq)
  with Cons ys show ?case by (simp add: hex_encode_Cons)
qed

end
