(* ===== verification/Record_Decoder.thy ===== *)
theory Record_Decoder
  imports Go_Value Go_Sha256
begin

text \<open>
  The incremental framing of one report generation (\<open>internal/source/decoder.go\<close>): the
  decoder's state, its operations \<open>Append\<close>, \<open>Next\<close> and \<open>Commit\<close>, and the decoding of a
  framed record.  Operations take the state and return it; Go's early returns leave the fields
  written so far, so a failing \<open>Next\<close> still returns its state.
\<close>

section \<open>State\<close>

record source_record =
  Raw :: bytes
  StartOffset :: nat
  EndOffset :: nat
  Fingerprint :: bytes
  ClosesArray :: bool
  token :: u64

record decoder =
  maxRecordBytes :: nat
  buffer :: bytes
  committed :: nat
  opened :: bool
  closed :: bool
  recordsSeen :: bool
  pending :: "source_record option"
  nextToken :: u64

definition NewDecoder :: "int \<Rightarrow> error + decoder" where
  "NewDecoder max_bytes =
     (if max_bytes \<le> 0 then Inl (Text ''max record bytes must be positive'')
      else Inr \<lparr>maxRecordBytes = nat max_bytes, buffer = [], committed = 0, opened = False,
                closed = False, recordsSeen = False, pending = None, nextToken = 0\<rparr>)"

definition invalid_framing :: "string \<Rightarrow> error" where
  "invalid_framing detail = Wrap detail [Sentinel ErrInvalidFraming]"

section \<open>Operations\<close>

text \<open>\<open>skipWhitespace\<close> returns an index; the bytes it skips are JSON white space.\<close>

fun skipWhitespace :: "bytes \<Rightarrow> nat" where
  "skipWhitespace [] = 0"
| "skipWhitespace (c # cs) = (if is_space c then Suc (skipWhitespace cs) else 0)"

definition skipWhitespaceFrom :: "bytes \<Rightarrow> nat \<Rightarrow> nat" where
  "skipWhitespaceFrom data start = start + skipWhitespace (drop start data)"

definition isWhitespace :: "bytes \<Rightarrow> bool" where
  "isWhitespace data \<longleftrightarrow> skipWhitespaceFrom data 0 = length data"

definition ReadOffset :: "decoder \<Rightarrow> nat" where
  "ReadOffset d = committed d + length (buffer d)"

definition CommittedOffset :: "decoder \<Rightarrow> nat" where
  "CommittedOffset d = committed d"

definition Closed :: "decoder \<Rightarrow> bool" where
  "Closed d = closed d"

definition decoder_append :: "decoder \<Rightarrow> nat \<Rightarrow> bytes \<Rightarrow> error option \<times> decoder" where
  "decoder_append d offset data =
     (if offset \<noteq> ReadOffset d
      then (Some (Wrap ''append'' [Sentinel ErrOffsetMismatch]), d)
      else if closed d then
        (if \<not> isWhitespace data
         then (Some (invalid_framing ''data follows closing bracket''), d)
         else (None, d\<lparr>committed := committed d + length data\<rparr>))
      else if (case pending d of Some r \<Rightarrow> ClosesArray r | None \<Rightarrow> False) \<and> \<not> isWhitespace data
        then (Some (invalid_framing ''data follows closing bracket''), d)
      else (None, d\<lparr>buffer := buffer d @ data\<rparr>))"

definition consumeStructuralBytes :: "decoder \<Rightarrow> nat \<Rightarrow> decoder" where
  "consumeStructuralBytes d count =
     d\<lparr>buffer := drop count (buffer d), committed := committed d + count\<rparr>"

definition consumeOpeningBracket :: "decoder \<Rightarrow> error option \<times> decoder" where
  "consumeOpeningBracket d =
     (let start = skipWhitespaceFrom (buffer d) 0 in
      if start = length (buffer d) then (Some (Sentinel ErrNeedMore), d)
      else if buffer d ! start \<noteq> CHR ''['' then (Some (invalid_framing ''expected opening bracket''), d)
      else (None, (consumeStructuralBytes d (start + 1))\<lparr>opened := True\<rparr>))"

text \<open>
  \<open>isIncomplete\<close>: end of input inside a value, or a syntax error reported at the last
  available byte.
\<close>

definition isIncomplete :: "read_result \<Rightarrow> nat \<Rightarrow> bool" where
  "isIncomplete err available =
     (case err of
        ReadEOF \<Rightarrow> True
      | ReadUnexpectedEOF \<Rightarrow> True
      | ReadSyntax off \<Rightarrow> available \<le> off
      | ReadOk n \<Rightarrow> False)"

definition decodeObject :: "decoder \<Rightarrow> nat \<Rightarrow> error + bytes \<times> nat" where
  "decodeObject d start =
     (let available = length (buffer d) - start;
          result = read_value (drop start (buffer d))
      in case result of
           ReadOk n \<Rightarrow>
             (let raw = skip_space (take n (drop start (buffer d)))
              in if length raw > maxRecordBytes d then Inl (Sentinel ErrRecordTooLarge)
                 else Inr (raw, start + n))
         | _ \<Rightarrow>
             if isIncomplete result available then
               (if available > maxRecordBytes d then Inl (Sentinel ErrRecordTooLarge)
                else Inl (Sentinel ErrNeedMore))
             else Inl (invalid_framing ''malformed report object''))"

definition nextRecord :: "decoder \<Rightarrow> (error + source_record) \<times> decoder" where
  "nextRecord d =
     (let start = skipWhitespaceFrom (buffer d) 0 in
      if start = length (buffer d) then (Inl (Sentinel ErrNeedMore), d)
      else if buffer d ! start = CHR '']'' then
        (if recordsSeen d then (Inl (invalid_framing ''trailing comma before closing bracket''), d)
         else if \<not> isWhitespace (drop (start + 1) (buffer d))
           then (Inl (invalid_framing ''data follows closing bracket''), d)
         else (Inl (Sentinel ErrClosed),
               (consumeStructuralBytes d (length (buffer d)))\<lparr>closed := True\<rparr>))
      else if buffer d ! start \<noteq> CHR ''{''
        then (Inl (invalid_framing ''expected report object''), d)
      else (case decodeObject d start of
          Inl e \<Rightarrow> (Inl e, d)
        | Inr (raw, objectEnd) \<Rightarrow>
            (let delimiter = skipWhitespaceFrom (buffer d) objectEnd in
             if delimiter = length (buffer d) then (Inl (Sentinel ErrNeedMore), d)
             else if buffer d ! delimiter \<noteq> CHR '','' \<and> buffer d ! delimiter \<noteq> CHR '']''
               then (Inl (invalid_framing ''expected object delimiter''), d)
             else if buffer d ! delimiter = CHR '']'' \<and> \<not> isWhitespace (drop (delimiter + 1) (buffer d))
               then (Inl (invalid_framing ''data follows closing bracket''), d)
             else
               (let r = \<lparr>Raw = raw,
                         StartOffset = committed d + start,
                         EndOffset = committed d + (delimiter + 1),
                         Fingerprint = sha256 raw,
                         ClosesArray = (buffer d ! delimiter = CHR '']''),
                         token = nextToken d + 1\<rparr>
                in (Inr r, d\<lparr>nextToken := nextToken d + 1, pending := Some r\<rparr>)))))"

definition Next :: "decoder \<Rightarrow> (error + source_record) \<times> decoder" where
  "Next d =
     (case pending d of
        Some r \<Rightarrow> (Inr r, d)
      | None \<Rightarrow>
          if closed d then (Inl (Sentinel ErrClosed), d)
          else if \<not> opened d then
            (case consumeOpeningBracket d of
               (Some e, d') \<Rightarrow> (Inl e, d')
             | (None, d') \<Rightarrow> nextRecord d')
          else nextRecord d)"

definition Commit :: "decoder \<Rightarrow> source_record \<Rightarrow> error option \<times> decoder" where
  "Commit d r =
     (case pending d of
        None \<Rightarrow> (Some (Sentinel ErrInvalidCommit), d)
      | Some p \<Rightarrow>
          if token r \<noteq> token p \<or> EndOffset r \<noteq> EndOffset p
          then (Some (Sentinel ErrInvalidCommit), d)
          else
            (let consumed = EndOffset p - committed d;
                 d1 = d\<lparr>buffer := drop consumed (buffer d), committed := EndOffset p,
                        closed := ClosesArray p, recordsSeen := True, pending := None\<rparr>
             in (None, if closed d1 then consumeStructuralBytes d1 (length (buffer d1)) else d1)))"

text \<open>
  \<open>Record.Decode\<close> into a map: the value, then a second decode into an empty struct that
  must report the end of input.  A second object (or \<open>null\<close>) decodes without error and is
  reported as invalid framing; anything else surfaces as the decoding error itself.
\<close>

definition decodes_into_empty_struct :: "bytes \<Rightarrow> bool" where
  "decodes_into_empty_struct rest =
     (case sole_value rest of
        Inl e \<Rightarrow> False
      | Inr v \<Rightarrow> v = null_literal \<or> (v \<noteq> [] \<and> hd v = CHR ''{''))"

definition Record_Decode :: "source_record \<Rightarrow> error + fields option" where
  "Record_Decode r =
     (case sole_value (Raw r) of
        Inl e \<Rightarrow> Inl (Text ''decode source record'')
      | Inr v \<Rightarrow>
          (case decode_object v of
             Inl e \<Rightarrow> Inl (Text ''decode source record'')
           | Inr fs \<Rightarrow>
               (let rest = value_rest (Raw r) in
                if only_space rest then Inr fs
                else if decodes_into_empty_struct rest
                  then Inl (Wrap ''decode source record'' [Sentinel ErrInvalidFraming])
                else Inl (Text ''decode source record''))))"

section \<open>White space\<close>

lemma skipWhitespace_le: "skipWhitespace bs \<le> length bs"
  by (induction bs) auto

lemma skipWhitespace_all: "skipWhitespace bs = length bs \<longleftrightarrow> list_all is_space bs"
  by (induction bs) (use skipWhitespace_le in \<open>auto simp: less_Suc_eq_le\<close>)

lemma skipWhitespace_stop:
  "skipWhitespace bs < length bs \<Longrightarrow>
     \<not> is_space (bs ! skipWhitespace bs) \<and> skipWhitespace (bs @ cs) = skipWhitespace bs"
  by (induction bs) auto

lemma skip_space_drop: "skip_space bs = drop (skipWhitespace bs) bs"
  by (induction bs) auto

lemma isWhitespace_iff: "isWhitespace bs \<longleftrightarrow> list_all is_space bs"
  by (simp add: isWhitespace_def skipWhitespaceFrom_def skipWhitespace_all)

lemma isWhitespace_append [simp]:
  "isWhitespace (xs @ ys) \<longleftrightarrow> isWhitespace xs \<and> isWhitespace ys"
  by (simp add: isWhitespace_iff)

lemma skipWhitespaceFrom_bounds:
  "start \<le> length bs \<Longrightarrow> start \<le> skipWhitespaceFrom bs start \<and> skipWhitespaceFrom bs start \<le> length bs"
  using skipWhitespace_le [of "drop start bs"] by (simp add: skipWhitespaceFrom_def)

lemma skipWhitespaceFrom_more:
  assumes "start \<le> length bs" "skipWhitespaceFrom bs start \<noteq> length bs"
  shows "skipWhitespaceFrom bs start < length bs"
    and "skipWhitespaceFrom (bs @ cs) start = skipWhitespaceFrom bs start"
    and "\<not> is_space (bs ! skipWhitespaceFrom bs start)"
proof -
  show lt: "skipWhitespaceFrom bs start < length bs"
    using skipWhitespaceFrom_bounds [OF assms(1)] assms(2) by simp
  then have "skipWhitespace (drop start bs) < length (drop start bs)"
    by (simp add: skipWhitespaceFrom_def)
  from skipWhitespace_stop [OF this, of cs] assms(1)
  show "skipWhitespaceFrom (bs @ cs) start = skipWhitespaceFrom bs start"
    and "\<not> is_space (bs ! skipWhitespaceFrom bs start)"
    by (auto simp: skipWhitespaceFrom_def)
qed

section \<open>Framing one object\<close>

definition with_more :: "decoder \<Rightarrow> bytes \<Rightarrow> decoder" where
  "with_more d data = d\<lparr>buffer := buffer d @ data\<rparr>"

lemma with_more_simps [simp]:
  "buffer (with_more d c) = buffer d @ c" "committed (with_more d c) = committed d"
  "maxRecordBytes (with_more d c) = maxRecordBytes d" "opened (with_more d c) = opened d"
  "closed (with_more d c) = closed d" "recordsSeen (with_more d c) = recordsSeen d"
  "pending (with_more d c) = pending d" "nextToken (with_more d c) = nextToken d"
  by (simp_all add: with_more_def)

lemma decodeObject_ok:
  assumes "start < length (buffer d)" "buffer d ! start = CHR ''{''"
    and "decodeObject d start = Inr (raw, e)"
  shows "start + 1 < e" "e \<le> length (buffer d)" "raw = take (e - start) (drop start (buffer d))"
    "length raw \<le> maxRecordBytes d" "read_value raw = ReadOk (length raw)" "hd raw = CHR ''{''"
    "decodeObject (with_more d c) start = Inr (raw, e)"
proof -
  let ?t = "drop start (buffer d)"
  have t: "?t \<noteq> []" "hd ?t = CHR ''{''" using assms(1,2) by (auto simp: hd_drop_conv_nth)
  obtain n where r: "read_value ?t = ReadOk n"
    and raw: "raw = skip_space (take n ?t)" "length raw \<le> maxRecordBytes d" and e: "e = start + n"
    using assms(3) by (auto simp: decodeObject_def Let_def split: read_result.splits if_splits)
  note ok = read_object_ok [OF t r]
  have "take n ?t \<noteq> []" "hd (take n ?t) = CHR ''{''" using ok(1) t by auto
  then have raw': "raw = take n ?t" by (cases "take n ?t") (auto simp: raw(1))
  then show "raw = take (e - start) ?t" "length raw \<le> maxRecordBytes d" "hd raw = CHR ''{''"
    using raw e t ok(1) by auto
  show "start + 1 < e" "e \<le> length (buffer d)" using ok(1,2) assms(1) by (auto simp: e)
  show "read_value raw = ReadOk (length raw)" using ok(2,4) by (simp add: raw')
  show "decodeObject (with_more d c) start = Inr (raw, e)"
    using ok(3) ok(2) assms(1,3) r raw raw' by (simp add: decodeObject_def Let_def e)
qed

lemma decodeObject_oversize:
  assumes "start < length (buffer d)" "buffer d ! start = CHR ''{''"
    and "read_value (drop start (buffer d)) \<in> {ReadEOF, ReadUnexpectedEOF}"
    and "maxRecordBytes d < length (buffer d) - start"
  shows "decodeObject (with_more d c) start
           \<in> {Inl (Sentinel ErrRecordTooLarge), Inl (invalid_framing ''malformed report object'')}"
proof -
  let ?t = "drop start (buffer d)"
  have t: "?t \<noteq> []" "hd ?t = CHR ''{''" using assms(1,2) by (auto simp: hd_drop_conv_nth)
  have app: "drop start (buffer d @ c) = ?t @ c" using assms(1) by simp
  note eof = read_object_eof_more [OF t assms(3), of c]
  show ?thesis
  proof (cases "read_value (?t @ c)")
    case (ReadOk n)
    then have n: "length ?t < n" by (rule eof(1))
    have "?t @ c \<noteq> []" "hd (?t @ c) = CHR ''{''" using t by auto
    note le = read_object_ok(1,2) [OF this ReadOk]
    have "take n (?t @ c) \<noteq> []" "hd (take n (?t @ c)) = CHR ''{''" using t le by auto
    then have "skip_space (take n (?t @ c)) = take n (?t @ c)" by (cases "take n (?t @ c)") auto
    then have "length (skip_space (take n (?t @ c))) = n" using le(2) by simp
    with n assms(4) ReadOk app show ?thesis by (simp add: decodeObject_def Let_def)
  qed (use assms(1,4) app in \<open>auto simp: decodeObject_def Let_def isIncomplete_def\<close>)
qed

lemma decodeObject_err_more:
  assumes "start < length (buffer d)" "buffer d ! start = CHR ''{''"
    and "decodeObject d start = Inl err" "err \<noteq> Sentinel ErrNeedMore"
  shows "\<exists>err'. decodeObject (with_more d c) start = Inl err'
           \<and> err' \<noteq> Sentinel ErrNeedMore \<and> err' \<noteq> Sentinel ErrClosed"
proof -
  let ?t = "drop start (buffer d)"
  have t: "?t \<noteq> []" "hd ?t = CHR ''{''" using assms(1,2) by (auto simp: hd_drop_conv_nth)
  have app: "drop start (buffer d @ c) = ?t @ c" using assms(1) by simp
  show ?thesis
  proof (cases "read_value ?t")
    case (ReadOk n)
    note ok = read_object_ok [OF t ReadOk]
    from ok(2) have "take n (?t @ c) = take n ?t" by (rule take_append_le)
    with assms(3) ReadOk ok(3) app show ?thesis
      by (auto simp: decodeObject_def Let_def split: if_splits)
  next
    case (ReadSyntax off)
    note sy = read_object_syntax(1) [OF t ReadSyntax] read_object_syntax(2) [OF t ReadSyntax, of c]
    show ?thesis
    proof (cases "maxRecordBytes d < length ?t \<and> length ?t \<le> off")
      case True
      with sy app show ?thesis
        by (auto simp: decodeObject_def Let_def isIncomplete_def invalid_framing_def)
    next
      case False
      with assms(3,4) ReadSyntax sy app show ?thesis
        by (auto simp: decodeObject_def Let_def isIncomplete_def invalid_framing_def split: if_splits)
    qed
  next
    case ReadEOF
    then show ?thesis
      using decodeObject_oversize [OF assms(1,2), of c] assms(3,4)
      by (auto simp: decodeObject_def Let_def isIncomplete_def invalid_framing_def split: if_splits)
  next
    case ReadUnexpectedEOF
    then show ?thesis
      using decodeObject_oversize [OF assms(1,2), of c] assms(3,4)
      by (auto simp: decodeObject_def Let_def isIncomplete_def invalid_framing_def split: if_splits)
  qed
qed

section \<open>One step over more bytes\<close>

definition frames_record :: "decoder \<Rightarrow> source_record \<Rightarrow> bool" where
  "frames_record d r \<longleftrightarrow>
     (let start = StartOffset r - committed d; e = EndOffset r - committed d - 1 in
        committed d \<le> StartOffset r \<and> start + length (Raw r) \<le> e \<and> e < length (buffer d)
      \<and> EndOffset r = committed d + e + 1
      \<and> list_all is_space (take start (buffer d))
      \<and> take (length (Raw r)) (drop start (buffer d)) = Raw r
      \<and> list_all is_space (take (e - (start + length (Raw r))) (drop (start + length (Raw r)) (buffer d)))
      \<and> buffer d ! e = (if ClosesArray r then CHR '']'' else CHR '','')
      \<and> (ClosesArray r \<longrightarrow> isWhitespace (drop (e + 1) (buffer d)))
      \<and> length (Raw r) \<le> maxRecordBytes d
      \<and> hd (Raw r) = CHR ''{'' \<and> read_value (Raw r) = ReadOk (length (Raw r))
      \<and> Fingerprint r = sha256 (Raw r))"

lemma skipWhitespaceFrom_skipped:
  "list_all is_space (take (skipWhitespaceFrom bs n - n) (drop n bs))"
proof -
  have "list_all is_space (take (skipWhitespace ys) ys)" for ys
    by (induction ys) auto
  then show ?thesis by (simp add: skipWhitespaceFrom_def)
qed

lemma nextRecord_ok:
  assumes "nextRecord d = (Inr r, d')"
  shows "d' = d\<lparr>nextToken := nextToken d + 1, pending := Some r\<rparr>" "frames_record d r"
    "token r = nextToken d + 1"
    "(ClosesArray r \<longrightarrow> isWhitespace c) \<Longrightarrow> nextRecord (with_more d c) = (Inr r, with_more d' c)"
proof -
  let ?b = "buffer d" and ?s = "skipWhitespaceFrom (buffer d) 0"
  from assms have s: "?s \<noteq> length ?b" and br: "?b ! ?s = CHR ''{''"
    by (auto simp: nextRecord_def Let_def split: if_splits)
  note sm = skipWhitespaceFrom_more [of 0 ?b, OF _ s, simplified]
  from assms s br obtain raw oe where dec: "decodeObject d ?s = Inr (raw, oe)"
    by (auto simp: nextRecord_def Let_def split: if_splits sum.splits)
  note ob = decodeObject_ok [OF sm(1) br dec]
  let ?dl = "skipWhitespaceFrom (buffer d) oe"
  from assms s br dec have dl: "?dl \<noteq> length ?b"
    and ch: "?b ! ?dl = CHR '','' \<or> ?b ! ?dl = CHR '']''"
    and ws: "?b ! ?dl = CHR '']'' \<longrightarrow> isWhitespace (drop (?dl + 1) ?b)"
    and r: "r = \<lparr>Raw = raw, StartOffset = committed d + ?s, EndOffset = committed d + (?dl + 1),
                Fingerprint = sha256 raw, ClosesArray = (?b ! ?dl = CHR '']''), token = nextToken d + 1\<rparr>"
    and d': "d' = d\<lparr>nextToken := nextToken d + 1, pending := Some r\<rparr>"
    by (auto simp: nextRecord_def Let_def split: if_splits)
  note dm = skipWhitespaceFrom_more [OF ob(2) dl]
  have lr: "length raw = oe - ?s" using ob(1,2,3) by simp
  show "d' = d\<lparr>nextToken := nextToken d + 1, pending := Some r\<rparr>" "token r = nextToken d + 1"
    using d' r by auto
  have le: "oe \<le> ?dl" using skipWhitespaceFrom_bounds [OF ob(2)] by simp
  show "frames_record d r"
    unfolding frames_record_def Let_def r
    using ob ch ws dm(1) le lr skipWhitespaceFrom_skipped [of ?b 0] skipWhitespaceFrom_skipped [of ?b oe]
    by auto
  show "nextRecord (with_more d c) = (Inr r, with_more d' c)" if "ClosesArray r \<longrightarrow> isWhitespace c"
  proof -
    have "(?b @ c) ! ?s = CHR ''{''" "(?b @ c) ! ?dl = ?b ! ?dl"
      using sm(1) dm(1) br by (auto simp: nth_append)
    moreover have "drop (?dl + 1) (?b @ c) = drop (?dl + 1) ?b @ c" using dm(1) by simp
    ultimately show ?thesis
      using that s br sm dm ob(7) [of c] ch ws r d' by (simp add: nextRecord_def Let_def with_more_def)
  qed
qed

lemma nextRecord_needmore:
  "nextRecord d = (Inl (Sentinel ErrNeedMore), d') \<Longrightarrow> d' = d"
  by (auto simp: nextRecord_def Let_def split: if_splits sum.splits)

lemma nextRecord_err_state:
  "nextRecord d = (Inl e, d') \<Longrightarrow> e \<noteq> Sentinel ErrClosed \<Longrightarrow> d' = d"
  by (auto simp: nextRecord_def Let_def split: if_splits sum.splits)

end
