(* ===== verification/Decoder_Chunks.thy ===== *)
theory Decoder_Chunks
  imports Record_Decoder
begin

text \<open>
  The decoder is fed by reads of arbitrary length, so what it delivers must not depend on where
  the reads cut the stream.  This theory runs the consumer's loop (\<open>Next\<close>, apply, \<open>Commit\<close>
  until \<open>Next\<close> fails, as \<open>generationReader.drain\<close> does) over a sequence of appends and
  proves that every partition of the same bytes delivers the same records and ends in the same
  decoder state, as long as the stream is not rejected; a rejected stream is rejected under every
  partition.
\<close>

section \<open>Next on an extended buffer\<close>

lemma decodeObject_not_closed: "decodeObject d start \<noteq> Inl (Sentinel ErrClosed)"
  by (auto simp: decodeObject_def Let_def invalid_framing_def split: read_result.splits if_splits)

lemma nextRecord_closed:
  assumes "nextRecord d = (Inl (Sentinel ErrClosed), d')"
  shows "d' = d\<lparr>buffer := [], committed := committed d + length (buffer d), closed := True\<rparr>"
    "isWhitespace c \<Longrightarrow> nextRecord (with_more d c)
       = (Inl (Sentinel ErrClosed), d'\<lparr>committed := committed d' + length c\<rparr>)"
    "\<not> isWhitespace c \<Longrightarrow> \<exists>m. nextRecord (with_more d c) = (Inl (invalid_framing m), with_more d c)"
proof -
  let ?b = "buffer d" and ?s = "skipWhitespaceFrom (buffer d) 0"
  have st: "?s \<noteq> length ?b" "?b ! ?s = CHR '']''" "\<not> recordsSeen d" "isWhitespace (drop (?s + 1) ?b)"
    using assms decodeObject_not_closed [of d ?s]
    by (auto simp: nextRecord_def Let_def invalid_framing_def split: if_splits sum.splits)
  show d': "d' = d\<lparr>buffer := [], committed := committed d + length (buffer d), closed := True\<rparr>"
    using assms st by (simp add: nextRecord_def Let_def consumeStructuralBytes_def)
  note sm = skipWhitespaceFrom_more [of 0 ?b, OF _ st(1), simplified]
  have nth: "(?b @ c) ! ?s = CHR '']''" using sm(1) st(2) by (simp add: nth_append)
  have dr: "drop (?s + 1) (?b @ c) = drop (?s + 1) ?b @ c" using sm(1) by simp
  show "nextRecord (with_more d c) = (Inl (Sentinel ErrClosed), d'\<lparr>committed := committed d' + length c\<rparr>)"
    if "isWhitespace c"
    using that st nth dr sm by (simp add: nextRecord_def Let_def consumeStructuralBytes_def d' with_more_def)
  show "\<exists>m. nextRecord (with_more d c) = (Inl (invalid_framing m), with_more d c)" if "\<not> isWhitespace c"
    using that st nth dr sm by (auto simp: nextRecord_def Let_def)
qed

definition halts_ok :: "error \<Rightarrow> bool" where
  "halts_ok e \<longleftrightarrow> e = Sentinel ErrNeedMore \<or> e = Sentinel ErrClosed"

lemma halts_ok_simps [simp]:
  "halts_ok (Sentinel ErrNeedMore)" "halts_ok (Sentinel ErrClosed)"
  "\<not> halts_ok (invalid_framing m)" "\<not> halts_ok (Sentinel ErrRecordTooLarge)"
  "\<not> halts_ok (Wrap m es)"
  by (auto simp: halts_ok_def invalid_framing_def)

lemma nextRecord_bad:
  assumes "nextRecord d = (Inl e, d')" "\<not> halts_ok e"
  shows "\<exists>e' d''. nextRecord (with_more d c) = (Inl e', d'') \<and> \<not> halts_ok e'"
proof -
  let ?b = "buffer d" and ?s = "skipWhitespaceFrom (buffer d) 0"
  have s: "?s \<noteq> length ?b" using assms by (auto simp: nextRecord_def Let_def split: if_splits)
  note sm = skipWhitespaceFrom_more [of 0 ?b, OF _ s, simplified]
  have nth: "(?b @ c) ! ?s = ?b ! ?s" using sm(1) by (simp add: nth_append)
  have dr: "drop (?s + 1) (?b @ c) = drop (?s + 1) ?b @ c" using sm(1) by simp
  show ?thesis
  proof (cases "?b ! ?s = CHR ''{''")
    case False
    with assms s nth dr sm show ?thesis
      by (auto simp: nextRecord_def Let_def split: if_splits)
  next
    case True
    show ?thesis
    proof (cases "decodeObject d ?s")
      case (Inl e0)
      with assms s True have "e0 = e" by (auto simp: nextRecord_def Let_def)
      with Inl assms(2) decodeObject_err_more [OF sm(1) True, of e c]
      obtain e1 where "decodeObject (with_more d c) ?s = Inl e1" "\<not> halts_ok e1"
        by (auto simp: halts_ok_def)
      with s sm nth True show ?thesis by (auto simp: nextRecord_def Let_def)
    next
      case (Inr ro)
      obtain raw oe where ro: "ro = (raw, oe)" by (cases ro) auto
      note ob = decodeObject_ok [OF sm(1) True, of raw oe] and dec = Inr [unfolded ro]
      let ?dl = "skipWhitespaceFrom (buffer d) oe"
      have dl: "?dl \<noteq> length ?b" using assms s True dec
        by (auto simp: nextRecord_def Let_def split: if_splits)
      note dm = skipWhitespaceFrom_more [OF ob(2) [OF dec] dl]
      have nth2: "(?b @ c) ! ?dl = ?b ! ?dl" using dm(1) by (simp add: nth_append)
      have dr2: "drop (?dl + 1) (?b @ c) = drop (?dl + 1) ?b @ c" using dm(1) by simp
      from assms s True dec dl sm nth dm nth2 dr2 ob(7) [OF dec, of c] show ?thesis
        by (auto simp: nextRecord_def Let_def split: if_splits)
    qed
  qed
qed

lemma nextRecord_closing_bad:
  assumes "nextRecord d = (Inr r, d')" "ClosesArray r" "\<not> isWhitespace c"
  shows "\<exists>m. nextRecord (with_more d c) = (Inl (invalid_framing m), with_more d c)"
proof -
  let ?b = "buffer d" and ?s = "skipWhitespaceFrom (buffer d) 0"
  from assms have s: "?s \<noteq> length ?b" and br: "?b ! ?s = CHR ''{''"
    by (auto simp: nextRecord_def Let_def split: if_splits)
  note sm = skipWhitespaceFrom_more [of 0 ?b, OF _ s, simplified]
  from assms s br obtain raw oe where dec: "decodeObject d ?s = Inr (raw, oe)"
    by (auto simp: nextRecord_def Let_def split: if_splits sum.splits)
  note ob = decodeObject_ok [OF sm(1) br dec]
  let ?dl = "skipWhitespaceFrom (buffer d) oe"
  from assms s br dec have dl: "?dl \<noteq> length ?b" and ch: "?b ! ?dl = CHR '']''"
    by (auto simp: nextRecord_def Let_def split: if_splits)
  note dm = skipWhitespaceFrom_more [OF ob(2) dl]
  have "(?b @ c) ! ?s = CHR ''{''" "(?b @ c) ! ?dl = CHR '']''"
    using sm(1) dm(1) br ch by (auto simp: nth_append)
  moreover have "drop (?dl + 1) (?b @ c) = drop (?dl + 1) ?b @ c" using dm(1) by simp
  ultimately show ?thesis
    using assms(3) s br sm dm ob(7) [of c] by (auto simp: nextRecord_def Let_def)
qed

section \<open>The consumer's loop\<close>

text \<open>
  What every consumer of the decoder does between two appends: take the next record, apply it,
  commit it, until \<open>Next\<close> reports an error.  The measure counts the buffered bytes and the
  pending record: a commit of a record framed by \<open>Next\<close> removes at least its delimiter.
\<close>

lemma Next_Commit_shrinks:
  assumes "Next d = (Inr r, d1)" "Commit d1 r = (None, d2)"
  shows "length (buffer d2) + (case pending d2 of None \<Rightarrow> 0 | Some _ \<Rightarrow> 1)
       < length (buffer d) + (case pending d of None \<Rightarrow> 0 | Some _ \<Rightarrow> 1)"
proof (cases "pending d")
  case (Some p)
  with assms show ?thesis
    by (auto simp: Next_def Commit_def Let_def consumeStructuralBytes_def split: if_splits)
next
  case None
  then obtain d0 where d0: "nextRecord d0 = (Inr r, d1)" "length (buffer d0) \<le> length (buffer d)"
    using assms(1)
    by (auto simp: Next_def consumeOpeningBracket_def consumeStructuralBytes_def Let_def split: if_splits)
  note ok = nextRecord_ok [OF d0(1)]
  have "committed d0 < EndOffset r" "0 < length (buffer d0)"
    using ok(2) by (auto simp: frames_record_def Let_def)
  then have "length (buffer d0) - (EndOffset r - committed d0) < length (buffer d0)" by linarith
  with assms(2) d0(2) ok(1) show ?thesis
    by (auto simp: Commit_def Let_def consumeStructuralBytes_def None split: if_splits)
qed

function pump :: "decoder \<Rightarrow> source_record list \<times> error \<times> decoder" where
  "pump d =
     (case Next d of
        (Inl e, d1) \<Rightarrow> ([], e, d1)
      | (Inr r, d1) \<Rightarrow>
          (case Commit d1 r of
             (Some e, d2) \<Rightarrow> ([], e, d2)
           | (None, d2) \<Rightarrow> (case pump d2 of (rs, e, d3) \<Rightarrow> (r # rs, e, d3))))"
  by pat_completeness auto
termination
  by (relation "measure (\<lambda>d. length (buffer d) + (case pending d of None \<Rightarrow> 0 | Some _ \<Rightarrow> 1))")
    (auto dest: Next_Commit_shrinks dest!: sym [of "(_, _)"])

declare pump.simps [simp del]

lemma pump_err: "Next d = (Inl e, d1) \<Longrightarrow> pump d = ([], e, d1)"
  by (subst pump.simps) simp

lemma pump_cong: "Next d = Next d' \<Longrightarrow> pump d = pump d'"
  by (subst (1 2) pump.simps) simp

lemma pump_record:
  "Next d = (Inr r, d1) \<Longrightarrow> Commit d1 r = (None, d2) \<Longrightarrow>
     pump d = (case pump d2 of (rs, e, d3) \<Rightarrow> (r # rs, e, d3))"
  by (subst pump.simps) simp

text \<open>One append at the read offset, then the loop.\<close>

definition feed_chunk :: "decoder \<Rightarrow> bytes \<Rightarrow> source_record list \<times> error \<times> decoder" where
  "feed_chunk d c =
     (case decoder_append d (ReadOffset d) c of
        (Some e, d1) \<Rightarrow> ([], e, d1)
      | (None, d1) \<Rightarrow> pump d1)"

definition outcome :: "source_record list \<times> error \<times> decoder \<Rightarrow> (source_record list \<times> error \<times> decoder) option" where
  "outcome out = (if halts_ok (fst (snd out)) then Some out else None)"

lemma outcome_simps [simp]:
  "halts_ok e \<Longrightarrow> outcome (rs, e, d) = Some (rs, e, d)"
  "\<not> halts_ok e \<Longrightarrow> outcome (rs, e, d) = None"
  by (simp_all add: outcome_def)


text \<open>The decoder between two appends: nothing pending, and a closed decoder keeps no bytes.\<close>

definition quiescent :: "decoder \<Rightarrow> bool" where
  "quiescent d \<longleftrightarrow> pending d = None \<and> (closed d \<longrightarrow> buffer d = [])"

lemma feed_open:
  "\<not> closed d \<Longrightarrow> pending d = None \<Longrightarrow> feed_chunk d c = pump (with_more d c)"
  by (simp add: feed_chunk_def decoder_append_def with_more_def)

lemma feed_closed:
  "closed d \<Longrightarrow> pending d = None \<Longrightarrow> feed_chunk d c =
     (if isWhitespace c then ([], Sentinel ErrClosed, d\<lparr>committed := committed d + length c\<rparr>)
      else ([], invalid_framing ''data follows closing bracket'', d))"
  by (simp add: feed_chunk_def decoder_append_def pump_err Next_def)

lemma Commit_framed:
  assumes "nextRecord d = (Inr r, d1)"
  shows "Commit d1 r = (None,
      if ClosesArray r
      then d\<lparr>buffer := [], committed := committed d + length (buffer d), closed := True,
             recordsSeen := True, pending := None, nextToken := nextToken d + 1\<rparr>
      else d\<lparr>buffer := drop (EndOffset r - committed d) (buffer d), committed := EndOffset r,
             closed := False, recordsSeen := True, pending := None, nextToken := nextToken d + 1\<rparr>)"
  using nextRecord_ok(1,2) [OF assms]
  by (auto simp: Commit_def Let_def consumeStructuralBytes_def frames_record_def)

lemma consumeOpeningBracket_more:
  assumes "consumeOpeningBracket d = (None, d')"
  shows "consumeOpeningBracket (with_more d c) = (None, with_more d' c)"
    "pending d' = pending d" "closed d' = closed d" "opened d'"
proof -
  let ?s = "skipWhitespaceFrom (buffer d) 0"
  have s: "?s \<noteq> length (buffer d)" and br: "buffer d ! ?s = CHR ''[''"
    using assms by (auto simp: consumeOpeningBracket_def Let_def split: if_splits)
  note sm = skipWhitespaceFrom_more [of 0 "buffer d", OF _ s, simplified]
  have "(buffer d @ c) ! ?s = CHR ''[''" using sm(1) br by (simp add: nth_append)
  moreover have "drop (?s + 1) (buffer d @ c) = drop (?s + 1) (buffer d) @ c" using sm(1) by simp
  ultimately show "consumeOpeningBracket (with_more d c) = (None, with_more d' c)"
    "pending d' = pending d" "closed d' = closed d" "opened d'"
    using assms s sm br
    by (auto simp: consumeOpeningBracket_def Let_def consumeStructuralBytes_def with_more_def)
qed

lemma consumeOpeningBracket_err:
  assumes "consumeOpeningBracket d = (Some e, d')"
  shows "d' = d" "e \<noteq> Sentinel ErrNeedMore \<Longrightarrow>
     \<not> halts_ok e \<and> consumeOpeningBracket (with_more d c) = (Some e, with_more d c)"
proof -
  let ?s = "skipWhitespaceFrom (buffer d) 0"
  show "d' = d" using assms by (auto simp: consumeOpeningBracket_def Let_def split: if_splits)
  assume e: "e \<noteq> Sentinel ErrNeedMore"
  then have s: "?s \<noteq> length (buffer d)" and br: "buffer d ! ?s \<noteq> CHR ''[''"
    using assms by (auto simp: consumeOpeningBracket_def Let_def split: if_splits)
  note sm = skipWhitespaceFrom_more [of 0 "buffer d", OF _ s, simplified]
  have "(buffer d @ c) ! ?s \<noteq> CHR ''[''" using sm(1) br by (simp add: nth_append)
  then show "\<not> halts_ok e \<and> consumeOpeningBracket (with_more d c) = (Some e, with_more d c)"
    using assms s sm br by (auto simp: consumeOpeningBracket_def Let_def)
qed

text \<open>
  A live decoder with nothing pending reduces \<open>Next\<close> to \<open>nextRecord\<close> on a state that also
  serves any extension of the buffer.
\<close>

lemma Next_cases:
  assumes "pending d = None" "\<not> closed d"
  obtains (blocked) e where "Next d = (Inl e, d)" "\<not> opened d"
      "e \<noteq> Sentinel ErrNeedMore \<Longrightarrow> \<not> halts_ok e \<and> (\<forall>c. \<exists>d'. Next (with_more d c) = (Inl e, d'))"
  | (framing) d0 where "Next d = nextRecord d0" "\<forall>c. Next (with_more d c) = nextRecord (with_more d0 c)"
      "pending d0 = None" "\<not> closed d0" "opened d0"
proof (cases "opened d")
  case True
  with assms show ?thesis by (intro framing [of d]) (auto simp: Next_def)
next
  case False
  show ?thesis
  proof (cases "consumeOpeningBracket d")
    case (Pair eo d')
    show ?thesis
    proof (cases eo)
      case None
      note cb = consumeOpeningBracket_more [OF Pair [unfolded None]]
      with assms False Pair None show ?thesis by (intro framing [of d']) (auto simp: Next_def)
    next
      case (Some e)
      note cb = consumeOpeningBracket_err [OF Pair [unfolded Some]]
      show ?thesis
      proof (rule blocked [of e])
        show "Next d = (Inl e, d)" "\<not> opened d" using assms False Pair Some cb(1) by (auto simp: Next_def)
        show "\<not> halts_ok e \<and> (\<forall>c. \<exists>d'. Next (with_more d c) = (Inl e, d'))"
          if "e \<noteq> Sentinel ErrNeedMore"
          using cb(2) [OF that] assms False by (auto simp: Next_def)
      qed
    qed
  qed
qed

section \<open>Framing does not depend on how the bytes arrive\<close>

definition then_feed :: "source_record list \<times> error \<times> decoder \<Rightarrow> bytes \<Rightarrow>
    (source_record list \<times> error \<times> decoder) option" where
  "then_feed out c =
     (case outcome out of
        None \<Rightarrow> None
      | Some (rs1, e1, d1) \<Rightarrow>
          (case outcome (feed_chunk d1 c) of
             None \<Rightarrow> None
           | Some (rs2, e2, d2) \<Rightarrow> Some (rs1 @ rs2, e2, d2)))"

lemma then_feed_Nil:
  "halts_ok e \<Longrightarrow> then_feed ([], e, d) c = outcome (feed_chunk d c)"
  by (auto simp: then_feed_def split: option.splits)

lemma then_feed_Cons:
  "then_feed (case out of (rs, e, d) \<Rightarrow> (r # rs, e, d)) c
     = map_option (\<lambda>(rs, e, d). (r # rs, e, d)) (then_feed out c)"
  by (cases out) (auto simp: then_feed_def outcome_def split: option.splits if_splits prod.splits)

lemma outcome_Cons:
  "outcome (case out of (rs, e, d) \<Rightarrow> (r # rs, e, d))
     = map_option (\<lambda>(rs, e, d). (r # rs, e, d)) (outcome out)"
  by (cases out) (auto simp: outcome_def)

lemma pump_with_more:
  assumes "pending d = None" "\<not> closed d"
  shows "outcome (pump (with_more d c)) = then_feed (pump d) c"
  using assms
proof (induction d rule: pump.induct)
  case (1 d)
  from "1.prems" show ?case
  proof (cases d rule: Next_cases)
    case (blocked e)
    show ?thesis
    proof (cases "e = Sentinel ErrNeedMore")
      case True
      with blocked(1) "1.prems" show ?thesis
        by (simp add: pump_err then_feed_Nil feed_open)
    next
      case False
      with blocked(3) obtain d' where "Next (with_more d c) = (Inl e, d')" "\<not> halts_ok e" by blast
      with blocked(1) show ?thesis by (simp add: pump_err then_feed_def)
    qed
  next
    case (framing d0)
    note nx = framing(1) framing(2) [rule_format, of c]
    show ?thesis
    proof (cases "nextRecord d0")
      case (Pair res d1)
      show ?thesis
      proof (cases res)
        case (Inl e)
        note err = Pair [unfolded Inl]
        have p: "pump d = ([], e, d1)" using nx(1) err by (simp add: pump_err)
        consider (more) "e = Sentinel ErrNeedMore" | (shut) "e = Sentinel ErrClosed" | (bad) "\<not> halts_ok e"
          by (auto simp: halts_ok_def)
        then show ?thesis
        proof cases
          case more
          have d1: "d1 = d0" using err more by (auto dest: nextRecord_needmore)
          have "Next (with_more d0 c) = nextRecord (with_more d0 c)" using framing(3-5) by (simp add: Next_def)
          then have "pump (with_more d c) = pump (with_more d0 c)" using nx(2) by (intro pump_cong) simp
          with p more d1 framing(3,4) show ?thesis by (simp add: then_feed_Nil feed_open)
        next
          case shut
          note cl = nextRecord_closed [OF err [unfolded shut]]
          have d1: "closed d1" "pending d1 = None" using cl(1) framing(3) by auto
          show ?thesis
          proof (cases "isWhitespace c")
            case True
            with cl(2) nx(2) p shut d1 show ?thesis
              by (simp add: pump_err then_feed_Nil feed_closed)
          next
            case False
            with cl(3) nx(2) obtain m where "Next (with_more d c) = (Inl (invalid_framing m), with_more d0 c)"
              by metis
            with False p shut d1 show ?thesis
              by (simp add: pump_err then_feed_Nil feed_closed)
          qed
        next
          case bad
          obtain e' d'' where "nextRecord (with_more d0 c) = (Inl e', d'')" "\<not> halts_ok e'"
            using nextRecord_bad [OF err bad] by blast
          with nx(2) p bad show ?thesis by (simp add: pump_err then_feed_def)
        qed
      next
        case (Inr r)
        note ok = Pair [unfolded Inr]
        note cm = Commit_framed [OF ok]
        obtain d2 where d2: "Commit d1 r = (None, d2)" using cm by blast
        have p: "pump d = (case pump d2 of (rs, e, d3) \<Rightarrow> (r # rs, e, d3))"
          using nx(1) ok d2 by (simp add: pump_record)
        show ?thesis
        proof (cases "ClosesArray r \<and> \<not> isWhitespace c")
          case True
          then obtain m where "nextRecord (with_more d0 c) = (Inl (invalid_framing m), with_more d0 c)"
            using nextRecord_closing_bad [OF ok] by blast
          then have l: "outcome (pump (with_more d c)) = None" using nx(2) by (simp add: pump_err)
          have "closed d2" "pending d2 = None" using True d2 cm by auto
          then have "pump d2 = ([], Sentinel ErrClosed, d2)" by (intro pump_err) (simp add: Next_def)
          with True p \<open>closed d2\<close> \<open>pending d2 = None\<close> l show ?thesis
            by (simp add: then_feed_def feed_closed)
        next
          case False
          then have ok': "nextRecord (with_more d0 c) = (Inr r, with_more d1 c)"
            using nextRecord_ok(4) [OF ok, of c] by blast
          note cm' = Commit_framed [OF ok']
          show ?thesis
          proof (cases "ClosesArray r")
            case True
            with cm d2 have d2': "closed d2" "pending d2 = None" by auto
            have pd2: "pump d2 = ([], Sentinel ErrClosed, d2)" using d2' by (intro pump_err) (simp add: Next_def)
            obtain d2c where d2c: "Commit (with_more d1 c) r = (None, d2c)" using cm' by blast
            have "d2c = d2\<lparr>committed := committed d2 + length c\<rparr>"
              using True cm cm' d2 d2c by (auto simp: with_more_def)
            then have "pump d2c = ([], Sentinel ErrClosed, d2\<lparr>committed := committed d2 + length c\<rparr>)"
              using d2' by (intro pump_err [THEN trans]) (auto simp: Next_def)
            with True False p pd2 d2' nx(2) ok' d2c show ?thesis
              by (simp add: pump_record then_feed_def feed_closed)
          next
            case open_record: False
            have le: "EndOffset r - committed d0 \<le> length (buffer d0)"
              using nextRecord_ok(2) [OF ok] by (auto simp: frames_record_def Let_def)
            have d2': "pending d2 = None" "\<not> closed d2" using cm d2 open_record by auto
            have "Commit (with_more d1 c) r = (None, with_more d2 c)"
              using cm cm' d2 open_record le by (simp add: with_more_def)
            then have l: "pump (with_more d c) = (case pump (with_more d2 c) of (rs, e, d3) \<Rightarrow> (r # rs, e, d3))"
              using nx(2) ok' by (simp add: pump_record)
            have "Next d = (Inr r, d1)" using nx(1) ok by simp
            from "1.IH" [OF this [symmetric] refl d2 [symmetric] refl d2']
            show ?thesis unfolding l p outcome_Cons then_feed_Cons by simp
          qed
        qed
      qed
    qed
  qed
qed

text \<open>Nothing is pending when the loop stops to wait, and a closed decoder holds no bytes.\<close>

lemma pump_quiescent:
  assumes "pending d = None" "closed d \<longrightarrow> buffer d = []" "pump d = (rs, e, d')" "halts_ok e"
  shows "quiescent d'"
  using assms
proof (induction d arbitrary: rs rule: pump.induct)
  case (1 d)
  show ?case
  proof (cases "closed d")
    case True
    with "1.prems" show ?thesis by (simp add: Next_def pump_err quiescent_def)
  next
    case False
    from "1.prems"(1) False show ?thesis
    proof (cases d rule: Next_cases)
      case (blocked e0)
      with "1.prems" False show ?thesis by (simp add: pump_err quiescent_def)
    next
      case (framing d0)
      show ?thesis
      proof (cases "nextRecord d0")
        case (Pair res d1)
        show ?thesis
        proof (cases res)
          case (Inl e0)
          with Pair framing(1) "1.prems"(3) have e0: "e0 = e" "d1 = d'" by (auto simp: pump_err)
          with "1.prems"(4) consider "e0 = Sentinel ErrNeedMore" | "e0 = Sentinel ErrClosed"
            by (auto simp: halts_ok_def)
          then show ?thesis
          proof cases
            case 1
            with Pair Inl e0 framing show ?thesis
              by (auto simp: quiescent_def dest: nextRecord_needmore)
          next
            case 2
            with Pair Inl e0 framing nextRecord_closed(1) [of d0 d1] show ?thesis
              by (auto simp: quiescent_def)
          qed
        next
          case (Inr r)
          note ok = Pair [unfolded Inr]
          obtain d2 where d2: "Commit d1 r = (None, d2)"
            "pending d2 = None" "closed d2 \<longrightarrow> buffer d2 = []"
            using Commit_framed [OF ok] by (cases "ClosesArray r") auto
          have nx: "Next d = (Inr r, d1)" using framing(1) ok by simp
          obtain rs' where "pump d2 = (rs', e, d')"
            using "1.prems"(3) pump_record [OF nx d2(1)] by (auto split: prod.splits)
          from "1.IH" [OF nx [symmetric] refl d2(1) [symmetric] refl d2(2,3) this "1.prems"(4)]
          show ?thesis .
        qed
      qed
    qed
  qed
qed

lemma feed_chunk_quiescent:
  assumes "quiescent d" "feed_chunk d c = (rs, e, d')" "halts_ok e"
  shows "quiescent d'"
proof (cases "closed d")
  case True
  with assms show ?thesis by (auto simp: quiescent_def feed_closed split: if_splits)
next
  case False
  with assms have "pump (with_more d c) = (rs, e, d')" by (simp add: quiescent_def feed_open)
  with False assms show ?thesis
    by (intro pump_quiescent [of "with_more d c"]) (auto simp: quiescent_def)
qed

lemma feed_chunk_append:
  assumes "quiescent d"
  shows "outcome (feed_chunk d (c1 @ c2)) = then_feed (feed_chunk d c1) c2"
proof (cases "closed d")
  case True
  with assms show ?thesis
    by (auto simp: quiescent_def feed_closed then_feed_def ac_simps)
next
  case False
  have eq: "with_more d (c1 @ c2) = with_more (with_more d c1) c2" by (simp add: with_more_def)
  from False assms pump_with_more [of "with_more d c1" c2] show ?thesis
    by (simp add: quiescent_def feed_open eq)
qed

text \<open>A whole sequence of reads, stopping at the first rejected one.\<close>

fun feed_all :: "decoder \<Rightarrow> bytes list \<Rightarrow> (source_record list \<times> error \<times> decoder) option" where
  "feed_all d [] = Some ([], Sentinel ErrNeedMore, d)"
| "feed_all d [c] = outcome (feed_chunk d c)"
| "feed_all d (c # cs) =
     (case outcome (feed_chunk d c) of
        None \<Rightarrow> None
      | Some (rs, e, d1) \<Rightarrow> map_option (\<lambda>(rs', e', d'). (rs @ rs', e', d')) (feed_all d1 cs))"

lemma feed_all_concat:
  assumes "quiescent d" "cs \<noteq> []"
  shows "feed_all d cs = outcome (feed_chunk d (concat cs))"
  using assms
proof (induction d cs rule: feed_all.induct)
  case (3 d c c' cs)
  have eq: "outcome (feed_chunk d (concat (c # c' # cs))) = then_feed (feed_chunk d c) (concat (c' # cs))"
    using feed_chunk_append [OF "3.prems"(1), of c "concat (c' # cs)"] by simp
  obtain rs e d1 where out: "feed_chunk d c = (rs, e, d1)" by (cases "feed_chunk d c") auto
  show ?case
  proof (cases "halts_ok e")
    case True
    with out have ih: "feed_all d1 (c' # cs) = outcome (feed_chunk d1 (concat (c' # cs)))"
      by (intro "3.IH" [of "(rs, e, d1)" rs "(e, d1)" e d1])
        (auto intro: feed_chunk_quiescent [OF "3.prems"(1)])
    show ?thesis
      unfolding eq using True out ih
      by (cases "outcome (feed_chunk d1 (concat (c' # cs)))") (auto simp: then_feed_def)
  next
    case False
    with out eq show ?thesis by (simp add: then_feed_def)
  qed
qed auto

lemma NewDecoder_quiescent: "NewDecoder m = Inr d \<Longrightarrow> quiescent d"
  by (auto simp: NewDecoder_def quiescent_def split: if_splits)

end
