(* ===== verification/Framer.thy ===== *)
theory Framer
  imports Decoder_Chunks
begin

text \<open>
  The contract between the framing decoder and its consumer (\<open>reader_linux.go\<close>): a decoder
  tracks the bytes read so far of one generation, hands out records that are slices of those
  bytes, and moves its committed offset past a record only when the record is committed.  The
  locale \<open>stream_framer\<close> states it; its client lemmas cover any interleaving of reads, failed
  attempts and commits.  The interpretation \<open>decoder\<close> discharges it for the code's model.
\<close>

section \<open>The contract\<close>

locale stream_framer =
  fixes tracks :: "'d \<Rightarrow> bytes \<Rightarrow> bool"
    and read_offset :: "'d \<Rightarrow> nat"
    and committed_offset :: "'d \<Rightarrow> nat"
    and append :: "'d \<Rightarrow> nat \<Rightarrow> bytes \<Rightarrow> error option \<times> 'd"
    and nxt :: "'d \<Rightarrow> (error + 'r) \<times> 'd"
    and commit :: "'d \<Rightarrow> 'r \<Rightarrow> error option \<times> 'd"
    and first :: "'r \<Rightarrow> nat"
    and last_end :: "'r \<Rightarrow> nat"
    and payload :: "'r \<Rightarrow> bytes"
  assumes tracks_offset: "tracks d s \<Longrightarrow> read_offset d = length s"
    and tracks_committed: "tracks d s \<Longrightarrow> committed_offset d \<le> length s"
    and append_tracks: "tracks d s \<Longrightarrow> append d (read_offset d) bs = (None, d') \<Longrightarrow>
          tracks d' (s @ bs) \<and> committed_offset d \<le> committed_offset d'"
    and append_refused: "append d n bs = (Some e, d') \<Longrightarrow> d' = d"
    and nxt_tracks: "tracks d s \<Longrightarrow> nxt d = (res, d') \<Longrightarrow>
          tracks d' s \<and> committed_offset d \<le> committed_offset d'"
    and nxt_stable: "tracks d s \<Longrightarrow> nxt d = (Inr r, d') \<Longrightarrow> nxt d' = (Inr r, d')"
    and nxt_slice: "tracks d s \<Longrightarrow> nxt d = (Inr r, d') \<Longrightarrow>
          committed_offset d' \<le> first r \<and> first r + length (payload r) < last_end r
          \<and> last_end r \<le> length s \<and> take (length (payload r)) (drop (first r) s) = payload r"
    and commit_accepts: "tracks d s \<Longrightarrow> nxt d = (Inr r, d') \<Longrightarrow>
          \<exists>d''. commit d' r = (None, d'') \<and> tracks d'' s \<and> last_end r \<le> committed_offset d''"
begin

text \<open>
  A consumer's history: reads that succeed or are refused, calls of \<open>nxt\<close> that fail or whose
  record is not committed, and records that are committed.
\<close>

inductive consumes :: "'d \<Rightarrow> bytes \<Rightarrow> 'r list \<Rightarrow> 'd \<Rightarrow> bytes \<Rightarrow> bool" for d s where
  start: "consumes d s [] d s"
| read: "consumes d s rs d1 s1 \<Longrightarrow> append d1 (read_offset d1) bs = (None, d2) \<Longrightarrow>
     consumes d s rs d2 (s1 @ bs)"
| refused: "consumes d s rs d1 s1 \<Longrightarrow> append d1 (read_offset d1) bs = (Some e, d2) \<Longrightarrow>
     consumes d s rs d2 s1"
| peek: "consumes d s rs d1 s1 \<Longrightarrow> nxt d1 = (res, d2) \<Longrightarrow> consumes d s rs d2 s1"
| deliver: "consumes d s rs d1 s1 \<Longrightarrow> nxt d1 = (Inr r, d2) \<Longrightarrow> commit d2 r = (None, d3) \<Longrightarrow>
     consumes d s (rs @ [r]) d3 s1"

definition located :: "bytes \<Rightarrow> 'r \<Rightarrow> bool" where
  "located s r \<longleftrightarrow> first r + length (payload r) < last_end r \<and> last_end r \<le> length s
     \<and> take (length (payload r)) (drop (first r) s) = payload r"

lemma located_append: "located s r \<Longrightarrow> located (s @ bs) r"
  by (auto simp: located_def)

lemma consumes_tracks:
  assumes "tracks d s" "consumes d s rs d' s'"
  shows "tracks d' s' \<and> committed_offset d \<le> committed_offset d' \<and> (\<exists>bs. s' = s @ bs)"
  using assms(2)
proof (induction rule: consumes.induct)
  case start
  show ?case using assms(1) by simp
next
  case (read rs d1 s1 bs d2)
  then show ?case using append_tracks [of d1 s1 bs d2] by fastforce
next
  case (refused rs d1 s1 bs e d2)
  then show ?case using append_refused by metis
next
  case (peek rs d1 s1 res d2)
  then show ?case using nxt_tracks [of d1 s1 res d2] by fastforce
next
  case (deliver rs d1 s1 r d2 d3)
  then obtain d'' where "commit d2 r = (None, d'')" "tracks d'' s1" "last_end r \<le> committed_offset d''"
    using commit_accepts by blast
  moreover have "committed_offset d1 \<le> committed_offset d2" "committed_offset d2 \<le> first r"
    "first r \<le> last_end r"
    using deliver nxt_tracks [of d1 s1] nxt_slice [of d1 s1 r d2] by auto
  ultimately show ?case using deliver by auto
qed

text \<open>
  Every byte belongs to at most one delivered record, the records come in stream order, and the
  committed offset has passed all of them and nothing that was not delivered.
\<close>

lemma consumes_ordered:
  assumes "tracks d s" "consumes d s rs d' s'"
  shows "sorted_wrt (\<lambda>a b. last_end a \<le> first b) rs
    \<and> (\<forall>r \<in> set rs. located s' r \<and> committed_offset d \<le> first r \<and> last_end r \<le> committed_offset d')"
  using assms(2)
proof (induction rule: consumes.induct)
  case start
  show ?case by simp
next
  case (read rs d1 s1 bs d2)
  from consumes_tracks [OF assms(1) read(1)] append_tracks read(2)
  have "committed_offset d1 \<le> committed_offset d2" by blast
  with read.IH show ?case by (fastforce intro: located_append)
next
  case (refused rs d1 s1 bs e d2)
  then show ?case using append_refused by metis
next
  case (peek rs d1 s1 res d2)
  from consumes_tracks [OF assms(1) peek(1)] nxt_tracks peek(2)
  have "committed_offset d1 \<le> committed_offset d2" by blast
  with peek.IH show ?case by fastforce
next
  case (deliver rs d1 s1 r d2 d3)
  from consumes_tracks [OF assms(1) deliver(1)] have t: "tracks d1 s1"
    and b: "committed_offset d \<le> committed_offset d1" by auto
  note sl = nxt_slice [OF t deliver(2)] and nt = nxt_tracks [OF t deliver(2)]
  from commit_accepts [OF t deliver(2)] deliver(3) have "last_end r \<le> committed_offset d3" by auto
  with deliver.IH sl nt b show ?case
    by (fastforce simp: sorted_wrt_append located_def)
qed

end

section \<open>The decoder keeps the contract\<close>

definition decoder_inv :: "decoder \<Rightarrow> bool" where
  "decoder_inv d \<longleftrightarrow>
     (closed d \<longrightarrow> opened d \<and> buffer d = [])
   \<and> (case pending d of
        None \<Rightarrow> True
      | Some r \<Rightarrow> opened d \<and> \<not> closed d \<and> frames_record d r \<and> token r = nextToken d)"

definition decoder_tracks :: "decoder \<Rightarrow> bytes \<Rightarrow> bool" where
  "decoder_tracks d s \<longleftrightarrow> decoder_inv d \<and> committed d \<le> length s \<and> buffer d = drop (committed d) s"

lemma NewDecoder_tracks: "NewDecoder m = Inr d \<Longrightarrow> decoder_tracks d []"
  by (auto simp: NewDecoder_def decoder_tracks_def decoder_inv_def split: if_splits)

lemma frames_record_append:
  assumes "frames_record d r" "ClosesArray r \<longrightarrow> isWhitespace bs"
  shows "frames_record (with_more d bs) r"
proof -
  let ?e = "EndOffset r - committed d - 1" and ?s = "StartOffset r - committed d"
  have l: "?s + length (Raw r) \<le> ?e" "?e < length (buffer d)" using assms(1) by (auto simp: frames_record_def Let_def)
  have "(buffer d @ bs) ! ?e = buffer d ! ?e" using l(2) by (rule nth_append_less)
  moreover have "drop (?e + 1) (buffer d @ bs) = drop (?e + 1) (buffer d) @ bs" using l(2) by simp
  ultimately show ?thesis
    using assms l unfolding frames_record_def Let_def by auto
qed

lemma decoder_append_ok:
  assumes "decoder_append d (ReadOffset d) bs = (None, d')"
  shows "if closed d then d' = d\<lparr>committed := committed d + length bs\<rparr>
         else d' = with_more d bs \<and> (\<forall>r. pending d = Some r \<longrightarrow> ClosesArray r \<longrightarrow> isWhitespace bs)"
  using assms by (cases "pending d") (auto simp: decoder_append_def with_more_def split: if_splits)

lemma append_inv:
  assumes "decoder_inv d" "decoder_append d (ReadOffset d) bs = (None, d')"
  shows "decoder_inv d'"
proof (cases "closed d")
  case True
  with assms(1) decoder_append_ok [OF assms(2)] show ?thesis
    by (auto simp: decoder_inv_def split: option.splits)
next
  case False
  with decoder_append_ok [OF assms(2)] have d': "d' = with_more d bs"
    and ws: "\<And>r. pending d = Some r \<Longrightarrow> ClosesArray r \<Longrightarrow> isWhitespace bs" by auto
  from False assms(1) ws frames_record_append show ?thesis
    unfolding d' decoder_inv_def by (auto split: option.splits)
qed

lemma frames_record_cong:
  "committed d' = committed d \<Longrightarrow> buffer d' = buffer d \<Longrightarrow> maxRecordBytes d' = maxRecordBytes d \<Longrightarrow>
     frames_record d' r = frames_record d r"
  by (simp add: frames_record_def)

lemma nextRecord_inv:
  assumes "pending d = None" "\<not> closed d" "opened d" "nextRecord d = (res, d')"
  shows "decoder_inv d'"
proof (cases res)
  case (Inr r)
  note ok = nextRecord_ok(1-3) [OF assms(4) [unfolded Inr]]
  have "frames_record d' r" by (rule frames_record_cong [of d' d, THEN iffD2]) (use ok(1,2) in simp_all)
  with assms ok(1,3) show ?thesis by (simp add: decoder_inv_def)
next
  case (Inl e)
  show ?thesis
  proof (cases "e = Sentinel ErrClosed")
    case True
    with assms nextRecord_closed(1) [of d d'] Inl show ?thesis by (simp add: decoder_inv_def)
  next
    case False
    with nextRecord_err_state Inl assms have "d' = d" by blast
    with assms show ?thesis by (simp add: decoder_inv_def)
  qed
qed

lemma nextRecord_frame:
  assumes "nextRecord d = (res, d')" "buffer d = drop (committed d) s" "committed d \<le> length s"
  shows "buffer d' = drop (committed d') s \<and> committed d \<le> committed d' \<and> committed d' \<le> length s"
  using assms
  by (auto simp: nextRecord_def Let_def consumeStructuralBytes_def split: if_splits sum.splits)

lemma consumeOpeningBracket_frame:
  assumes "consumeOpeningBracket d = (eo, d')" "buffer d = drop (committed d) s" "committed d \<le> length s"
  shows "buffer d' = drop (committed d') s \<and> committed d \<le> committed d' \<and> committed d' \<le> length s"
proof -
  have "skipWhitespaceFrom (buffer d) 0 \<le> length (buffer d)" using skipWhitespaceFrom_bounds [of 0] by simp
  with assms show ?thesis
    by (auto simp: consumeOpeningBracket_def Let_def consumeStructuralBytes_def add.commute
        split: if_splits)
qed

lemma consumeOpeningBracket_fields:
  "consumeOpeningBracket d = (None, d') \<Longrightarrow> pending d' = pending d \<and> closed d' = closed d \<and> opened d'"
  by (auto simp: consumeOpeningBracket_def Let_def consumeStructuralBytes_def split: if_splits)

lemma Next_tracks:
  assumes "decoder_tracks d s" "Next d = (res, d')"
  shows "decoder_tracks d' s \<and> committed d \<le> committed d'"
proof (cases "pending d = None \<and> \<not> closed d")
  case False
  with assms have "d' = d" by (auto simp: Next_def split: option.splits)
  with assms show ?thesis by simp
next
  case True
  from assms(1) have fr: "buffer d = drop (committed d) s" "committed d \<le> length s" "decoder_inv d"
    by (auto simp: decoder_tracks_def)
  show ?thesis
  proof (cases "opened d")
    case op: True
    with True assms(2) have "nextRecord d = (res, d')" by (simp add: Next_def)
    with True op nextRecord_inv nextRecord_frame [OF _ fr(1,2)] show ?thesis
      by (fastforce simp: decoder_tracks_def)
  next
    case False
    obtain eo d0 where cb: "consumeOpeningBracket d = (eo, d0)" by fastforce
    note fr0 = consumeOpeningBracket_frame [OF cb fr(1,2)]
    show ?thesis
    proof (cases eo)
      case None
      with cb consumeOpeningBracket_fields True have d0: "pending d0 = None" "\<not> closed d0" "opened d0" by auto
      from None cb True False assms(2) have "nextRecord d0 = (res, d')" by (simp add: Next_def)
      with d0 nextRecord_inv nextRecord_frame [OF _ conjunct1 [OF fr0]] fr0 show ?thesis
        by (fastforce simp: decoder_tracks_def)
    next
      case (Some e)
      with cb True False assms(2) have "d' = d"
        by (auto simp: Next_def consumeOpeningBracket_def Let_def split: if_splits)
      with assms(1) show ?thesis by simp
    qed
  qed
qed

lemma Next_pending:
  assumes "Next d = (Inr r, d')"
  shows "pending d' = Some r"
  using assms nextRecord_ok(1)
  by (fastforce simp: Next_def split: option.splits if_splits prod.splits)

lemma Next_record:
  assumes "decoder_tracks d s" "Next d = (Inr r, d')"
  shows "frames_record d' r" "token r = nextToken d'" "pending d' = Some r"
  using Next_tracks [OF assms] Next_pending [OF assms(2)]
  by (auto simp: decoder_tracks_def decoder_inv_def)

text \<open>The pending record's offsets lie inside the buffered bytes, so the slicing in \<open>Commit\<close> is in range.\<close>

lemma Commit_tracks:
  assumes "decoder_tracks d s" "pending d = Some r"
  shows "\<exists>d'. Commit d r = (None, d') \<and> decoder_tracks d' s \<and> EndOffset r \<le> committed d'
    \<and> (if ClosesArray r then closed d' \<and> committed d' = length s else \<not> closed d' \<and> committed d' = EndOffset r)"
proof -
  have fr: "frames_record d r" "opened d" using assms by (auto simp: decoder_tracks_def decoder_inv_def)
  then have "committed d < EndOffset r" "EndOffset r \<le> committed d + length (buffer d)"
    by (auto simp: frames_record_def Let_def)
  with assms fr show ?thesis
    by (auto simp: Commit_def Let_def consumeStructuralBytes_def decoder_tracks_def decoder_inv_def)
qed

interpretation decoder: stream_framer decoder_tracks ReadOffset CommittedOffset decoder_append
  Next Commit StartOffset EndOffset Raw
proof (unfold_locales, goal_cases)
  case (1 d s)
  then show ?case by (simp add: decoder_tracks_def ReadOffset_def)
next
  case (2 d s)
  then show ?case by (simp add: decoder_tracks_def CommittedOffset_def)
next
  case (3 d s bs d')
  then have inv: "decoder_inv d" by (simp add: decoder_tracks_def)
  note ap = append_inv [OF inv 3(2)]
  show ?case
  proof (cases "closed d")
    case True
    with decoder_append_ok [OF 3(2)] have "d' = d\<lparr>committed := committed d + length bs\<rparr>" by simp
    with True 3(1) ap show ?thesis by (auto simp: decoder_tracks_def CommittedOffset_def decoder_inv_def)
  next
    case False
    with decoder_append_ok [OF 3(2)] have "d' = with_more d bs" by simp
    with 3(1) ap show ?thesis by (auto simp: decoder_tracks_def CommittedOffset_def)
  qed
next
  case (4 d n bs e d')
  then show ?case by (auto simp: decoder_append_def split: if_splits)
next
  case (5 d s res d')
  then show ?case using Next_tracks by (simp add: CommittedOffset_def)
next
  case (6 d s r d')
  then show ?case using Next_pending [of d r d'] by (simp add: Next_def)
next
  case (7 d s r d')
  have t: "decoder_tracks d' s" using Next_tracks [OF 7] by simp
  from Next_record(1) [OF 7] t show ?case
    by (auto simp: frames_record_def decoder_tracks_def Let_def CommittedOffset_def)
next
  case (8 d s r d')
  have "decoder_tracks d' s" using Next_tracks [OF 8] by simp
  from Commit_tracks [OF this Next_record(3) [OF 8]] show ?case by (auto simp: CommittedOffset_def)
qed

end
