(* ===== verification/Decoder_Lossless.thy ===== *)
theory Decoder_Lossless
  imports Framer
begin

text \<open>
  Accounting for every byte behind the decoder's committed offset: the opening bracket, one
  segment per delivered record (white space, the record, white space, its delimiter), and white
  space after the closing bracket.  Nothing is skipped and nothing is delivered twice.
\<close>

definition segment :: "source_record \<Rightarrow> bytes \<Rightarrow> bool" where
  "segment r seg \<longleftrightarrow>
     (\<exists>a b. seg = a @ Raw r @ b @ [if ClosesArray r then CHR '']'' else CHR '','']
        \<and> isWhitespace a \<and> isWhitespace b)"

text \<open>What may follow the last segment: only the end of the array.\<close>

definition tail_ok :: "bool \<Rightarrow> source_record list \<Rightarrow> bytes \<Rightarrow> bool" where
  "tail_ok is_closed rs post \<longleftrightarrow>
     (if is_closed
      then (if rs = [] then \<exists>a b. post = a @ '']'' @ b \<and> isWhitespace a \<and> isWhitespace b
            else isWhitespace post \<and> ClosesArray (last rs))
      else post = [] \<and> (rs \<noteq> [] \<longrightarrow> \<not> ClosesArray (last rs)))"

definition report_prefix :: "bytes \<Rightarrow> source_record list \<Rightarrow> bool \<Rightarrow> bool" where
  "report_prefix p rs is_closed \<longleftrightarrow>
     (\<exists>pre segs post. p = pre @ ''['' @ concat segs @ post \<and> isWhitespace pre
        \<and> list_all2 segment rs segs \<and> tail_ok is_closed rs post
        \<and> (\<forall>r \<in> set (butlast rs). \<not> ClosesArray r))"

definition accounts :: "decoder \<Rightarrow> bytes \<Rightarrow> source_record list \<Rightarrow> bool" where
  "accounts d s rs \<longleftrightarrow> decoder_tracks d s \<and> recordsSeen d = (rs \<noteq> [])
     \<and> (if opened d then report_prefix (take (committed d) s) rs (closed d)
        else committed d = 0 \<and> rs = [])"

lemma accounts_new: "NewDecoder m = Inr d \<Longrightarrow> accounts d [] []"
  using NewDecoder_tracks [of m d] by (auto simp: NewDecoder_def accounts_def split: if_splits)

lemma isWhitespace_Nil [simp]: "isWhitespace []"
  by (simp add: isWhitespace_iff)

lemma tail_ok_more: "tail_ok True rs post \<Longrightarrow> isWhitespace bs \<Longrightarrow> tail_ok True rs (post @ bs)"
  by (fastforce simp: tail_ok_def split: if_splits)

lemma report_prefix_more:
  assumes "report_prefix p rs True" "isWhitespace bs"
  shows "report_prefix (p @ bs) rs True"
proof -
  from assms(1) obtain pre segs post where "p = pre @ ''['' @ concat segs @ post" "isWhitespace pre"
    "list_all2 segment rs segs" "tail_ok True rs post" "\<forall>r \<in> set (butlast rs). \<not> ClosesArray r"
    unfolding report_prefix_def by blast
  moreover have "tail_ok True rs (post @ bs)" using calculation(4) assms(2) by (rule tail_ok_more)
  ultimately show ?thesis
    unfolding report_prefix_def by (intro exI [of _ pre] exI [of _ segs] exI [of _ "post @ bs"]) simp
qed

lemma append_accounts:
  assumes "accounts d s rs" "decoder_append d (ReadOffset d) bs = (None, d')"
  shows "accounts d' (s @ bs) rs"
proof -
  have t: "decoder_tracks d s" "decoder_inv d" "committed d \<le> length s"
    using assms(1) by (auto simp: accounts_def decoder_tracks_def)
  have t': "decoder_tracks d' (s @ bs)" using decoder.append_tracks [OF t(1) assms(2)] by simp
  show ?thesis
  proof (cases "closed d")
    case True
    with decoder_append_ok [OF assms(2)] have d': "d' = d\<lparr>committed := committed d + length bs\<rparr>" by simp
    have ws: "isWhitespace bs" using assms(2) True by (auto simp: decoder_append_def split: if_splits)
    have "committed d = length s" using True t by (auto simp: decoder_inv_def decoder_tracks_def)
    moreover have "opened d" using True t by (simp add: decoder_inv_def)
    ultimately show ?thesis
      using assms(1) t' d' ws True report_prefix_more [of s rs bs] by (simp add: accounts_def)
  next
    case False
    with decoder_append_ok [OF assms(2)] have "d' = with_more d bs" by simp
    with assms(1) t(3) t' show ?thesis by (simp add: accounts_def)
  qed
qed

lemma take_committed_add:
  assumes "decoder_tracks d s" "n \<le> length (buffer d)"
  shows "take (committed d + n) s = take (committed d) s @ take n (buffer d)"
  using assms by (simp add: decoder_tracks_def take_add)

lemma skipped_is_space:
  "skipWhitespaceFrom bs 0 \<le> length bs \<Longrightarrow> isWhitespace (take (skipWhitespaceFrom bs 0) bs)"
  using skipWhitespaceFrom_skipped [of bs 0] by (simp add: isWhitespace_iff)

lemma bracket_accounts:
  assumes "accounts d s rs" "\<not> opened d" "consumeOpeningBracket d = (None, d')" "decoder_tracks d' s"
  shows "accounts d' s rs"
proof -
  let ?w = "skipWhitespaceFrom (buffer d) 0"
  have w: "?w \<noteq> length (buffer d)" "buffer d ! ?w = CHR ''[''" and rs: "rs = []" "committed d = 0"
    and d': "d' = (consumeStructuralBytes d (?w + 1))\<lparr>opened := True\<rparr>"
    and t: "decoder_tracks d s" and cl: "\<not> closed d" "\<not> recordsSeen d"
    using assms by (auto simp: consumeOpeningBracket_def Let_def accounts_def decoder_tracks_def
        decoder_inv_def split: if_splits)
  note sm = skipWhitespaceFrom_more(1) [of 0 "buffer d", OF _ w(1), simplified]
  have "take (?w + 1) s = take ?w (buffer d) @ ''[''"
    using take_committed_add [OF t, of "?w + 1"] rs sm w(2) by (simp add: take_Suc_conv_app_nth)
  then have "report_prefix (take (?w + 1) s) [] False"
    using skipped_is_space [of "buffer d"] sm
    unfolding report_prefix_def
    by (intro exI [of _ "take ?w (buffer d)"] exI [of _ "[]"]) (auto simp: tail_ok_def)
  with assms(4) d' rs cl show ?thesis by (simp add: accounts_def consumeStructuralBytes_def)
qed

lemma closed_accounts:
  assumes "accounts d s rs" "opened d" "\<not> closed d" "nextRecord d = (Inl (Sentinel ErrClosed), d')"
    "decoder_tracks d' s"
  shows "accounts d' s rs"
proof -
  let ?b = "buffer d" and ?w = "skipWhitespaceFrom (buffer d) 0"
  have w: "?w \<noteq> length ?b" "?b ! ?w = CHR '']''" "\<not> recordsSeen d" "isWhitespace (drop (?w + 1) ?b)"
    using assms(4) decodeObject_not_closed [of d ?w]
    by (auto simp: nextRecord_def Let_def invalid_framing_def split: if_splits sum.splits)
  note sm = skipWhitespaceFrom_more(1) [of 0 "buffer d", OF _ w(1), simplified]
  note d' = nextRecord_closed(1) [OF assms(4)]
  have t: "decoder_tracks d s" and rs: "rs = []" and p: "report_prefix (take (committed d) s) [] False"
    using assms(1-3) w(3) by (auto simp: accounts_def)
  from p obtain pre where pre: "take (committed d) s = pre @ ''[''" "isWhitespace pre"
    by (auto simp: report_prefix_def tail_ok_def)
  have b: "?b = take ?w ?b @ '']'' @ drop (?w + 1) ?b"
    using sm w(2) id_take_nth_drop [OF sm] by simp
  have "take (committed d + length ?b) s = pre @ ''['' @ concat [] @ (take ?w ?b @ '']'' @ drop (?w + 1) ?b)"
    using take_committed_add [OF t, of "length ?b"] pre(1) b by simp
  moreover have "tail_ok True [] (take ?w ?b @ '']'' @ drop (?w + 1) ?b)"
    using w(4) skipped_is_space [of ?b] sm by (auto simp: tail_ok_def)
  ultimately have "report_prefix (take (committed d + length ?b) s) [] True"
    unfolding report_prefix_def using pre(2)
    by (intro exI [of _ pre] exI [of _ "[]"] exI [of _ "take ?w ?b @ '']'' @ drop (?w + 1) ?b"]) auto
  with assms(2,5) d' rs w(3) show ?thesis by (simp add: accounts_def)
qed

lemma nextRecord_accounts:
  assumes "accounts d s rs" "opened d" "\<not> closed d" "nextRecord d = (res, d')" "decoder_tracks d' s"
  shows "accounts d' s rs"
proof (cases res)
  case (Inr r)
  with assms nextRecord_ok(1) [of d r d'] show ?thesis by (simp add: accounts_def)
next
  case (Inl e)
  show ?thesis
  proof (cases "e = Sentinel ErrClosed")
    case True
    with Inl assms show ?thesis by (intro closed_accounts [OF assms(1-3)]) auto
  next
    case False
    with Inl assms nextRecord_err_state [of d e d'] show ?thesis by simp
  qed
qed

lemma Next_accounts:
  assumes "accounts d s rs" "Next d = (res, d')"
  shows "accounts d' s rs"
proof (cases "pending d = None \<and> \<not> closed d")
  case False
  with assms show ?thesis by (auto simp: Next_def split: option.splits)
next
  case True
  have t: "decoder_tracks d s" using assms(1) by (simp add: accounts_def)
  have t': "decoder_tracks d' s" using Next_tracks [OF t assms(2)] by simp
  show ?thesis
  proof (cases "opened d")
    case op: True
    with True assms(2) have "nextRecord d = (res, d')" by (simp add: Next_def)
    with nextRecord_accounts [OF assms(1) op] True t' show ?thesis by blast
  next
    case False
    obtain eo d0 where cb: "consumeOpeningBracket d = (eo, d0)" by fastforce
    show ?thesis
    proof (cases eo)
      case None
      note cb' = cb [unfolded None]
      have d0: "opened d0" "\<not> closed d0" "pending d0 = None"
        using consumeOpeningBracket_fields [OF cb'] True by auto
      have "buffer d0 = drop (committed d0) s \<and> committed d0 \<le> length s"
        using consumeOpeningBracket_frame [OF cb'] t by (simp add: decoder_tracks_def)
      with d0 have "decoder_tracks d0 s" by (simp add: decoder_tracks_def decoder_inv_def)
      from bracket_accounts [OF assms(1) False cb' this] have "accounts d0 s rs" .
      moreover have "nextRecord d0 = (res, d')" using assms(2) True False cb' by (simp add: Next_def)
      ultimately show ?thesis using nextRecord_accounts d0 t' by blast
    next
      case (Some e)
      with cb True False assms(2) have "d' = d"
        by (auto simp: Next_def consumeOpeningBracket_def Let_def split: if_splits)
      with assms(1) show ?thesis by simp
    qed
  qed
qed

lemma frames_segment:
  assumes "frames_record d r"
  shows "segment r (take (EndOffset r - committed d) (buffer d))"
    "ClosesArray r \<Longrightarrow> isWhitespace (drop (EndOffset r - committed d) (buffer d))"
proof -
  define i where "i = StartOffset r - committed d"
  define e where "e = EndOffset r - committed d - 1"
  define n where "n = length (Raw r)"
  define b where "b = buffer d"
  have fr: "i + n \<le> e" "e < length b" "EndOffset r - committed d = e + 1"
    "list_all is_space (take i b)" "take n (drop i b) = Raw r"
    "list_all is_space (take (e - (i + n)) (drop (i + n) b))"
    "b ! e = (if ClosesArray r then CHR '']'' else CHR '','')"
    "ClosesArray r \<longrightarrow> isWhitespace (drop (e + 1) b)"
    using assms by (auto simp: frames_record_def Let_def i_def e_def n_def b_def)
  have "take (e + 1) b = take e b @ [b ! e]" using fr(2) by (simp add: take_Suc_conv_app_nth)
  also have "take e b = take i b @ take n (drop i b) @ take (e - (i + n)) (drop (i + n) b)"
    using fr(1) by (metis append.assoc le_add_diff_inverse take_add)
  finally have "take (e + 1) b = take i b @ Raw r @ take (e - (i + n)) (drop (i + n) b)
      @ [if ClosesArray r then CHR '']'' else CHR '','']" using fr(5,7) by simp
  then show "segment r (take (EndOffset r - committed d) (buffer d))"
    unfolding segment_def fr(3) b_def [symmetric] isWhitespace_iff using fr(4,6) by blast
  show "ClosesArray r \<Longrightarrow> isWhitespace (drop (EndOffset r - committed d) (buffer d))"
    using fr(3,8) by (simp add: b_def)
qed

lemma report_prefix_snoc:
  assumes "report_prefix p rs False" "segment r seg" "isWhitespace post" "\<not> ClosesArray r \<longrightarrow> post = []"
  shows "report_prefix (p @ seg @ post) (rs @ [r]) (ClosesArray r)"
proof -
  from assms(1) obtain pre segs where p: "p = pre @ ''['' @ concat segs" "isWhitespace pre"
    "list_all2 segment rs segs" "\<forall>r \<in> set (butlast rs). \<not> ClosesArray r" "rs \<noteq> [] \<longrightarrow> \<not> ClosesArray (last rs)"
    by (auto simp: report_prefix_def tail_ok_def)
  have "\<forall>r \<in> set rs. \<not> ClosesArray r"
    using p(4,5) by (cases rs rule: rev_cases) auto
  moreover have "list_all2 segment (rs @ [r]) (segs @ [seg])"
    using p(3) assms(2) by (simp add: list_all2_appendI)
  ultimately show ?thesis
    unfolding report_prefix_def using p(1,2) assms(3,4)
    by (intro exI [of _ pre] exI [of _ "segs @ [seg]"] exI [of _ post]) (simp add: tail_ok_def)
qed

lemma Commit_accounts:
  assumes "accounts d s rs" "pending d = Some r" "Commit d r = (None, d')"
  shows "accounts d' s (rs @ [r])"
proof -
  have t: "decoder_tracks d s" using assms(1) by (simp add: accounts_def)
  then have inv: "frames_record d r" "opened d" "\<not> closed d"
    using assms(2) by (auto simp: decoder_tracks_def decoder_inv_def)
  note cm = Commit_tracks [OF t assms(2)]
  have t': "decoder_tracks d' s" using cm assms(3) by auto
  let ?n = "EndOffset r - committed d"
  have n: "committed d + ?n = EndOffset r" "?n \<le> length (buffer d)"
    using inv(1) by (auto simp: frames_record_def Let_def)
  define post where "post = (if ClosesArray r then drop ?n (buffer d) else [])"
  have ws: "isWhitespace post" using frames_segment(2) [OF inv(1)] by (simp add: post_def)
  have p: "report_prefix (take (committed d) s) rs False" using assms(1) inv by (simp add: accounts_def)
  have "take (committed d') s = take (committed d) s @ take ?n (buffer d) @ post"
  proof (cases "ClosesArray r")
    case True
    with cm assms(3) have "committed d' = length s" by auto
    moreover have "s = take (committed d) s @ buffer d" using t by (simp add: decoder_tracks_def)
    ultimately show ?thesis using True by (simp add: post_def)
  next
    case False
    with cm assms(3) have "committed d' = EndOffset r" by auto
    with n take_committed_add [OF t n(2)] False show ?thesis by (simp add: post_def)
  qed
  then have "report_prefix (take (committed d') s) (rs @ [r]) (ClosesArray r)"
    using report_prefix_snoc [OF p frames_segment(1) [OF inv(1)] ws] by (simp add: post_def)
  moreover have "closed d' = ClosesArray r" "opened d'" "recordsSeen d'"
    using assms(2,3) inv by (auto simp: Commit_def Let_def consumeStructuralBytes_def split: if_splits)
  ultimately show ?thesis using t' by (simp add: accounts_def)
qed

lemma pump_accounts:
  assumes "accounts d s rs0" "pump d = (rs, e, d')"
  shows "accounts d' s (rs0 @ rs)"
  using assms
proof (induction d arbitrary: rs0 rs rule: pump.induct)
  case (1 d)
  obtain res d1 where nx: "Next d = (res, d1)" by fastforce
  note a1 = Next_accounts [OF "1.prems"(1) nx]
  show ?case
  proof (cases res)
    case (Inl e0)
    with nx "1.prems"(2) a1 show ?thesis by (auto simp: pump_err)
  next
    case (Inr r)
    note nx' = nx [unfolded Inr]
    have t: "decoder_tracks d1 s" using a1 by (simp add: accounts_def)
    from Commit_tracks [OF t Next_pending [OF nx']] obtain d2 where d2: "Commit d1 r = (None, d2)" by blast
    obtain rs' where rs': "pump d2 = (rs', e, d')" "rs = r # rs'"
      using "1.prems"(2) pump_record [OF nx' d2] by (auto split: prod.splits)
    from "1.IH" [OF nx' [symmetric] refl d2 [symmetric] refl Commit_accounts [OF a1 Next_pending [OF nx'] d2] rs'(1)]
    show ?thesis by (simp add: rs'(2))
  qed
qed

lemma feed_chunk_ok:
  assumes "outcome (feed_chunk d c) = Some (rs, e, d')"
  obtains d1 where "decoder_append d (ReadOffset d) c = (None, d1)" "pump d1 = (rs, e, d')"
proof (cases "decoder_append d (ReadOffset d) c")
  case (Pair eo d1)
  show thesis
  proof (cases eo)
    case None
    with Pair assms that show thesis by (auto simp: feed_chunk_def outcome_def split: if_splits)
  next
    case (Some e0)
    with Pair have "\<not> halts_ok e0" by (auto simp: decoder_append_def split: if_splits)
    with Pair Some assms show thesis by (simp add: feed_chunk_def)
  qed
qed

lemma feed_all_accounts:
  assumes "accounts d s rs0" "feed_all d cs = Some (rs, e, d')"
  shows "accounts d' (s @ concat cs) (rs0 @ rs)"
  using assms
proof (induction d cs arbitrary: s rs0 rs rule: feed_all.induct)
  case (1 d)
  then show ?case by simp
next
  case (2 d c)
  from 2(2) obtain d1 where "decoder_append d (ReadOffset d) c = (None, d1)" "pump d1 = (rs, e, d')"
    by (auto elim: feed_chunk_ok)
  then have "accounts d' (s @ c) (rs0 @ rs)" using append_accounts [OF 2(1)] pump_accounts by blast
  then show ?case by simp
next
  case (3 d c c' cs)
  from "3.prems"(2) obtain rs1 e1 d1 rs2 where out: "outcome (feed_chunk d c) = Some (rs1, e1, d1)"
    and rest: "feed_all d1 (c' # cs) = Some (rs2, e, d')" and rs: "rs = rs1 @ rs2"
    by (auto split: option.splits)
  from out obtain d0 where "decoder_append d (ReadOffset d) c = (None, d0)" "pump d0 = (rs1, e1, d1)"
    by (rule feed_chunk_ok)
  then have "accounts d1 (s @ c) (rs0 @ rs1)" using append_accounts [OF "3.prems"(1)] pump_accounts by blast
  from "3.IH" [OF out refl refl this rest] show ?case by (simp add: rs)
qed

end
