(* ===== verification/Decoder_Properties.thy ===== *)
theory Decoder_Properties
  imports Decoder_Lossless
begin

text \<open>
  The properties of the framing decoder (\<open>internal/source/decoder.go\<close>): reads may cut the
  stream anywhere, records are disjoint slices of it in order, and a record stays pending until
  exactly it is committed.
\<close>

text \<open>The equations that run the decoder on a closed input.\<close>

lemmas json_run =
  read_value_def new_scanner_def scan_defs is_space_def maxNestingDepth_def is_digit19_def
  is_digit_def is_hex_def byte_code_def is_control_def

lemmas decoder_run =
  NewDecoder_def feed_chunk_def decoder_append_def ReadOffset_def pump.simps Next_def
  consumeOpeningBracket_def nextRecord_def decodeObject_def Commit_def consumeStructuralBytes_def
  skipWhitespaceFrom_def isWhitespace_def isIncomplete_def invalid_framing_def Let_def

text \<open>
  C4. However the bytes of a report are cut into reads, a fresh decoder delivers the same records,
  stops for the same reason and is left in the same state as if one read had brought all of them;
  and if one way of cutting is rejected, all are.
\<close>

theorem framing_independent_of_reads:
  assumes "NewDecoder m = Inr d" and "cs \<noteq> []"
  shows "feed_all d cs = feed_all d [concat cs]"
  using feed_all_concat [OF NewDecoder_quiescent [OF assms(1)] assms(2)] by simp

theorem framing_independent_of_reads_witness:
  "\<exists>d. NewDecoder 64 = Inr d
     \<and> feed_all d [''[{'', ''},'', '' {}'', '']''] = feed_all d [''[{}, {}]'']
     \<and> map_option (map Raw \<circ> fst) (feed_all d [''[{}, {}]'']) = Some [''{}'', ''{}'']"
proof -
  obtain d where d: "NewDecoder 64 = Inr d" by (simp add: NewDecoder_def)
  have "feed_all d [''[{'', ''},'', '' {}'', '']''] = feed_all d [concat [''[{'', ''},'', '' {}'', '']'']]"
    by (rule framing_independent_of_reads [OF d]) simp
  moreover have "map_option (map Raw \<circ> fst) (feed_all d [''[{}, {}]'']) = Some [''{}'', ''{}'']"
    using d by (auto simp: decoder_run json_run outcome_def halts_ok_def)
  ultimately show ?thesis using d by auto
qed

text \<open>
  C5. The bytes behind the committed offset are exactly: white space, the opening bracket, one
  segment per delivered record (white space, the record, white space, its comma or bracket), and
  white space after a closing bracket.  So no byte of the report is skipped and none is delivered
  twice, whatever the reads were; the rest of the bytes read are still in the buffer.
\<close>

theorem framing_is_lossless:
  assumes "NewDecoder m = Inr d" and "feed_all d cs = Some (rs, e, d')"
  shows "(if opened d' then report_prefix (take (CommittedOffset d') (concat cs)) rs (Closed d')
          else CommittedOffset d' = 0 \<and> rs = [])
    \<and> ReadOffset d' = length (concat cs)"
proof -
  have a: "accounts d' (concat cs) rs"
    using feed_all_accounts [OF accounts_new [OF assms(1)] assms(2)] by simp
  moreover have "ReadOffset d' = length (concat cs)"
    using a decoder.tracks_offset [of d' "concat cs"] by (simp add: accounts_def)
  ultimately show ?thesis by (simp add: accounts_def CommittedOffset_def Closed_def)
qed

theorem framing_is_lossless_witness:
  "\<exists>d rs e d'. NewDecoder 64 = Inr d \<and> feed_all d [''[{},'', '' {'', ''}, ''] = Some (rs, e, d')
     \<and> length rs = 2 \<and> report_prefix (take 8 ''[{}, {}, '') rs False"
proof -
  obtain d where d: "NewDecoder 64 = Inr d" by (simp add: NewDecoder_def)
  have "\<exists>rs e d'. feed_all d [''[{},'', '' {'', ''}, ''] = Some (rs, e, d') \<and> length rs = 2
          \<and> committed d' = 8 \<and> opened d' \<and> \<not> closed d'"
    using d by (auto simp: decoder_run json_run outcome_def halts_ok_def)
  then obtain rs e d' where f: "feed_all d [''[{},'', '' {'', ''}, ''] = Some (rs, e, d')" "length rs = 2"
    "committed d' = 8" "opened d'" "\<not> closed d'" by blast
  with framing_is_lossless [OF d f(1)] d show ?thesis
    by (auto simp: CommittedOffset_def Closed_def)
qed

text \<open>
  C6. A record handed out stays pending: \<open>Next\<close> returns it again until it is committed, a commit
  of any record with another token or end offset is refused and changes nothing, the commit of
  the record itself is accepted, moves the committed offset to or past its end, and cannot be
  repeated.
\<close>

theorem record_pending_until_committed:
  assumes "decoder_tracks d s" and "Next d = (Inr r, d')"
  shows "Next d' = (Inr r, d')
    \<and> (\<forall>r'. token r' \<noteq> token r \<or> EndOffset r' \<noteq> EndOffset r \<longrightarrow>
           Commit d' r' = (Some (Sentinel ErrInvalidCommit), d'))
    \<and> (\<exists>d''. Commit d' r = (None, d'') \<and> EndOffset r \<le> CommittedOffset d''
           \<and> Commit d'' r = (Some (Sentinel ErrInvalidCommit), d''))"
proof (intro conjI allI impI)
  show "Next d' = (Inr r, d')" using decoder.nxt_stable [OF assms] .
  show "Commit d' r' = (Some (Sentinel ErrInvalidCommit), d')"
    if "token r' \<noteq> token r \<or> EndOffset r' \<noteq> EndOffset r" for r'
    using that Next_record(3) [OF assms] by (auto simp: Commit_def)
  from decoder.commit_accepts [OF assms] obtain d'' where
    "Commit d' r = (None, d'')" "EndOffset r \<le> CommittedOffset d''" by blast
  moreover have "pending d'' = None"
    using calculation(1) Next_record(3) [OF assms]
    by (auto simp: Commit_def Let_def consumeStructuralBytes_def split: if_splits)
  ultimately show "\<exists>d''. Commit d' r = (None, d'') \<and> EndOffset r \<le> CommittedOffset d''
           \<and> Commit d'' r = (Some (Sentinel ErrInvalidCommit), d'')"
    by (auto simp: Commit_def)
qed

theorem record_pending_until_committed_witness:
  "\<exists>d r d'. decoder_tracks d ''[{},'' \<and> Next d = (Inr r, d') \<and> Next d' = (Inr r, d')
     \<and> Commit d' (r\<lparr>token := 7\<rparr>) = (Some (Sentinel ErrInvalidCommit), d')"
proof -
  obtain d0 where d0: "NewDecoder 64 = Inr d0" by (simp add: NewDecoder_def)
  obtain d where d: "decoder_append d0 (ReadOffset d0) ''[{},'' = (None, d)"
    using d0 by (auto simp: decoder_run)
  have t: "decoder_tracks d ''[{},''"
    using decoder.append_tracks [OF NewDecoder_tracks [OF d0] d] by simp
  have "\<exists>r d'. Next d = (Inr r, d') \<and> token r = 1"
    using d0 d by (auto simp: decoder_run json_run)
  then obtain r d' where nx: "Next d = (Inr r, d')" "token r = 1" by blast
  note pend = record_pending_until_committed [OF t nx(1)]
  have "Commit d' (r\<lparr>token := 7\<rparr>) = (Some (Sentinel ErrInvalidCommit), d')"
    by (rule pend [THEN conjunct2, THEN conjunct1, rule_format]) (simp add: nx(2))
  with pend t nx(1) show ?thesis by auto
qed

text \<open>
  C7. Every record the decoder hands out is one complete JSON object: it starts with a brace, the
  scanner finds its end exactly at its last byte, it is no longer than the configured maximum and
  its fingerprint is the SHA-256 digest of its bytes.
\<close>

theorem delivered_records_are_bounded_objects:
  assumes "decoder_tracks d s" and "Next d = (Inr r, d')"
  shows "hd (Raw r) = CHR ''{'' \<and> read_value (Raw r) = ReadOk (length (Raw r))
    \<and> length (Raw r) \<le> maxRecordBytes d' \<and> Fingerprint r = sha256 (Raw r)"
  using Next_record(1) [OF assms] by (simp add: frames_record_def Let_def)

theorem delivered_records_are_bounded_objects_witness:
  "\<exists>d r d'. decoder_tracks d ''[{},'' \<and> Next d = (Inr r, d') \<and> read_value (Raw r) = ReadOk 2"
proof -
  obtain d0 where d0: "NewDecoder 64 = Inr d0" by (simp add: NewDecoder_def)
  obtain d where d: "decoder_append d0 (ReadOffset d0) ''[{},'' = (None, d)"
    using d0 by (auto simp: decoder_run)
  have t: "decoder_tracks d ''[{},''"
    using decoder.append_tracks [OF NewDecoder_tracks [OF d0] d] by simp
  have "\<exists>r d'. Next d = (Inr r, d') \<and> length (Raw r) = 2"
    using d0 d by (auto simp: decoder_run json_run)
  then obtain r d' where nx: "Next d = (Inr r, d')" "length (Raw r) = 2" by blast
  with delivered_records_are_bounded_objects [OF t nx(1)] t show ?thesis by auto
qed

end
