(* ===== verification/Go_Strings.thy ===== *)
theory Go_Strings
  imports Go_Value
begin

text \<open>
  The functions of Go's \<open>strings\<close>, \<open>bytes\<close> and \<open>strconv\<close> packages the program calls:
  trimming and splitting at white space (the Unicode \<open>White_Space\<close> runes, recognised by
  their UTF-8 bytes: no such rune's encoding can start inside the encoding of another), prefix
  and suffix tests, and decimal conversion of integers.
\<close>

section \<open>White space\<close>

definition ascii_space :: "nat \<Rightarrow> bool" where
  "ascii_space b \<longleftrightarrow> (9 \<le> b \<and> b \<le> 13) \<or> b = 32"

text \<open>The width of a white-space rune with these leading bytes, 0 if it is none.\<close>

definition space_runes2 :: "nat \<Rightarrow> nat \<Rightarrow> bool" where
  "space_runes2 a b \<longleftrightarrow> a = 0xC2 \<and> (b = 0x85 \<or> b = 0xA0)"

definition space_runes3 :: "nat \<Rightarrow> nat \<Rightarrow> nat \<Rightarrow> bool" where
  "space_runes3 a b c \<longleftrightarrow>
     (a = 0xE1 \<and> b = 0x9A \<and> c = 0x80)
   \<or> (a = 0xE2 \<and> b = 0x80 \<and> ((0x80 \<le> c \<and> c \<le> 0x8A) \<or> c = 0xA8 \<or> c = 0xA9 \<or> c = 0xAF))
   \<or> (a = 0xE2 \<and> b = 0x81 \<and> c = 0x9F)
   \<or> (a = 0xE3 \<and> b = 0x80 \<and> c = 0x80)"

definition space_width :: "bytes \<Rightarrow> nat" where
  "space_width bs =
     (case map byte_code (take 3 bs) of
        [] \<Rightarrow> 0
      | [a] \<Rightarrow> if ascii_space a then 1 else 0
      | [a, b] \<Rightarrow> if ascii_space a then 1 else if space_runes2 a b then 2 else 0
      | a # b # c # _ \<Rightarrow>
          if ascii_space a then 1 else if space_runes2 a b then 2
          else if space_runes3 a b c then 3 else 0)"

text \<open>The same at the end of the bytes, given in reverse.\<close>

definition space_width_rev :: "bytes \<Rightarrow> nat" where
  "space_width_rev sb =
     (case map byte_code (take 3 sb) of
        [] \<Rightarrow> 0
      | [a] \<Rightarrow> if ascii_space a then 1 else 0
      | [b, a] \<Rightarrow> if ascii_space b then 1 else if space_runes2 a b then 2 else 0
      | c # b # a # _ \<Rightarrow>
          if ascii_space c then 1 else if space_runes2 b c then 2
          else if space_runes3 a b c then 3 else 0)"

lemma space_width_shrinks: "0 < space_width bs \<Longrightarrow> length bs - space_width bs < length bs"
  by (cases bs) (auto simp: space_width_def)

lemma space_width_rev_shrinks: "0 < space_width_rev bs \<Longrightarrow> length bs - space_width_rev bs < length bs"
  by (cases bs) (auto simp: space_width_rev_def)

function trim_left :: "bytes \<Rightarrow> bytes" where
  "trim_left bs = (if 0 < space_width bs then trim_left (drop (space_width bs) bs) else bs)"
  by pat_completeness auto
termination
  by (relation "measure length") (auto dest: space_width_shrinks)

declare trim_left.simps [simp del]

function trim_left_rev :: "bytes \<Rightarrow> bytes" where
  "trim_left_rev sb =
     (if 0 < space_width_rev sb then trim_left_rev (drop (space_width_rev sb) sb) else sb)"
  by pat_completeness auto
termination
  by (relation "measure length") (auto dest: space_width_rev_shrinks)

declare trim_left_rev.simps [simp del]

definition TrimSpace :: "bytes \<Rightarrow> bytes" where
  "TrimSpace bs = rev (trim_left_rev (rev (trim_left bs)))"

text \<open>\<open>strings.Fields\<close>: the maximal runs without white space.\<close>

fun span_word :: "bytes \<Rightarrow> bytes \<times> bytes" where
  "span_word [] = ([], [])"
| "span_word (c # cs) =
     (if 0 < space_width (c # cs) then ([], c # cs)
      else (case span_word cs of (w, rest) \<Rightarrow> (c # w, rest)))"

lemma length_trim_left: "length (trim_left bs) \<le> length bs"
proof (induction bs rule: trim_left.induct)
  case (1 bs)
  then show ?case by (subst trim_left.simps) (auto intro: le_trans)
qed

lemma trim_left_no_space: "space_width (trim_left bs) = 0"
proof (induction bs rule: trim_left.induct)
  case (1 bs)
  then show ?case by (subst trim_left.simps) auto
qed

lemma span_word_split: "span_word bs = (w, rest) \<Longrightarrow> bs = w @ rest"
  by (induction bs arbitrary: w) (auto split: if_splits prod.splits)

function Fields :: "bytes \<Rightarrow> bytes list" where
  "Fields bs =
     (case trim_left bs of
        [] \<Rightarrow> []
      | c # cs \<Rightarrow> (case span_word (c # cs) of (w, rest) \<Rightarrow> w # Fields rest))"
  by pat_completeness auto
termination
proof (relation "measure length", goal_cases)
  case 1
  show ?case by simp
next
  case (2 bs c cs w rest)
  have "space_width (c # cs) = 0" using trim_left_no_space [of bs] 2(1) by simp
  with 2 have "w \<noteq> []" by (auto split: prod.splits)
  moreover have "c # cs = w @ rest" using 2(2) by (intro span_word_split) simp
  ultimately have "length rest < length (c # cs)" by (metis length_append length_greater_0_conv less_add_same_cancel2)
  with length_trim_left [of bs] 2(1) show ?case by simp
qed

declare Fields.simps [simp del]

section \<open>Prefixes, suffixes and searching\<close>

definition HasSuffix :: "bytes \<Rightarrow> bytes \<Rightarrow> bool" where
  "HasSuffix bs suf \<longleftrightarrow> length suf \<le> length bs \<and> drop (length bs - length suf) bs = suf"

definition TrimSuffix :: "bytes \<Rightarrow> bytes \<Rightarrow> bytes" where
  "TrimSuffix bs suf = (if HasSuffix bs suf then take (length bs - length suf) bs else bs)"

fun IndexByte :: "bytes \<Rightarrow> char \<Rightarrow> nat option" where
  "IndexByte [] c = None"
| "IndexByte (b # bs) c = (if b = c then Some 0 else map_option Suc (IndexByte bs c))"

definition LastIndexByte :: "bytes \<Rightarrow> char \<Rightarrow> nat option" where
  "LastIndexByte bs c = map_option (\<lambda>i. length bs - 1 - i) (IndexByte (rev bs) c)"

lemma IndexByte_Some: "IndexByte bs c = Some i \<Longrightarrow> i < length bs \<and> bs ! i = c"
  by (induction bs arbitrary: i) (auto split: if_splits)

lemma LastIndexByte_Some: "LastIndexByte bs c = Some i \<Longrightarrow> i < length bs \<and> bs ! i = c"
  by (auto simp: LastIndexByte_def rev_nth dest!: IndexByte_Some)

section \<open>Decimal integers\<close>

definition digit_value :: "char \<Rightarrow> nat" where
  "digit_value c = byte_code c - byte_code (CHR ''0'')"

definition digits_value :: "bytes \<Rightarrow> nat" where
  "digits_value ds = foldl (\<lambda>acc c. acc * 10 + digit_value c) 0 ds"

definition all_digits :: "bytes \<Rightarrow> bool" where
  "all_digits ds \<longleftrightarrow> ds \<noteq> [] \<and> list_all is_digit ds"

text \<open>\<open>strconv.ParseUint(s, 10, 64)\<close>: digits only, in range.\<close>

definition ParseUint64 :: "bytes \<Rightarrow> u64 option" where
  "ParseUint64 bs =
     (if all_digits bs \<and> digits_value bs < 2 ^ 64 then Some (of_nat (digits_value bs)) else None)"

text \<open>\<open>strconv.ParseInt(s, 10, 64)\<close>, and \<open>strconv.Atoi\<close> where \<open>int\<close> has 64 bits.\<close>

definition ParseInt64 :: "bytes \<Rightarrow> int option" where
  "ParseInt64 bs =
     (let neg = (bs \<noteq> [] \<and> hd bs = CHR ''-'');
          ds = (if bs \<noteq> [] \<and> (hd bs = CHR ''-'' \<or> hd bs = CHR ''+'') then tl bs else bs);
          v = digits_value ds
      in if \<not> all_digits ds then None
         else if neg then (if v \<le> 2 ^ 63 then Some (- int v) else None)
         else (if v < 2 ^ 63 then Some (int v) else None))"

fun digits_of :: "nat \<Rightarrow> bytes" where
  "digits_of n =
     (if n < 10 then [byte_of (byte_code (CHR ''0'') + n)]
      else digits_of (n div 10) @ [byte_of (byte_code (CHR ''0'') + n mod 10)])"

declare digits_of.simps [simp del]

text \<open>\<open>strconv.Itoa\<close> and \<open>FormatUint(n, 10)\<close>.\<close>

definition Itoa :: "int \<Rightarrow> bytes" where
  "Itoa i = (if i < 0 then CHR ''-'' # digits_of (nat (- i)) else digits_of (nat i))"

lemma byte_code_byte_of: "n < 256 \<Longrightarrow> byte_code (byte_of n) = n"
  by (simp add: byte_code_def byte_of_def)

lemma byte_code_zero [simp]: "byte_code (CHR ''0'') = 48" "byte_code (CHR ''1'') = 49" "byte_code (CHR ''9'') = 57"
  by (simp_all add: byte_code_def)

lemma digit_byte:
  "n < 10 \<Longrightarrow> is_digit (byte_of (48 + n)) \<and> digit_value (byte_of (48 + n)) = n"
  by (simp add: is_digit_def digit_value_def byte_code_byte_of)

lemma digits_value_snoc: "digits_value (ds @ [c]) = digits_value ds * 10 + digit_value c"
  by (simp add: digits_value_def)

lemma digits_of_value: "digits_value (digits_of n) = n \<and> all_digits (digits_of n)"
proof (induction n rule: digits_of.induct)
  case (1 n)
  show ?case
  proof (cases "n < 10")
    case True
    with digit_byte [OF True] show ?thesis
      by (subst (1 2) digits_of.simps) (simp add: digits_value_def all_digits_def)
  next
    case False
    with 1 digit_byte [of "n mod 10"] show ?thesis
      by (subst (1 2) digits_of.simps) (simp add: digits_value_snoc all_digits_def)
  qed
qed

lemma ParseUint64_digits_of: "n < 2 ^ 64 \<Longrightarrow> ParseUint64 (digits_of n) = Some (of_nat n)"
  using digits_of_value [of n] by (simp add: ParseUint64_def)

lemma digits_of_inj: "digits_of m = digits_of n \<Longrightarrow> m = n"
  using digits_of_value by metis

lemma digits_of_head: "digits_of n \<noteq> [] \<and> is_digit (hd (digits_of n))"
  using digits_of_value [of n] by (cases "digits_of n") (auto simp: all_digits_def)

lemma ParseInt64_Itoa: "- (2 ^ 63) \<le> i \<Longrightarrow> i < 2 ^ 63 \<Longrightarrow> ParseInt64 (Itoa i) = Some i"
proof (cases "i < 0")
  case True
  assume "- (2 ^ 63) \<le> i" "i < 2 ^ 63"
  with True digits_of_value [of "nat (- i)"] show ?thesis
    by (simp add: ParseInt64_def Itoa_def Let_def nat_le_iff)
next
  case False
  assume "- (2 ^ 63) \<le> i" "i < 2 ^ 63"
  moreover have "hd (digits_of (nat i)) \<noteq> CHR ''-''" "hd (digits_of (nat i)) \<noteq> CHR ''+''"
    using digits_of_head [of "nat i"] by (auto simp: is_digit_def byte_code_def)
  ultimately show ?thesis
    using False digits_of_value [of "nat i"] digits_of_head [of "nat i"]
    by (simp add: ParseInt64_def Itoa_def Let_def nat_less_iff)
qed

section \<open>Plain text\<close>

text \<open>Printable ASCII other than the space, which no trimming removes and no splitting breaks.\<close>

definition plain :: "char \<Rightarrow> bool" where
  "plain c \<longleftrightarrow> 33 \<le> byte_code c \<and> byte_code c < 128"

lemma plain_no_space: "plain c \<Longrightarrow> space_width (c # cs) = 0"
  by (auto simp: space_width_def plain_def ascii_space_def space_runes2_def space_runes3_def
      split: list.splits)

lemma plain_no_space_rev: "plain c \<Longrightarrow> space_width_rev (c # cs) = 0"
  by (auto simp: space_width_rev_def plain_def ascii_space_def space_runes2_def space_runes3_def
      split: list.splits)

lemma blank_width: "space_width (CHR '' '' # cs) = 1"
  by (auto simp: space_width_def ascii_space_def byte_code_def split: list.splits)

lemma trim_left_plain: "plain c \<Longrightarrow> trim_left (c # cs) = c # cs"
  by (subst trim_left.simps) (simp add: plain_no_space)

lemma trim_left_blank: "trim_left (CHR '' '' # cs) = trim_left cs"
  by (subst trim_left.simps) (simp add: blank_width)

lemma TrimSpace_plain:
  assumes "bs \<noteq> []" "plain (hd bs)" "plain (last bs)"
  shows "TrimSpace bs = bs"
proof -
  have "trim_left bs = bs" using assms trim_left_plain by (metis list.collapse)
  moreover have "trim_left_rev (rev bs) = rev bs"
    using assms plain_no_space_rev by (subst trim_left_rev.simps) (metis hd_rev less_irrefl list.collapse rev_is_Nil_conv)
  ultimately show ?thesis by (simp add: TrimSpace_def)
qed

lemma span_word_plain:
  "list_all plain w \<Longrightarrow> rest = [] \<or> hd rest = CHR '' '' \<Longrightarrow> span_word (w @ rest) = (w, rest)"
proof (induction w)
  case Nil
  then show ?case by (cases rest) (auto simp: blank_width)
next
  case (Cons c w)
  then show ?case by (simp add: plain_no_space)
qed

definition plain_word :: "bytes \<Rightarrow> bool" where
  "plain_word w \<longleftrightarrow> w \<noteq> [] \<and> list_all plain w"

definition spaced :: "bytes list \<Rightarrow> bytes" where
  "spaced ws = concat (map (\<lambda>w. CHR '' '' # w) ws)"

lemma Fields_spaced: "list_all plain_word ws \<Longrightarrow> Fields (spaced ws) = ws"
proof (induction ws)
  case Nil
  show ?case by (subst Fields.simps) (simp add: spaced_def trim_left.simps [of "[]"] space_width_def)
next
  case (Cons w ws)
  then obtain c w' where w: "w = c # w'" "plain c" "list_all plain w'"
    by (auto simp: plain_word_def neq_Nil_conv)
  have s: "spaced (w # ws) = CHR '' '' # w @ spaced ws" by (simp add: spaced_def)
  have "span_word (w @ spaced ws) = (w, spaced ws)"
    using w by (intro span_word_plain) (cases ws; simp add: spaced_def)+
  then have "Fields (spaced (w # ws)) = w # Fields (spaced ws)"
    unfolding s using w by (subst Fields.simps) (simp add: trim_left_blank trim_left_plain)
  with Cons show ?case by simp
qed

lemma digit_plain: "is_digit c \<Longrightarrow> plain c"
  by (simp add: is_digit_def plain_def byte_code_def)

lemma digits_of_plain: "plain_word (digits_of n)"
  using digits_of_value [of n] by (auto simp: plain_word_def all_digits_def digit_plain list_all_iff)

section \<open>Lower case\<close>

text \<open>
  \<open>strings.ToLower\<close> and \<open>strings.EqualFold\<close> on ASCII.  The program lowers a boot ID, in which
  every rune outside ASCII is refused after lowering as before.
\<close>

definition lower :: "char \<Rightarrow> char" where
  "lower c = (if byte_code (CHR ''A'') \<le> byte_code c \<and> byte_code c \<le> byte_code (CHR ''Z'')
              then byte_of (byte_code c + 32) else c)"

end
