(* ===== verification/Go_Float.thy ===== *)
theory Go_Float
  imports Complex_Main Go_Strings
begin

text \<open>
  Go's \<open>float64\<close> as far as the exporter computes with it: the correctly rounded
  conversion of a decimal or hexadecimal literal (\<open>strconv.ParseFloat\<close>), of an integer, and
  multiplication.  A finite value is kept as IEEE 754 double precision keeps it, a sign, a
  mantissa below \<open>2^53\<close> and a binary exponent of at least \<open>-1074\<close>; rounding is to nearest with
  ties to even, with gradual underflow and overflow to infinity.  \<open>f64_real\<close> is the number a
  finite value stands for; the lemmas show that rounding is to within half a unit in
  the last place and exact on every representable number.
\<close>

section \<open>Values and rounding\<close>

datatype f64 = NaN | Inf bool | Fin bool nat int

definition IsNaN :: "f64 \<Rightarrow> bool" where
  "IsNaN f \<longleftrightarrow> f = NaN"

fun IsInf :: "f64 \<Rightarrow> bool" where
  "IsInf (Inf s) = True"
| "IsInf f = False"

fun f64_real :: "f64 \<Rightarrow> real" where
  "f64_real (Fin s m e) = (if s then - 1 else 1) * real m * 2 powi e"
| "f64_real f = 0"

text \<open>The comparison \<open>number < 0\<close>; it is false of a negative zero.\<close>

fun f64_negative :: "f64 \<Rightarrow> bool" where
  "f64_negative (Fin s m e) = (s \<and> m \<noteq> 0)"
| "f64_negative (Inf s) = s"
| "f64_negative NaN = False"

fun bit_len :: "nat \<Rightarrow> nat" where
  "bit_len n = (if n = 0 then 0 else Suc (bit_len (n div 2)))"

declare bit_len.simps [simp del]

text \<open>The quotient of two naturals scaled by a power of two, as a numerator and a denominator.\<close>

definition scaled :: "nat \<Rightarrow> nat \<Rightarrow> int \<Rightarrow> nat \<times> nat" where
  "scaled n d e = (if e < 0 then (n * 2 ^ nat (- e), d) else (n, d * 2 ^ nat e))"

text \<open>The exponent of the leading bit of \<open>n / d\<close>.\<close>

definition leading_bit :: "nat \<Rightarrow> nat \<Rightarrow> int" where
  "leading_bit n d =
     (let k = int (bit_len n) - int (bit_len d); (p, q) = scaled n d k
      in if q \<le> p then k else k - 1)"

definition half_even :: "nat \<Rightarrow> nat \<Rightarrow> nat" where
  "half_even p q =
     (let m = p div q; r = p mod q
      in if q < 2 * r \<or> (2 * r = q \<and> odd m) then m + 1 else m)"

definition min_exp :: int where "min_exp = - 1074"
definition max_exp :: int where "max_exp = 971"

definition round_ratio :: "bool \<Rightarrow> nat \<Rightarrow> nat \<Rightarrow> f64" where
  "round_ratio s n d =
     (if n = 0 then Fin s 0 min_exp
      else let e = max min_exp (leading_bit n d - 52);
               (p, q) = scaled n d e;
               m = half_even p q;
               (m', e') = (if m = 2 ^ 53 then (2 ^ 52, e + 1) else (m, e))
           in if max_exp < e' then Inf s else Fin s m' e')"

text \<open>\<open>float64(v)\<close> of an unsigned integer, and the constants \<open>1 << k\<close> and \<open>0.01\<close>.\<close>

definition f64_of_nat :: "nat \<Rightarrow> f64" where
  "f64_of_nat v = round_ratio False v 1"

fun f64_mult :: "f64 \<Rightarrow> f64 \<Rightarrow> f64" where
  "f64_mult NaN g = NaN"
| "f64_mult f NaN = NaN"
| "f64_mult (Inf s) (Inf t) = Inf (s \<noteq> t)"
| "f64_mult (Inf s) (Fin t m e) = (if m = 0 then NaN else Inf (s \<noteq> t))"
| "f64_mult (Fin s m e) (Inf t) = (if m = 0 then NaN else Inf (s \<noteq> t))"
| "f64_mult (Fin s m e) (Fin t n f) =
     (if e + f < 0 then round_ratio (s \<noteq> t) (m * n) (2 ^ nat (- (e + f)))
      else round_ratio (s \<noteq> t) (m * n * 2 ^ nat (e + f)) 1)"

text \<open>Division; the exporter divides tick counts by a positive clock rate.\<close>

fun f64_div :: "f64 \<Rightarrow> f64 \<Rightarrow> f64" where
  "f64_div NaN g = NaN"
| "f64_div f NaN = NaN"
| "f64_div (Inf s) (Inf t) = NaN"
| "f64_div (Inf s) (Fin t m e) = Inf (s \<noteq> t)"
| "f64_div (Fin s m e) (Inf t) = Fin (s \<noteq> t) 0 min_exp"
| "f64_div (Fin s m e) (Fin t n f) =
     (if n = 0 then (if m = 0 then NaN else Inf (s \<noteq> t))
      else if e - f < 0 then round_ratio (s \<noteq> t) m (n * 2 ^ nat (f - e))
      else round_ratio (s \<noteq> t) (m * 2 ^ nat (e - f)) n)"

section \<open>Reading a literal\<close>

definition is_hex_letter :: "char \<Rightarrow> bool" where
  "is_hex_letter c \<longleftrightarrow> byte_code (CHR ''a'') \<le> byte_code (lower c) \<and> byte_code (lower c) \<le> byte_code (CHR ''f'')"

definition hex_digit_value :: "char \<Rightarrow> nat" where
  "hex_digit_value c = (if is_digit c then digit_value c else byte_code (lower c) - byte_code (CHR ''a'') + 10)"

record mantissa =
  mant_value :: nat
  mant_frac :: nat
  saw_dot :: bool
  saw_digits :: bool
  saw_underscore :: bool

definition mantissa_zero :: mantissa where
  "mantissa_zero = \<lparr>mant_value = 0, mant_frac = 0, saw_dot = False, saw_digits = False,
     saw_underscore = False\<rparr>"

definition push_digit :: "bool \<Rightarrow> char \<Rightarrow> mantissa \<Rightarrow> mantissa" where
  "push_digit hex c m =
     m\<lparr>mant_value := mant_value m * (if hex then 16 else 10) + hex_digit_value c,
       mant_frac := mant_frac m + (if saw_dot m then 1 else 0), saw_digits := True\<rparr>"

fun read_mantissa :: "bool \<Rightarrow> bytes \<Rightarrow> mantissa \<Rightarrow> mantissa \<times> bytes" where
  "read_mantissa hex [] m = (m, [])"
| "read_mantissa hex (c # cs) m =
     (if c = CHR ''_'' then read_mantissa hex cs (m\<lparr>saw_underscore := True\<rparr>)
      else if c = CHR ''.'' then
        (if saw_dot m then (m, c # cs) else read_mantissa hex cs (m\<lparr>saw_dot := True\<rparr>))
      else if is_digit c \<or> (hex \<and> is_hex_letter c) then read_mantissa hex cs (push_digit hex c m)
      else (m, c # cs))"

text \<open>
  The exponent's digits: once it has reached 10000 further digits are read and dropped, as in
  the library.  The result is the value, whether an underscore was seen and what follows.
\<close>

fun read_exponent :: "bytes \<Rightarrow> nat \<Rightarrow> bool \<Rightarrow> nat \<times> bool \<times> bytes" where
  "read_exponent [] e u = (e, u, [])"
| "read_exponent (c # cs) e u =
     (if c = CHR ''_'' then read_exponent cs e True
      else if is_digit c then
        read_exponent cs (if e < 10000 then e * 10 + digit_value c else e) u
      else (e, u, c # cs))"

fun underscores_between :: "bool \<Rightarrow> char \<Rightarrow> bytes \<Rightarrow> bool" where
  "underscores_between hex saw [] = (saw \<noteq> CHR ''_'')"
| "underscores_between hex saw (c # cs) =
     (if is_digit c \<or> (hex \<and> is_hex_letter c) then underscores_between hex (CHR ''0'') cs
      else if c = CHR ''_'' then saw = CHR ''0'' \<and> underscores_between hex (CHR ''_'') cs
      else saw \<noteq> CHR ''_'' \<and> underscores_between hex (CHR ''!'') cs)"

definition strip_sign :: "bytes \<Rightarrow> bool \<times> bytes" where
  "strip_sign bs = (case bs of
     c # cs \<Rightarrow> if c = CHR ''-'' then (True, cs) else if c = CHR ''+'' then (False, cs) else (False, bs)
   | [] \<Rightarrow> (False, []))"

definition underscoreOK :: "bytes \<Rightarrow> bool" where
  "underscoreOK bs =
     (let s = snd (strip_sign bs)
      in if 2 \<le> length s \<and> s ! 0 = CHR ''0'' \<and> lower (s ! 1) \<in> {CHR ''b'', CHR ''o'', CHR ''x''}
         then underscores_between (lower (s ! 1) = CHR ''x'') (CHR ''0'') (drop 2 s)
         else underscores_between False (CHR ''^'') s)"

text \<open>A literal: its sign, mantissa, and the exponent of ten (or two) the mantissa is scaled by.\<close>

record float_literal =
  lit_neg :: bool
  lit_hex :: bool
  lit_mantissa :: nat
  lit_exp :: int

definition literal_exponent :: "bool \<Rightarrow> bytes \<Rightarrow> (int \<times> bool \<times> bytes) option" where
  "literal_exponent hex bs =
     (case bs of
        c # cs \<Rightarrow>
          if lower c = (if hex then CHR ''p'' else CHR ''e'') then
            (let (neg, ds) = strip_sign cs
             in if ds = [] \<or> \<not> is_digit (hd ds) then None
                else (case read_exponent ds 0 False of
                        (e, u, rest) \<Rightarrow> Some (if neg then - int e else int e, u, rest)))
          else if hex then None else Some (0, False, bs)
      | [] \<Rightarrow> if hex then None else Some (0, False, []))"

definition readFloat :: "bytes \<Rightarrow> float_literal option" where
  "readFloat s =
     (let (neg, t) = strip_sign s;
          hex = (2 < length t \<and> t ! 0 = CHR ''0'' \<and> lower (t ! 1) = CHR ''x'');
          (m, r) = read_mantissa hex (if hex then drop 2 t else t) mantissa_zero
      in if \<not> saw_digits m then None
         else (case literal_exponent hex r of
                 None \<Rightarrow> None
               | Some (e, u, rest) \<Rightarrow>
                   if rest \<noteq> [] then None
                   else if (saw_underscore m \<or> u) \<and> \<not> underscoreOK s then None
                   else Some \<lparr>lit_neg = neg, lit_hex = hex, lit_mantissa = mant_value m,
                          lit_exp = e - int (mant_frac m) * (if hex then 4 else 1)\<rparr>))"

text \<open>Infinities and not-a-number, matched without regard to case.\<close>

definition special_float :: "bytes \<Rightarrow> f64 option" where
  "special_float s =
     (let (neg, t) = strip_sign s; l = map lower t
      in if l = ''inf'' \<or> l = ''infinity'' then Some (Inf neg)
         else if t = s \<and> l = ''nan'' then Some NaN else None)"

text \<open>\<open>strconv.ParseFloat(s, 64)\<close>: no value for a malformed literal or one that overflows.\<close>

definition literal_value :: "float_literal \<Rightarrow> f64" where
  "literal_value l =
     (let b = (if lit_hex l then 2 else 10)
      in if lit_exp l < 0 then round_ratio (lit_neg l) (lit_mantissa l) (b ^ nat (- lit_exp l))
         else round_ratio (lit_neg l) (lit_mantissa l * b ^ nat (lit_exp l)) 1)"

definition ParseFloat :: "bytes \<Rightarrow> f64 option" where
  "ParseFloat s =
     (case special_float s of
        Some f \<Rightarrow> Some f
      | None \<Rightarrow>
          (case readFloat s of
             None \<Rightarrow> None
           | Some l \<Rightarrow> (let f = literal_value l in if IsInf f then None else Some f)))"

section \<open>Rounding is to the nearest value, and exact on representable ones\<close>

lemma bit_len_numeral [simp]:
  "bit_len 0 = 0" "bit_len 1 = 1" "bit_len (Suc 0) = 1" "bit_len (numeral num.One) = 1"
  "bit_len (numeral (num.Bit0 k)) = Suc (bit_len (numeral k))"
  "bit_len (numeral (num.Bit1 k)) = Suc (bit_len (numeral k))"
  by (subst bit_len.simps; simp add: bit_len.simps [of 0])+

lemma bit_len_bounds: "0 < n \<Longrightarrow> 2 ^ (bit_len n - 1) \<le> n \<and> n < 2 ^ bit_len n \<and> 0 < bit_len n"
proof (induction n rule: bit_len.induct)
  case (1 n)
  show ?case
  proof (cases "n div 2 = 0")
    case True
    with 1 have "n = 1" by linarith
    then show ?thesis by simp
  next
    case False
    with 1 have ih: "2 ^ (bit_len (n div 2) - 1) \<le> n div 2" "n div 2 < 2 ^ bit_len (n div 2)"
      "0 < bit_len (n div 2)" by auto
    have len: "bit_len n = Suc (bit_len (n div 2))"
      using 1 by (subst bit_len.simps) simp
    have "2 ^ bit_len (n div 2) = (2::nat) * 2 ^ (bit_len (n div 2) - 1)"
      using ih(3) by (metis Suc_diff_1 power_Suc)
    moreover have "n = 2 * (n div 2) + n mod 2" "n mod 2 < 2" by simp_all
    ultimately show ?thesis using ih unfolding len by simp linarith
  qed
qed

lemma scaled_ratio:
  assumes "scaled n d e = (p, q)" "0 < d"
  shows "0 < q \<and> real p / real q = real n / real d / 2 powi e"
  using assms by (auto simp: scaled_def power_int_def field_simps split: if_splits)

lemma powi_diff: "(2::real) powi (a - b) = 2 powi a / 2 powi b"
  by (simp add: power_int_diff)

lemma leading_bit_bounds:
  assumes n: "0 < n" and d: "0 < d"
  shows "2 powi (leading_bit n d) \<le> real n / real d \<and> real n / real d < 2 powi (leading_bit n d + 1)"
proof -
  define a b k where "a = bit_len n" and "b = bit_len d" and "k = int a - int b"
  obtain p q where pq: "scaled n d k = (p, q)" by force
  have ratio: "0 < q" "real p / real q = real n / real d / 2 powi k"
    using scaled_ratio [OF pq d] by auto
  have na: "2 ^ (a - 1) \<le> n" "n < 2 ^ a" "0 < a" and db: "2 ^ (b - 1) \<le> d" "d < 2 ^ b" "0 < b"
    using bit_len_bounds n d by (auto simp: a_def b_def)
  have up: "real n / real d < 2 powi (k + 1)"
  proof -
    have "real n < 2 ^ a" using na by (metis of_nat_less_iff of_nat_numeral of_nat_power)
    moreover have "2 ^ (b - 1) \<le> real d" using db by (metis of_nat_le_iff of_nat_numeral of_nat_power)
    ultimately have "real n / real d < 2 ^ a / 2 ^ (b - 1)"
      using n d by (intro frac_less) auto
    also have "\<dots> = 2 powi (int a - int (b - 1))"
      by (simp only: powi_diff power_int_of_nat)
    also have "int a - int (b - 1) = k + 1" using db(3) by (simp add: k_def)
    finally show ?thesis .
  qed
  have low: "2 powi (k - 1) \<le> real n / real d"
  proof -
    have "real d \<le> 2 ^ b" using db by (metis less_imp_le of_nat_le_iff of_nat_numeral of_nat_power)
    moreover have "2 ^ (a - 1) \<le> real n" using na by (metis of_nat_le_iff of_nat_numeral of_nat_power)
    ultimately have "2 ^ (a - 1) / 2 ^ b \<le> real n / real d"
      using d by (intro frac_le) auto
    moreover have "2 ^ (a - 1) / 2 ^ b = (2::real) powi (int (a - 1) - int b)"
      by (simp only: powi_diff power_int_of_nat)
    moreover have "int (a - 1) - int b = k - 1" using na(3) by (simp add: k_def)
    ultimately show ?thesis by metis
  qed
  have mid: "q \<le> p \<longleftrightarrow> 2 powi k \<le> real n / real d"
  proof -
    have "q \<le> p \<longleftrightarrow> 1 \<le> real p / real q" using ratio(1) by (simp add: le_divide_eq)
    also have "\<dots> \<longleftrightarrow> 2 powi k \<le> real n / real d" unfolding ratio(2) using d by (simp add: le_divide_eq mult.commute)
    finally show ?thesis .
  qed
  show ?thesis
    using up low mid pq by (auto simp: leading_bit_def Let_def a_def b_def k_def)
qed

lemma half_even_near:
  assumes "0 < q"
  shows "\<bar>real (half_even p q) - real p / real q\<bar> \<le> 1 / 2"
proof -
  have "real p = real (p div q) * real q + real (p mod q)"
    by (metis div_mult_mod_eq of_nat_add of_nat_mult)
  then have "real p / real q = real (p div q) + real (p mod q) / real q"
    using assms by (simp add: field_simps)
  moreover have "p mod q < q" using assms by simp
  moreover have "2 * (p mod q) \<le> q \<Longrightarrow> real (p mod q) / real q \<le> 1 / 2"
    using assms by (simp add: field_simps)
  moreover have "q \<le> 2 * (p mod q) \<Longrightarrow> 1 / 2 \<le> real (p mod q) / real q"
    using assms by (simp add: field_simps)
  moreover have "real (p mod q) / real q \<le> 1" "0 \<le> real (p mod q) / real q"
    using assms by (simp_all add: field_simps less_imp_le)
  ultimately show ?thesis
    by (auto simp: half_even_def Let_def)
qed

lemma half_even_dvd: "q dvd p \<Longrightarrow> 0 < q \<Longrightarrow> half_even p q = p div q"
  by (auto simp: half_even_def Let_def)

lemma half_even_le: "p < m * q \<Longrightarrow> half_even p q \<le> m"
  using less_mult_imp_div_less [of p m q] by (auto simp: half_even_def Let_def)

lemma round_exponent_bounds:
  assumes n: "0 < n" and d: "0 < d"
    and e: "e = max min_exp (leading_bit n d - 52)" and pq: "scaled n d e = (p, q)"
  shows "0 < q \<and> p < 2 ^ 53 * q \<and> real p / real q = real n / real d / 2 powi e"
proof -
  have ratio: "0 < q" "real p / real q = real n / real d / 2 powi e"
    using scaled_ratio [OF pq d] by auto
  have "leading_bit n d + 1 \<le> e + 53" using e by simp
  then have "2 powi (leading_bit n d + 1) \<le> (2::real) powi (e + 53)"
    by (intro power_int_increasing) auto
  with leading_bit_bounds [OF n d] have "real n / real d < 2 powi (e + 53)" by linarith
  also have "\<dots> = 2 ^ 53 * 2 powi e" by (simp add: power_int_add)
  finally have "real p / real q < 2 ^ 53" unfolding ratio(2) using d by (simp add: divide_less_eq mult_ac)
  then have "real p < 2 ^ 53 * real q" using ratio(1) by (simp add: divide_less_eq)
  then have "real p < real (2 ^ 53 * q)" by simp
  then have "p < 2 ^ 53 * q" by (simp only: of_nat_less_iff)
  with ratio show ?thesis by simp
qed

lemma round_ratio_cases:
  assumes n: "0 < n" and d: "0 < d"
  obtains (overflow) "round_ratio s n d = Inf s" "2 powi 1023 \<le> real n / real d"
  | (finite) p q e m' e' where
      "e = max min_exp (leading_bit n d - 52)" "scaled n d e = (p, q)" "0 < q"
      "p < 2 ^ 53 * q" "real p / real q = real n / real d / 2 powi e"
      "real m' * 2 powi e' = real (half_even p q) * 2 powi e" "e \<le> e'" "m' < 2 ^ 53" "e' \<le> max_exp"
      "round_ratio s n d = Fin s m' e'"
proof -
  define e where "e = max min_exp (leading_bit n d - 52)"
  obtain p q where pq: "scaled n d e = (p, q)" by force
  note b = round_exponent_bounds [OF n d e_def pq]
  have m: "half_even p q \<le> 2 ^ 53" using b half_even_le by blast
  show ?thesis
  proof (cases "round_ratio s n d = Inf s")
    case True
    with n pq have "max_exp < e + 1"
      by (auto simp: round_ratio_def Let_def e_def [symmetric] split: if_splits)
    then have "1023 \<le> leading_bit n d" by (simp add: e_def max_exp_def min_exp_def)
    then have "(2::real) powi 1023 \<le> 2 powi (leading_bit n d)" by (intro power_int_increasing) auto
    with leading_bit_bounds [OF n d] have "2 powi 1023 \<le> real n / real d" by linarith
    with True show ?thesis by (rule overflow)
  next
    case False
    show ?thesis
    proof (cases "half_even p q = 2 ^ 53")
      case True
      with False n pq have "round_ratio s n d = Fin s (2 ^ 52) (e + 1)" "e + 1 \<le> max_exp"
        by (auto simp: round_ratio_def Let_def e_def [symmetric] split: if_splits)
      moreover have "real (2 ^ 52) * 2 powi (e + 1) = real (half_even p q) * 2 powi e"
        using True by (simp add: power_int_add)
      ultimately show ?thesis using b by (intro finite [OF e_def pq]) auto
    next
      case ne: False
      with False n pq have "round_ratio s n d = Fin s (half_even p q) e" "e \<le> max_exp"
        by (auto simp: round_ratio_def Let_def e_def [symmetric] split: if_splits)
      then show ?thesis using b ne m by (intro finite [OF e_def pq]) auto
    qed
  qed
qed

lemma round_ratio_nearest:
  assumes d: "0 < d" and r: "round_ratio s n d = Fin t m e"
  shows "t = s \<and> m < 2 ^ 53 \<and> min_exp \<le> e \<and> e \<le> max_exp
    \<and> \<bar>real m * 2 powi e - real n / real d\<bar> \<le> 2 powi e / 2"
proof (cases "n = 0")
  case True
  with r show ?thesis by (auto simp: round_ratio_def min_exp_def max_exp_def)
next
  case False
  then have n: "0 < n" by simp
  show ?thesis
  proof (cases rule: round_ratio_cases [OF n d, of s])
    case 1
    with r show ?thesis by simp
  next
    case (2 p q a m' e')
    have eq: "t = s" "m = m'" "e = e'" using r 2 by auto
    have "\<bar>real (half_even p q) * 2 powi a - real n / real d\<bar>
        = \<bar>real (half_even p q) - real p / real q\<bar> * 2 powi a"
    proof -
      have "real n / real d = real p / real q * 2 powi a" unfolding 2(5) by simp
      then have "real (half_even p q) * 2 powi a - real n / real d
          = (real (half_even p q) - real p / real q) * 2 powi a" by (simp add: left_diff_distrib)
      then show ?thesis by (simp add: abs_mult)
    qed
    also have "\<dots> \<le> 1 / 2 * 2 powi a"
      using half_even_near [OF 2(3), of p] by (intro mult_right_mono) auto
    also have "\<dots> \<le> 2 powi e' / 2"
      using 2(7) power_int_increasing [of a e' "2::real"] by simp
    finally show ?thesis using 2 eq by simp
  qed
qed

lemma round_ratio_exact:
  assumes d: "0 < d" and x: "real n / real d = real k * 2 powi j" and k: "k < 2 ^ 53"
    and j: "min_exp \<le> j" and r: "round_ratio s n d = Fin t m e"
  shows "real m * 2 powi e = real n / real d"
proof (cases "n = 0")
  case True
  with r show ?thesis by (auto simp: round_ratio_def)
next
  case False
  then have n: "0 < n" by simp
  show ?thesis
  proof (cases rule: round_ratio_cases [OF n d, of s])
    case 1
    with r show ?thesis by simp
  next
    case (2 p q a m' e')
    have "a \<le> j"
    proof (rule ccontr)
      assume "\<not> a \<le> j"
      then have a: "a = leading_bit n d - 52" "j \<le> leading_bit n d - 53" using 2(1) j by auto
      have "2 powi (leading_bit n d) \<le> real k * 2 powi j"
        using leading_bit_bounds [OF n d] x by simp
      also have "\<dots> \<le> real k * 2 powi (leading_bit n d - 53)"
        using a by (intro mult_left_mono power_int_increasing) auto
      also have "\<dots> = real k / 2 ^ 53 * 2 powi (leading_bit n d)" by (simp add: power_int_diff)
      finally have "1 \<le> real k / 2 ^ 53" by simp
      then have "2 ^ 53 \<le> real k" by simp
      moreover have "real k < 2 ^ 53" using k by (metis of_nat_less_iff of_nat_numeral of_nat_power)
      ultimately show False by simp
    qed
    then have "real p / real q = real (k * 2 ^ nat (j - a))"
    proof -
      have "(2::real) powi j / 2 powi a = 2 ^ nat (j - a)"
        unfolding powi_diff [symmetric] using \<open>a \<le> j\<close> by (simp add: power_int_def)
      then show ?thesis unfolding 2(5) x by (simp flip: times_divide_eq_right)
    qed
    then have "real p = real (k * 2 ^ nat (j - a) * q)" using 2(3) by (simp add: field_simps)
    then have "p = k * 2 ^ nat (j - a) * q" by (simp only: of_nat_eq_iff)
    then have dvd: "q dvd p" by simp
    then have "real (half_even p q) = real p / real q"
      using half_even_dvd 2(3) by (simp add: real_of_nat_div)
    then show ?thesis using 2 r by simp
  qed
qed

text \<open>Conversion of integers up to \<open>2^53\<close> loses nothing.\<close>

lemma f64_of_nat_exact:
  assumes "v \<le> 2 ^ 53"
  shows "\<exists>m e. f64_of_nat v = Fin False m e \<and> f64_real (f64_of_nat v) = real v"
proof (cases "v = 0")
  case True
  then show ?thesis by (simp add: f64_of_nat_def round_ratio_def)
next
  case False
  have small: "real v \<le> 2 ^ 53" using assms by (metis of_nat_le_iff of_nat_numeral of_nat_power)
  have "\<not> 2 powi 1023 \<le> real v / real (1::nat)"
  proof
    assume "2 powi 1023 \<le> real v / real (1::nat)"
    with small have "(2::real) powi 1023 \<le> 2 ^ 53" by simp
    moreover have "(2::real) ^ 53 < 2 ^ 1023" by (intro power_strict_increasing) auto
    ultimately show False by (simp add: power_int_def)
  qed
  then obtain m e where r: "round_ratio False v 1 = Fin False m e"
    using round_ratio_cases [of v 1 False] False by (metis gr0I zero_less_one)
  have "real m * 2 powi e = real v / real (1::nat)"
  proof (cases "v = 2 ^ 53")
    case True
    show ?thesis
      by (rule round_ratio_exact [OF _ _ _ _ r, of 1 53]) (simp_all add: True min_exp_def power_int_def)
  next
    case False
    show ?thesis
      by (rule round_ratio_exact [OF _ _ _ _ r, of v 0]) (use False assms in \<open>simp_all add: min_exp_def\<close>)
  qed
  with r show ?thesis by (simp add: f64_of_nat_def)
qed

text \<open>
  A product with a power of two is exact unless it overflows: the program's size suffixes and
  its \<open>1024 * 1024\<close> never round.
\<close>

definition f64_pow2 :: "nat \<Rightarrow> f64" where
  "f64_pow2 k = Fin False (2 ^ 52) (int k - 52)"

definition f64_normal :: "f64 \<Rightarrow> bool" where
  "f64_normal f \<longleftrightarrow> (case f of Fin s m e \<Rightarrow> m < 2 ^ 53 \<and> min_exp \<le> e \<and> e \<le> max_exp | _ \<Rightarrow> True)"

lemma f64_normal_special [simp]: "f64_normal NaN" "f64_normal (Inf s)"
  by (simp_all add: f64_normal_def)

lemma round_ratio_normal: "0 < d \<Longrightarrow> f64_normal (round_ratio s n d)"
  by (cases "round_ratio s n d") (auto simp: f64_normal_def dest: round_ratio_nearest)

lemma round_ratio_sign:
  "0 < d \<Longrightarrow> (\<exists>m e. round_ratio s n d = Fin s m e) \<or> round_ratio s n d = Inf s"
  by (auto simp: round_ratio_def Let_def split: prod.splits)

lemma f64_mult_normal: "f64_normal (f64_mult f g)"
  by (induction f g rule: f64_mult.induct) (simp_all add: round_ratio_normal)

lemma powi_add: "(2::real) powi a * 2 powi b = 2 powi (a + b)"
  by (simp add: power_int_add)

lemma f64_mult_fin:
  "\<exists>p q. 0 < q \<and> f64_mult (Fin s m e) (Fin t n f) = round_ratio (s \<noteq> t) p q
     \<and> real p / real q = (real m * 2 powi e) * (real n * 2 powi f)"
proof (cases "e + f < 0")
  case True
  have w: "(2::real) powi e * 2 powi f = 1 / 2 ^ nat (- (e + f))"
    unfolding powi_add using True by (simp add: power_int_def inverse_eq_divide power_one_over)
  have "real (m * n) / real (2 ^ nat (- (e + f))) = real m * real n * (2 powi e * 2 powi f)"
    unfolding w by simp
  with True show ?thesis
    by (intro exI [of _ "m * n"] exI [of _ "2 ^ nat (- (e + f))"]) (simp add: mult_ac)
next
  case False
  have w: "(2::real) powi e * 2 powi f = 2 ^ nat (e + f)"
    unfolding powi_add using False by (simp add: power_int_def)
  have "real (m * n * 2 ^ nat (e + f)) / real (1::nat) = real m * real n * (2 powi e * 2 powi f)"
    unfolding w by simp
  with False show ?thesis
    by (intro exI [of _ "m * n * 2 ^ nat (e + f)"] exI [of _ 1]) (simp add: mult_ac)
qed

lemma f64_mult_pow2:
  assumes x: "f64_normal (Fin s m e)" and p: "f64_mult (Fin s m e) (f64_pow2 k) = Fin t n f"
  shows "f64_real (Fin t n f) = f64_real (Fin s m e) * 2 ^ k \<and> t = s"
proof -
  obtain a b where ab: "0 < b" "round_ratio s a b = Fin t n f"
    "real a / real b = (real m * 2 powi e) * (real ((2::nat) ^ 52) * 2 powi (int k - 52))"
    using f64_mult_fin [of s m e False "2 ^ 52" "int k - 52"] p by (auto simp: f64_pow2_def)
  have two: "real ((2::nat) ^ 52) * 2 powi (int k - 52) = 2 ^ k"
    by (simp add: power_int_diff)
  have ab3: "real a / real b = real m * 2 powi (e + int k)"
    unfolding ab(3) two by (simp add: power_int_add)
  have "real n * 2 powi f = real a / real b"
    using x by (intro round_ratio_exact [OF ab(1) ab3 _ _ ab(2)]) (auto simp: f64_normal_def)
  moreover have "t = s" using round_ratio_nearest [OF ab(1,2)] by simp
  ultimately show ?thesis unfolding ab3 by (simp add: power_int_add)
qed

text \<open>It overflows only from \<open>2^1023\<close> on.\<close>

lemma f64_mult_pow2_finite:
  assumes "real m * 2 powi e * 2 ^ k < 2 ^ 1023"
  shows "\<exists>t n f. f64_mult (Fin s m e) (f64_pow2 k) = Fin t n f"
proof -
  obtain a b where ab: "0 < b" "f64_mult (Fin s m e) (f64_pow2 k) = round_ratio s a b"
    "real a / real b = (real m * 2 powi e) * (real ((2::nat) ^ 52) * 2 powi (int k - 52))"
    using f64_mult_fin [of s m e False "2 ^ 52" "int k - 52"] by (auto simp: f64_pow2_def)
  have "real ((2::nat) ^ 52) * 2 powi (int k - 52) = 2 ^ k" by (simp add: power_int_diff)
  with assms ab(3) have small: "real a / real b < 2 powi 1023" by (simp add: power_int_def)
  have "round_ratio s a b \<noteq> Inf s"
  proof (cases "a = 0")
    case False
    then have "0 < a" by simp
    then show ?thesis using small by (cases rule: round_ratio_cases [OF _ ab(1), of a s]) auto
  qed (simp add: round_ratio_def)
  then show ?thesis using round_ratio_sign [OF ab(1), of s a] ab(2) by auto
qed

text \<open>A text of decimal digits is read as its number.\<close>

lemma read_mantissa_digits:
  "list_all is_digit ds \<Longrightarrow> \<not> saw_dot m \<Longrightarrow> read_mantissa False ds m =
     (m\<lparr>mant_value := foldl (\<lambda>acc c. acc * 10 + digit_value c) (mant_value m) ds,
        saw_digits := saw_digits m \<or> ds \<noteq> []\<rparr>, [])"
proof (induction ds arbitrary: m)
  case (Cons c ds)
  have "c \<noteq> CHR ''_''" "c \<noteq> CHR ''.''" using Cons.prems(1) by (auto simp: is_digit_def byte_code_def)
  with Cons show ?case by (simp add: push_digit_def hex_digit_value_def)
qed simp

lemma ParseFloat_digits:
  assumes "list_all is_digit ds" "ds \<noteq> []" "digits_value ds \<le> 2 ^ 53"
  shows "ParseFloat ds = Some (f64_of_nat (digits_value ds))"
proof -
  have d: "is_digit (hd ds)" using assms(1,2) by (cases ds) auto
  have sign: "strip_sign ds = (False, ds)"
    using d assms(2) by (cases ds) (auto simp: strip_sign_def is_digit_def byte_code_def)
  have l: "lower c = c" if "is_digit c" for c
    using that by (auto simp: lower_def is_digit_def byte_code_def)
  have "map lower ds = ds" using assms(1) l by (intro map_idI) (auto simp: list_all_iff)
  moreover have "ds \<noteq> ''inf''" "ds \<noteq> ''infinity''" "ds \<noteq> ''nan''"
    using d by (auto simp: is_digit_def byte_code_def)
  ultimately have special: "special_float ds = None" by (simp add: special_float_def sign)
  have "(2 < length ds \<and> ds ! 0 = CHR ''0'' \<and> lower (ds ! 1) = CHR ''x'') = False"
  proof (rule iffI [OF _ FalseE])
    assume h: "2 < length ds \<and> ds ! 0 = CHR ''0'' \<and> lower (ds ! 1) = CHR ''x''"
    then have "is_digit (ds ! 1)" using assms(1) by (simp add: list_all_length)
    with h l show False by (auto simp: is_digit_def byte_code_def)
  qed
  then have "readFloat ds = Some \<lparr>lit_neg = False, lit_hex = False, lit_mantissa = digits_value ds, lit_exp = 0\<rparr>"
    using assms(1,2) unfolding readFloat_def sign Let_def prod.case
    by (simp only: if_False) (simp add: read_mantissa_digits mantissa_zero_def literal_exponent_def digits_value_def)
  moreover have "\<not> IsInf (f64_of_nat (digits_value ds))" using f64_of_nat_exact [OF assms(3)] by auto
  ultimately show ?thesis by (simp add: ParseFloat_def special literal_value_def f64_of_nat_def)
qed

end
