(* ===== verification/Go_Rat.thy ===== *)
theory Go_Rat
  imports Go_Float
begin

text \<open>
  \<open>big.Rat.SetString\<close> on the text of a JSON number, the exact arithmetic the normalizer
  uses for integers.  The library scans a sign, digits with at most one point and an exponent
  that must fit 64 bits; a zero mantissa is zero whatever the exponent, and an exponent of more
  than a million in magnitude is refused.  A rational is a numerator and a positive denominator;
  \<open>number_value\<close> is the number the grammar of JSON gives the text.
\<close>

fun scan_mantissa :: "bytes \<Rightarrow> bool \<Rightarrow> nat \<Rightarrow> nat \<Rightarrow> nat \<times> nat \<times> bytes" where
  "scan_mantissa [] dot acc places = (acc, places, [])"
| "scan_mantissa (c # cs) dot acc places =
     (if c = CHR ''.'' \<and> \<not> dot then scan_mantissa cs True acc places
      else if is_digit c then
        scan_mantissa cs dot (acc * 10 + digit_value c) (if dot then places + 1 else places)
      else (acc, places, c # cs))"

definition scanExponent :: "bytes \<Rightarrow> int option" where
  "scanExponent bs =
     (case bs of
        [] \<Rightarrow> Some 0
      | c # cs \<Rightarrow> if c = CHR ''e'' \<or> c = CHR ''E'' then ParseInt64 cs else None)"

type_synonym big_rat = "int \<times> nat"

definition max_exp5 :: int where "max_exp5 = 1000000"

definition Rat_SetString :: "bytes \<Rightarrow> big_rat option" where
  "Rat_SetString s =
     (let (neg, t) = strip_sign s;
          (m, places, r) = scan_mantissa t False 0 0;
          a = (if neg then - int m else int m)
      in case scanExponent r of
           None \<Rightarrow> None
         | Some e \<Rightarrow>
             (let x = e - int places
              in if m = 0 then Some (0, 1)
                 else if x < - max_exp5 \<or> max_exp5 < x then None
                 else if x < 0 then Some (a, 10 ^ nat (- x))
                 else Some (a * 10 ^ nat x, 1)))"

definition IsInt :: "big_rat \<Rightarrow> bool" where
  "IsInt q \<longleftrightarrow> int (snd q) dvd fst q"

definition Num :: "big_rat \<Rightarrow> int" where
  "Num q = fst q div int (snd q)"

definition rat_value :: "big_rat \<Rightarrow> real" where
  "rat_value q = real_of_int (fst q) / real (snd q)"

section \<open>What the text means\<close>

definition fraction_digits :: "bytes \<Rightarrow> bytes" where
  "fraction_digits r = (if r \<noteq> [] \<and> hd r = CHR ''.'' then takeWhile is_digit (tl r) else [])"

definition after_fraction :: "bytes \<Rightarrow> bytes" where
  "after_fraction r = (if r \<noteq> [] \<and> hd r = CHR ''.'' then dropWhile is_digit (tl r) else r)"

definition exponent_value :: "bytes \<Rightarrow> int" where
  "exponent_value r =
     (if r = [] then 0
      else let (neg, ds) = strip_sign (tl r)
           in if neg then - int (digits_value ds) else int (digits_value ds))"

definition number_value :: "bytes \<Rightarrow> real" where
  "number_value s =
     (let (neg, t) = strip_sign s; whole = takeWhile is_digit t; r = dropWhile is_digit t;
          places = fraction_digits r
      in (if neg then - 1 else 1)
           * (real (digits_value whole) + real (digits_value places) / 10 ^ length places)
           * 10 powi exponent_value (after_fraction r))"

lemma digits_value_foldl:
  "foldl (\<lambda>acc c. acc * 10 + digit_value c) a ds = a * 10 ^ length ds + digits_value ds"
proof (induction ds arbitrary: a)
  case Nil
  show ?case by (simp add: digits_value_def)
next
  case (Cons d ds)
  have "digits_value (d # ds) = digit_value d * 10 ^ length ds + digits_value ds"
    using Cons [of "digit_value d"] by (simp add: digits_value_def)
  with Cons [of "a * 10 + digit_value d"] show ?case by (simp add: algebra_simps)
qed

lemma digits_value_Cons: "digits_value (d # ds) = digit_value d * 10 ^ length ds + digits_value ds"
  using digits_value_foldl [of "digit_value d" ds] by (simp add: digits_value_def)

lemma scan_mantissa_after_dot:
  "scan_mantissa bs True acc places =
     (acc * 10 ^ length (takeWhile is_digit bs) + digits_value (takeWhile is_digit bs),
      places + length (takeWhile is_digit bs), dropWhile is_digit bs)"
  by (induction bs arbitrary: acc places)
     (auto simp: digits_value_Cons algebra_simps, auto simp: digits_value_def)

lemma not_digit_dot: "\<not> is_digit (CHR ''.'')"
  by (simp add: is_digit_def byte_code_def)

lemma scan_mantissa_whole:
  "scan_mantissa bs False acc 0 =
     (let w = takeWhile is_digit bs; r = dropWhile is_digit bs; f = fraction_digits r
      in ((acc * 10 ^ length w + digits_value w) * 10 ^ length f + digits_value f, length f,
          after_fraction r))"
proof (induction bs arbitrary: acc)
  case Nil
  show ?case by (simp add: fraction_digits_def after_fraction_def digits_value_def)
next
  case (Cons c cs)
  show ?case
  proof (cases "c = CHR ''.''")
    case True
    then show ?thesis
      by (simp add: not_digit_dot scan_mantissa_after_dot fraction_digits_def after_fraction_def
          digits_value_def Let_def)
  next
    case False
    then show ?thesis
      using Cons by (auto simp: Let_def digits_value_Cons algebra_simps)
        (auto simp: fraction_digits_def after_fraction_def digits_value_def)
  qed
qed

lemma ParseInt64_exponent:
  "ParseInt64 cs = Some e \<Longrightarrow> e = exponent_value (c # cs)"
  by (auto simp: ParseInt64_def exponent_value_def strip_sign_def Let_def
      split: if_splits list.splits)

lemma scanExponent_value: "scanExponent r = Some e \<Longrightarrow> e = exponent_value r"
  by (auto simp: scanExponent_def split: list.splits if_splits dest: ParseInt64_exponent)
     (simp add: exponent_value_def)

lemma Rat_SetString_value:
  assumes s: "Rat_SetString s = Some q"
  shows "rat_value q = number_value s \<and> 0 < snd q"
proof -
  obtain neg t where t: "strip_sign s = (neg, t)" by force
  define w r f where "w = takeWhile is_digit t" and "r = dropWhile is_digit t"
    and "f = fraction_digits r"
  define m where "m = digits_value w * 10 ^ length f + digits_value f"
  have scan: "scan_mantissa t False 0 0 = (m, length f, after_fraction r)"
    by (simp add: scan_mantissa_whole Let_def w_def r_def f_def m_def)
  obtain e where e: "scanExponent (after_fraction r) = Some e"
    using s by (cases "scanExponent (after_fraction r)") (auto simp: Rat_SetString_def t scan Let_def)
  define sg where "sg = (if neg then - 1 else 1 :: real)"
  have nv: "number_value s = sg * (real m / 10 ^ length f) * 10 powi e"
    by (simp add: number_value_def t sg_def Let_def w_def [symmetric] r_def [symmetric]
        f_def [symmetric] scanExponent_value [OF e, symmetric] m_def add_divide_distrib)
  have nv': "number_value s = sg * real m * 10 powi (e - int (length f))"
    unfolding nv by (simp add: power_int_diff)
  show ?thesis
    unfolding nv' using s e
    by (auto simp: Rat_SetString_def t scan sg_def rat_value_def power_int_def Let_def
        field_simps split: if_splits)
qed

lemma IsInt_Num: "0 < snd q \<Longrightarrow> IsInt q \<Longrightarrow> real_of_int (Num q) = rat_value q"
  by (simp add: IsInt_def Num_def rat_value_def real_of_int_div)

lemma IsInt_value: "0 < snd q \<Longrightarrow> IsInt q \<longleftrightarrow> rat_value q \<in> \<int>"
proof
  assume d: "0 < snd q" and "rat_value q \<in> \<int>"
  then obtain k where "real_of_int (fst q) = real_of_int (k * int (snd q))"
    by (auto simp: rat_value_def Ints_def field_simps)
  then have "fst q = k * int (snd q)" by (simp only: of_int_eq_iff)
  then show "IsInt q" by (simp add: IsInt_def)
next
  assume "0 < snd q" "IsInt q"
  then show "rat_value q \<in> \<int>" using IsInt_Num [of q] by (metis Ints_of_int)
qed

end
