(* ===== verification/Go_Time.thy ===== *)
theory Go_Time
  imports Go_Strings
begin

text \<open>
  \<open>time.Parse(time.RFC3339, value)\<close>.  The library walks the layout
  \<open>2006-01-02T15:04:05Z07:00\<close> over the value: a four-digit year, two-digit month, an hour of
  one or two digits, an optional fraction of a second introduced by a period or a comma, and a
  zone that is \<open>Z\<close> or a signed offset whose hour may be 24 and whose minute may be 60.
  A parsed time is its Unix second and nanosecond.
\<close>

type_synonym go_time = "int \<times> nat"

definition is_leap :: "nat \<Rightarrow> bool" where
  "is_leap y \<longleftrightarrow> y mod 4 = 0 \<and> (y mod 100 \<noteq> 0 \<or> y mod 400 = 0)"

definition month_lengths :: "nat \<Rightarrow> nat list" where
  "month_lengths y = [31, if is_leap y then 29 else 28, 31, 30, 31, 30, 31, 31, 30, 31, 30, 31]"

definition daysIn :: "nat \<Rightarrow> nat \<Rightarrow> nat" where
  "daysIn m y = month_lengths y ! (m - 1)"

text \<open>Days from the first day of year 0 to the given date; 1970-01-01 is day 719528.\<close>

definition day_number :: "nat \<Rightarrow> nat \<Rightarrow> nat \<Rightarrow> nat" where
  "day_number y m d =
     365 * y + (y + 3) div 4 - (y + 99) div 100 + (y + 399) div 400
       + sum_list (take (m - 1) (month_lengths y)) + (d - 1)"

definition epoch_day :: int where "epoch_day = 719528"

text \<open>\<open>getnum\<close>: one or two digits, or exactly two.\<close>

definition getnum :: "bool \<Rightarrow> bytes \<Rightarrow> (nat \<times> bytes) option" where
  "getnum fixed s =
     (case s of
        [] \<Rightarrow> None
      | c # cs \<Rightarrow>
          if \<not> is_digit c then None
          else (case cs of
                  d # ds \<Rightarrow> if is_digit d then Some (digit_value c * 10 + digit_value d, ds)
                            else if fixed then None else Some (digit_value c, cs)
                | [] \<Rightarrow> if fixed then None else Some (digit_value c, [])))"

definition skip_byte :: "char \<Rightarrow> bytes \<Rightarrow> bytes option" where
  "skip_byte c s = (case s of d # ds \<Rightarrow> if d = c then Some ds else None | [] \<Rightarrow> None)"

definition get_year :: "bytes \<Rightarrow> (nat \<times> bytes) option" where
  "get_year s =
     (if 4 \<le> length s \<and> list_all is_digit (take 4 s)
      then Some (digits_value (take 4 s), drop 4 s) else None)"

text \<open>A fraction of a second, present when a period or comma is followed by a digit: its first nine digits count.\<close>

definition get_fraction :: "bytes \<Rightarrow> nat \<times> bytes" where
  "get_fraction s =
     (case s of
        c # d # ds \<Rightarrow>
          if (c = CHR ''.'' \<or> c = CHR '','') \<and> is_digit d then
            (let digs = takeWhile is_digit (d # ds); used = take 9 digs
             in (digits_value used * 10 ^ (9 - length used), dropWhile is_digit (d # ds)))
          else (0, s)
      | _ \<Rightarrow> (0, s))"

definition get_zone :: "bytes \<Rightarrow> (int \<times> bytes) option" where
  "get_zone s =
     (if s \<noteq> [] \<and> hd s = CHR ''Z'' then Some (0, tl s)
      else if length s < 6 \<or> s ! 3 \<noteq> CHR '':'' then None
      else (case (getnum True (take 2 (drop 1 s)), getnum True (take 2 (drop 4 s))) of
              (Some (hr, _), Some (mm, _)) \<Rightarrow>
                if 24 < hr \<or> 60 < mm then None
                else if s ! 0 = CHR ''+'' then Some (int ((hr * 60 + mm) * 60), drop 6 s)
                else if s ! 0 = CHR ''-'' then Some (- int ((hr * 60 + mm) * 60), drop 6 s)
                else None
            | _ \<Rightarrow> None))"

definition parse_date :: "bytes \<Rightarrow> (int \<times> bytes) option" where
  "parse_date s =
     Option.bind (get_year s) (\<lambda>(y, s).
     Option.bind (skip_byte (CHR ''-'') s) (\<lambda>s.
     Option.bind (getnum True s) (\<lambda>(m, s).
     Option.bind (skip_byte (CHR ''-'') s) (\<lambda>s.
     Option.bind (getnum True s) (\<lambda>(d, s).
       if m < 1 \<or> 12 < m \<or> d < 1 \<or> daysIn m y < d then None
       else Some (int (day_number y m d) - epoch_day, s))))))"

definition parse_clock :: "bytes \<Rightarrow> (nat \<times> nat \<times> bytes) option" where
  "parse_clock s =
     Option.bind (getnum False s) (\<lambda>(h, s).
     Option.bind (skip_byte (CHR '':'') s) (\<lambda>s.
     Option.bind (getnum True s) (\<lambda>(m, s).
     Option.bind (skip_byte (CHR '':'') s) (\<lambda>s.
     Option.bind (getnum True s) (\<lambda>(sec, s).
       if 24 \<le> h \<or> 60 \<le> m \<or> 60 \<le> sec then None
       else (case get_fraction s of
               (ns, r) \<Rightarrow> Some ((h * 60 + m) * 60 + sec, ns, r)))))))"

definition ParseRFC3339 :: "bytes \<Rightarrow> go_time option" where
  "ParseRFC3339 s =
     Option.bind (parse_date s) (\<lambda>(days, s).
     Option.bind (skip_byte (CHR ''T'') s) (\<lambda>s.
     Option.bind (parse_clock s) (\<lambda>(secs, ns, s).
     Option.bind (get_zone s) (\<lambda>(off, s).
       if s = [] then Some (days * 86400 + int secs - off, ns) else None))))"

section \<open>Instants\<close>

text \<open>
  A \<open>time.Time\<close> counts seconds from year 1 in a signed 64-bit integer; \<open>time.Unix\<close> adds the
  distance to 1970 to its argument, and that addition wraps.  The zero time is second 0 of
  that count.
\<close>

definition unixToInternal :: int where "unixToInternal = 62135596800"

definition wrap64 :: "int \<Rightarrow> int" where
  "wrap64 i = sint (word_of_int i :: 64 word)"

definition time_Unix :: "int \<Rightarrow> nat \<Rightarrow> go_time" where
  "time_Unix sec nsec = (wrap64 (sec + unixToInternal) - unixToInternal, nsec)"

text \<open>\<open>t.Unix()\<close>: the seconds counted since 1970, in 64 bits.\<close>

definition time_seconds :: "go_time \<Rightarrow> int" where
  "time_seconds t = wrap64 (fst t)"

definition zero_time :: go_time where "zero_time = (- unixToInternal, 0)"

definition IsZero :: "go_time \<Rightarrow> bool" where "IsZero t \<longleftrightarrow> t = zero_time"

definition Before :: "go_time \<Rightarrow> go_time \<Rightarrow> bool" where
  "Before a b \<longleftrightarrow> fst a < fst b \<or> (fst a = fst b \<and> snd a < snd b)"

definition After :: "go_time \<Rightarrow> go_time \<Rightarrow> bool" where
  "After a b \<longleftrightarrow> Before b a"

lemma wrap64_id: "- (2 ^ 63) \<le> i \<Longrightarrow> i < 2 ^ 63 \<Longrightarrow> wrap64 i = i"
  by (simp add: wrap64_def signed_take_bit_int_eq_self sint_sbintrunc')

lemma time_Unix_id: "- (2 ^ 62) \<le> s \<Longrightarrow> s < 2 ^ 62 \<Longrightarrow> time_Unix s n = (s, n)"
  by (simp add: time_Unix_def unixToInternal_def wrap64_id)

text \<open>The seconds a time is made of are read again, also where the sum with the year 1 wraps.\<close>

lemma time_seconds_Unix: "- (2 ^ 63) \<le> s \<Longrightarrow> s < 2 ^ 63 \<Longrightarrow> time_seconds (time_Unix s n) = s"
proof -
  assume s: "- (2 ^ 63) \<le> s" "s < 2 ^ 63"
  have "wrap64 (wrap64 a - b) = wrap64 (a - b)" for a b
    by (simp add: wrap64_def)
  then show ?thesis using wrap64_id [OF s] by (simp add: time_seconds_def time_Unix_def)
qed

lemma sint_small: "uint (w :: 64 word) < 2 ^ 63 \<Longrightarrow> sint w = uint w"
proof -
  assume "uint w < 2 ^ 63"
  moreover have "- (2 ^ 63) \<le> uint w" by (rule order_trans [OF _ uint_ge_0]) simp
  ultimately show "sint w = uint w"
    by (simp add: sint_uint signed_take_bit_int_eq_self)
qed

end
