(* ===== verification/Normalizer.thy ===== *)
theory Normalizer
  imports Record_Decoder Go_Rat Go_Time
begin

text \<open>
  The normalizer (\<open>internal/source/normalizer.go\<close>): one JSON record becomes counters,
  gauges and the number of values that were ignored or invalid.  The functions that take a
  \<open>*NormalizedRecord\<close> are state transformers of \<open>normalized_record\<close>, composed in the order
  \<open>NormalizeRecord\<close> calls them.  A Go map of raw values is the list of its assignments;
  a lookup is \<^const>\<open>alist_map\<close> and \<open>range\<close> visits each key of \<^const>\<open>alist_keys\<close> once.
  The zero value of an enumeration is its first constructor.
\<close>

section \<open>Data\<close>

datatype metric =
    NoMetric | MetricStorageIO | MetricFSOperations | MetricOpenFiles | MetricCacheDownloads
  | MetricCacheHits | MetricCacheUsage | MetricCacheUtilization | MetricMemoryVirtual

datatype component = NoComponent | ComponentLibfuse | ComponentAzStorage

datatype direction = NoDirection | DirectionRead | DirectionWrite

datatype operation =
    NoOperation | OperationCreateDir | OperationDeleteDir | OperationStreamDir
  | OperationRenameDir | OperationCreateFile | OperationDeleteFile | OperationRenameFile
  | OperationTruncateFile | OperationCreateLink | OperationReadLink | OperationSyncFile
  | OperationSyncDir | OperationChmod

record series =
  Metric :: metric
  Component :: component
  Direction :: direction
  Operation :: operation

definition zero_series :: series where
  "zero_series = \<lparr>Metric = NoMetric, Component = NoComponent, Direction = NoDirection,
     Operation = NoOperation\<rparr>"

record counter_value =
  counter_series :: series
  counter_count :: u64

record gauge_value =
  gauge_series :: series
  gauge_level :: f64

record normalized_record =
  Timestamp :: go_time
  HasTimestamp :: bool
  Counters :: "counter_value list"
  Gauges :: "gauge_value list"
  IgnoredValues :: nat
  InvalidValues :: nat

text \<open>The zero \<open>time.Time\<close> is the first day of year 1.\<close>

definition zero_normalized :: normalized_record where
  "zero_normalized = \<lparr>Timestamp = (- 62135596800, 0), HasTimestamp = False, Counters = [],
     Gauges = [], IgnoredValues = 0, InvalidValues = 0\<rparr>"

definition operationFields :: "(string \<times> operation) list" where
  "operationFields =
    [(''CreateDir'', OperationCreateDir),
     (''DeleteDir'', OperationDeleteDir),
     (''StreamDir'', OperationStreamDir),
     (''RenameDir'', OperationRenameDir),
     (''CreateFile'', OperationCreateFile),
     (''DeleteFile'', OperationDeleteFile),
     (''RenameFile'', OperationRenameFile),
     (''TruncateFile'', OperationTruncateFile),
     (''CreateLink'', OperationCreateLink),
     (''ReadLink'', OperationReadLink),
     (''SyncFile'', OperationSyncFile),
     (''SyncDir'', OperationSyncDir),
     (''Chmod'', OperationChmod)]"

definition maxExactSourceInteger :: int where
  "maxExactSourceInteger = 2 ^ 53"

section \<open>Counting and adding values\<close>

definition ignore_values :: "nat \<Rightarrow> normalized_record \<Rightarrow> normalized_record" where
  "ignore_values k n = n\<lparr>IgnoredValues := IgnoredValues n + k\<rparr>"

definition invalid_value :: "normalized_record \<Rightarrow> normalized_record" where
  "invalid_value n = n\<lparr>InvalidValues := InvalidValues n + 1\<rparr>"

definition append_counter :: "series \<Rightarrow> u64 \<Rightarrow> normalized_record \<Rightarrow> normalized_record" where
  "append_counter s v n =
     n\<lparr>Counters := Counters n @ [\<lparr>counter_series = s, counter_count = v\<rparr>]\<rparr>"

definition append_gauge :: "series \<Rightarrow> f64 \<Rightarrow> normalized_record \<Rightarrow> normalized_record" where
  "append_gauge s v n =
     n\<lparr>Gauges := Gauges n @ [\<lparr>gauge_series = s, gauge_level = v\<rparr>]\<rparr>"

definition count_unknown :: "(string \<Rightarrow> bool) \<Rightarrow> fields \<Rightarrow> normalized_record \<Rightarrow> normalized_record" where
  "count_unknown known fs n = ignore_values (length (filter (\<lambda>k. \<not> known k) (alist_keys fs))) n"

section \<open>Decoding and parsing values\<close>

definition decodeSourceValue :: "(bytes \<Rightarrow> decode_error + 'a) \<Rightarrow> bytes \<Rightarrow> 'a option" where
  "decodeSourceValue target raw0 =
     (let raw = TrimSpace raw0
      in if raw = [] \<or> raw = ''null'' then None
         else (case sole_value raw of
                 Inl e \<Rightarrow> None
               | Inr v \<Rightarrow>
                   (case target v of
                      Inl e \<Rightarrow> None
                    | Inr x \<Rightarrow> if only_space (value_rest raw) then Some x else None)))"

definition parseSourceInteger :: "bytes \<Rightarrow> u64 option" where
  "parseSourceInteger raw =
     (case decodeSourceValue decode_any raw of
        Some (AnyNumber number) \<Rightarrow>
          (case Rat_SetString number of
             None \<Rightarrow> None
           | Some rational \<Rightarrow>
               if \<not> IsInt rational \<or> fst rational < 0 \<or> maxExactSourceInteger < Num rational
               then None else Some (word_of_int (Num rational)))
      | _ \<Rightarrow> None)"

definition parseScaledNonNegative :: "bytes \<Rightarrow> f64 \<Rightarrow> f64 option" where
  "parseScaledNonNegative value multiplier =
     (case ParseFloat value of
        None \<Rightarrow> None
      | Some number \<Rightarrow>
          if IsNaN number \<or> IsInf number \<or> f64_negative number then None
          else (let scaled = f64_mult number multiplier
                in if IsNaN scaled \<or> IsInf scaled then None else Some scaled))"

definition one_percent :: f64 where
  "one_percent = round_ratio False 1 100"

definition parseCacheUsage :: "bytes \<Rightarrow> f64 option" where
  "parseCacheUsage value =
     (let fs = Fields value
      in if length fs \<noteq> 2 \<or> fs ! 1 \<noteq> ''MB'' then None
         else parseScaledNonNegative (fs ! 0) (f64_pow2 20))"

definition parsePercentage :: "bytes \<Rightarrow> f64 option" where
  "parsePercentage value0 =
     (let value = TrimSpace value0
      in if \<not> HasSuffix value ''%'' then None
         else parseScaledNonNegative (TrimSpace (TrimSuffix value ''%'')) one_percent)"

definition memory_shift :: "char \<Rightarrow> nat option" where
  "memory_shift c =
     (if c = CHR ''k'' \<or> c = CHR ''K'' then Some 10
      else if c = CHR ''m'' \<or> c = CHR ''M'' then Some 20
      else if c = CHR ''g'' \<or> c = CHR ''G'' then Some 30
      else if c = CHR ''t'' \<or> c = CHR ''T'' then Some 40
      else if c = CHR ''p'' \<or> c = CHR ''P'' then Some 50
      else if c = CHR ''e'' \<or> c = CHR ''E'' then Some 60
      else None)"

definition parseMemorySize :: "bytes \<Rightarrow> f64 option" where
  "parseMemorySize value0 =
     (let value = TrimSpace value0
      in if length value < 2 then None
         else (case memory_shift (last value) of
                 None \<Rightarrow> None
               | Some k \<Rightarrow> parseScaledNonNegative (TrimSpace (butlast value)) (f64_pow2 k)))"

section \<open>Fields of a map\<close>

definition addCounter :: "fields \<Rightarrow> string \<Rightarrow> series \<Rightarrow> normalized_record \<Rightarrow> normalized_record" where
  "addCounter values field s n =
     (case alist_map values field of
        None \<Rightarrow> n
      | Some raw \<Rightarrow>
          (case parseSourceInteger raw of
             None \<Rightarrow> invalid_value n
           | Some v \<Rightarrow> append_counter s v n))"

definition addIntegerGauge :: "fields \<Rightarrow> string \<Rightarrow> series \<Rightarrow> normalized_record \<Rightarrow> normalized_record" where
  "addIntegerGauge values field s n =
     (case alist_map values field of
        None \<Rightarrow> n
      | Some raw \<Rightarrow>
          (case parseSourceInteger raw of
             None \<Rightarrow> invalid_value n
           | Some v \<Rightarrow> append_gauge s (f64_of_nat (unat v)) n))"

definition addFormattedGauge ::
    "fields \<Rightarrow> string \<Rightarrow> series \<Rightarrow> (bytes \<Rightarrow> f64 option) \<Rightarrow> normalized_record \<Rightarrow> normalized_record" where
  "addFormattedGauge values field s parse n =
     (case alist_map values field of
        None \<Rightarrow> n
      | Some raw \<Rightarrow>
          (case decodeSourceValue decode_string raw of
             None \<Rightarrow> invalid_value n
           | Some sourceValue \<Rightarrow>
               (case parse sourceValue of
                  None \<Rightarrow> invalid_value n
                | Some v \<Rightarrow> append_gauge s v n)))"

definition isKnownTopLevelField :: "string \<Rightarrow> bool" where
  "isKnownTopLevelField f \<longleftrightarrow>
     f \<in> {''Timestamp'', ''BlobfuseStats'', ''FileCache'', ''CPUUsage'', ''MemoryUsage'', ''NetworkUsage''}"

definition isKnownMessageField :: "string \<Rightarrow> bool" where
  "isKnownMessageField f \<longleftrightarrow>
     f \<in> {''timestamp'', ''componentName'', ''operation'', ''path'', ''value''}"

definition isOperationField :: "string \<Rightarrow> bool" where
  "isOperationField f \<longleftrightarrow> list_ex (\<lambda>operation. fst operation = f) operationFields"

section \<open>Components of a message\<close>

definition normalizeAzStorage :: "fields \<Rightarrow> normalized_record \<Rightarrow> normalized_record" where
  "normalizeAzStorage values n0 =
     (let n1 = count_unknown (\<lambda>f. f = ''Bytes Downloaded'' \<or> f = ''Bytes Uploaded'' \<or> f = ''OpenFileHandles'') values n0;
          n2 = addCounter values ''Bytes Downloaded''
                 (zero_series\<lparr>Metric := MetricStorageIO, Direction := DirectionRead\<rparr>) n1;
          n3 = addCounter values ''Bytes Uploaded''
                 (zero_series\<lparr>Metric := MetricStorageIO, Direction := DirectionWrite\<rparr>) n2
      in addIntegerGauge values ''OpenFileHandles''
           (zero_series\<lparr>Metric := MetricOpenFiles, Component := ComponentAzStorage\<rparr>) n3)"

definition normalizeLibfuse :: "fields \<Rightarrow> normalized_record \<Rightarrow> normalized_record" where
  "normalizeLibfuse values n0 =
     (let n1 = count_unknown (\<lambda>f. f = ''OpenFileHandles'' \<or> isOperationField f) values n0;
          n2 = addIntegerGauge values ''OpenFileHandles''
                 (zero_series\<lparr>Metric := MetricOpenFiles, Component := ComponentLibfuse\<rparr>) n1
      in foldl (\<lambda>n (name, op).
           addCounter values name (zero_series\<lparr>Metric := MetricFSOperations, Operation := op\<rparr>) n)
           n2 operationFields)"

definition normalizeFileCache :: "fields \<Rightarrow> normalized_record \<Rightarrow> normalized_record" where
  "normalizeFileCache values n0 =
     (let n1 = count_unknown
                 (\<lambda>f. f \<in> {''Files Downloaded'', ''Files served from cache'', ''Cache Usage'', ''Usage Percent''})
                 values n0;
          n2 = addCounter values ''Files Downloaded'' (zero_series\<lparr>Metric := MetricCacheDownloads\<rparr>) n1;
          n3 = addCounter values ''Files served from cache'' (zero_series\<lparr>Metric := MetricCacheHits\<rparr>) n2;
          n4 = addFormattedGauge values ''Cache Usage'' (zero_series\<lparr>Metric := MetricCacheUsage\<rparr>)
                 parseCacheUsage n3
      in addFormattedGauge values ''Usage Percent'' (zero_series\<lparr>Metric := MetricCacheUtilization\<rparr>)
           parsePercentage n4)"

definition validate_string :: "bytes option \<Rightarrow> normalized_record \<Rightarrow> normalized_record" where
  "validate_string raw n =
     (case raw of
        None \<Rightarrow> n
      | Some r \<Rightarrow> if decodeSourceValue decode_string r = None then invalid_value n else n)"

definition validateEventFields :: "fields \<Rightarrow> normalized_record \<Rightarrow> normalized_record" where
  "validateEventFields fs n0 =
     (let n1 = foldl (\<lambda>n field. validate_string (alist_map fs field) n) n0
                 [''timestamp'', ''componentName'', ''operation'', ''path'']
      in case alist_map fs ''value'' of
           None \<Rightarrow> n1
         | Some raw \<Rightarrow>
             (case decodeSourceValue decode_object raw of
                Some (Some v) \<Rightarrow> n1
              | _ \<Rightarrow> invalid_value n1))"

definition validateMessageTimestamp :: "bytes option \<Rightarrow> normalized_record \<Rightarrow> normalized_record" where
  "validateMessageTimestamp raw n =
     (case raw of
        None \<Rightarrow> n
      | Some r \<Rightarrow>
          (case decodeSourceValue decode_string r of
             None \<Rightarrow> invalid_value n
           | Some v \<Rightarrow> if ParseRFC3339 v = None then invalid_value n else n))"

definition normalize_component :: "string \<Rightarrow> fields \<Rightarrow> normalized_record \<Rightarrow> normalized_record" where
  "normalize_component component values n =
     (if component = ''azstorage'' then normalizeAzStorage values n
      else if component = ''libfuse'' then normalizeLibfuse values n
      else if component = ''file_cache'' then normalizeFileCache values n
      else ignore_values 1 n)"

text \<open>The part of \<open>normalizeBlobfuseMessage\<close> after the event check: a component and its values.\<close>

definition normalize_values :: "fields \<Rightarrow> normalized_record \<Rightarrow> normalized_record" where
  "normalize_values fs n =
     (case alist_map fs ''componentName'' of
        None \<Rightarrow> ignore_values 1 n
      | Some componentRaw \<Rightarrow>
          (case decodeSourceValue decode_string componentRaw of
             None \<Rightarrow> invalid_value n
           | Some component \<Rightarrow>
               (case alist_map fs ''value'' of
                  None \<Rightarrow> ignore_values 1 n
                | Some valuesRaw \<Rightarrow>
                    (case decodeSourceValue decode_object valuesRaw of
                       Some (Some values) \<Rightarrow> normalize_component component values n
                     | _ \<Rightarrow> invalid_value n))))"

definition normalizeBlobfuseMessage :: "bytes \<Rightarrow> normalized_record \<Rightarrow> normalized_record" where
  "normalizeBlobfuseMessage raw n0 =
     (case decodeSourceValue decode_object raw of
        Some (Some fs) \<Rightarrow>
          (let n1 = count_unknown isKnownMessageField fs n0
           in if alist_map fs ''operation'' \<noteq> None \<or> alist_map fs ''path'' \<noteq> None
              then ignore_values 1 (validateEventFields fs n1)
              else normalize_values fs (validateMessageTimestamp (alist_map fs ''timestamp'') n1))
      | _ \<Rightarrow> invalid_value n0)"

section \<open>A record\<close>

definition normalizeTimestamp :: "bytes option \<Rightarrow> normalized_record \<Rightarrow> normalized_record" where
  "normalizeTimestamp raw n =
     (case raw of
        None \<Rightarrow> n
      | Some r \<Rightarrow>
          (case decodeSourceValue decode_string r of
             None \<Rightarrow> invalid_value n
           | Some v \<Rightarrow>
               (case ParseRFC3339 v of
                  None \<Rightarrow> invalid_value n
                | Some t \<Rightarrow> n\<lparr>Timestamp := t, HasTimestamp := True\<rparr>)))"

definition normalizeBlobfuseStats :: "bytes option \<Rightarrow> normalized_record \<Rightarrow> normalized_record" where
  "normalizeBlobfuseStats raw n =
     (case raw of
        None \<Rightarrow> n
      | Some r \<Rightarrow>
          (case decodeSourceValue decode_array r of
             None \<Rightarrow> invalid_value n
           | Some messages \<Rightarrow> foldl (\<lambda>n m. normalizeBlobfuseMessage m n) n messages))"

definition normalizeMemory :: "bytes option \<Rightarrow> normalized_record \<Rightarrow> normalized_record" where
  "normalizeMemory raw n =
     (case raw of
        None \<Rightarrow> n
      | Some r \<Rightarrow>
          (case decodeSourceValue decode_string r of
             None \<Rightarrow> invalid_value n
           | Some v \<Rightarrow>
               (case parseMemorySize v of
                  None \<Rightarrow> invalid_value n
                | Some b \<Rightarrow> append_gauge (zero_series\<lparr>Metric := MetricMemoryVirtual\<rparr>) b n)))"

definition normalizeUnsupportedArray :: "bytes option \<Rightarrow> normalized_record \<Rightarrow> normalized_record" where
  "normalizeUnsupportedArray raw n =
     (case raw of
        None \<Rightarrow> n
      | Some r \<Rightarrow>
          (case decodeSourceValue decode_array r of
             None \<Rightarrow> invalid_value n
           | Some vs \<Rightarrow> ignore_values (length vs) n))"

definition normalizeUnsupportedString :: "bytes option \<Rightarrow> normalized_record \<Rightarrow> normalized_record" where
  "normalizeUnsupportedString raw n =
     (case raw of
        None \<Rightarrow> n
      | Some r \<Rightarrow>
          (case decodeSourceValue decode_string r of
             None \<Rightarrow> invalid_value n
           | Some v \<Rightarrow> ignore_values 1 n))"

definition normalize_fields :: "fields \<Rightarrow> normalized_record" where
  "normalize_fields fs =
     (let n0 = count_unknown isKnownTopLevelField fs zero_normalized;
          n1 = normalizeTimestamp (alist_map fs ''Timestamp'') n0;
          n2 = normalizeBlobfuseStats (alist_map fs ''BlobfuseStats'') n1;
          n3 = normalizeUnsupportedArray (alist_map fs ''FileCache'') n2;
          n4 = normalizeUnsupportedString (alist_map fs ''CPUUsage'') n3;
          n5 = normalizeMemory (alist_map fs ''MemoryUsage'') n4
      in normalizeUnsupportedString (alist_map fs ''NetworkUsage'') n5)"

definition NormalizeRecord :: "source_record \<Rightarrow> error + normalized_record" where
  "NormalizeRecord r =
     (case Record_Decode r of
        Inl e \<Rightarrow> Inl (Wrap ''normalize source record'' [e])
      | Inr None \<Rightarrow> Inl (Text ''normalize source record: expected object'')
      | Inr (Some fs) \<Rightarrow> Inr (normalize_fields fs))"

end
