(* ===== verification/Descriptor.thy ===== *)
theory Descriptor
  imports Normalizer
begin

text \<open>
  \<open>internal/metrics/descriptor.go\<close>: the fixed table from a series to its metric name, unit,
  instrument kind and attribute.  A series outside the table is an error, so no string of
  the source ever becomes a metric name or an attribute.
\<close>

definition AttributeComponentName :: string where
  "AttributeComponentName = ''azure.blobfuse.component.name''"

definition AttributeIODirection :: string where
  "AttributeIODirection = ''azure.blobfuse.io.direction''"

definition AttributeOperationName :: string where
  "AttributeOperationName = ''azure.blobfuse.operation.name''"

datatype instrument_kind =
    NoInstrument | InstrumentCounter | InstrumentGauge | InstrumentObservableUpDownCounter

record descriptor =
  Name :: string
  Description :: string
  Unit :: string
  Kind :: instrument_kind

record attribute =
  Key :: string
  Value :: string

fun metric_code :: "metric \<Rightarrow> nat" where
  "metric_code NoMetric = 0"
| "metric_code MetricStorageIO = 1"
| "metric_code MetricFSOperations = 2"
| "metric_code MetricOpenFiles = 3"
| "metric_code MetricCacheDownloads = 4"
| "metric_code MetricCacheHits = 5"
| "metric_code MetricCacheUsage = 6"
| "metric_code MetricCacheUtilization = 7"
| "metric_code MetricMemoryVirtual = 8"

fun component_code :: "component \<Rightarrow> nat" where
  "component_code NoComponent = 0"
| "component_code ComponentLibfuse = 1"
| "component_code ComponentAzStorage = 2"

fun direction_code :: "direction \<Rightarrow> nat" where
  "direction_code NoDirection = 0"
| "direction_code DirectionRead = 1"
| "direction_code DirectionWrite = 2"

fun operation_code :: "operation \<Rightarrow> nat" where
  "operation_code NoOperation = 0"
| "operation_code OperationCreateDir = 1"
| "operation_code OperationDeleteDir = 2"
| "operation_code OperationStreamDir = 3"
| "operation_code OperationRenameDir = 4"
| "operation_code OperationCreateFile = 5"
| "operation_code OperationDeleteFile = 6"
| "operation_code OperationRenameFile = 7"
| "operation_code OperationTruncateFile = 8"
| "operation_code OperationCreateLink = 9"
| "operation_code OperationReadLink = 10"
| "operation_code OperationSyncFile = 11"
| "operation_code OperationSyncDir = 12"
| "operation_code OperationChmod = 13"

definition invalidSeries :: "series \<Rightarrow> error" where
  "invalidSeries s =
     Text (''unsupported metric series: metric='' @ digits_of (metric_code (Metric s))
       @ '' component='' @ digits_of (component_code (Component s))
       @ '' direction='' @ digits_of (direction_code (Direction s))
       @ '' operation='' @ digits_of (operation_code (Operation s)))"

fun directionName :: "direction \<Rightarrow> string option" where
  "directionName DirectionRead = Some ''read''"
| "directionName DirectionWrite = Some ''write''"
| "directionName _ = None"

fun componentName :: "component \<Rightarrow> string option" where
  "componentName ComponentLibfuse = Some ''libfuse''"
| "componentName ComponentAzStorage = Some ''azstorage''"
| "componentName _ = None"

fun operationName :: "operation \<Rightarrow> string option" where
  "operationName OperationCreateDir = Some ''create_dir''"
| "operationName OperationDeleteDir = Some ''delete_dir''"
| "operationName OperationStreamDir = Some ''stream_dir''"
| "operationName OperationRenameDir = Some ''rename_dir''"
| "operationName OperationCreateFile = Some ''create_file''"
| "operationName OperationDeleteFile = Some ''delete_file''"
| "operationName OperationRenameFile = Some ''rename_file''"
| "operationName OperationTruncateFile = Some ''truncate_file''"
| "operationName OperationCreateLink = Some ''create_link''"
| "operationName OperationReadLink = Some ''read_link''"
| "operationName OperationSyncFile = Some ''sync_file''"
| "operationName OperationSyncDir = Some ''sync_dir''"
| "operationName OperationChmod = Some ''chmod''"
| "operationName _ = None"

definition descriptorWithoutAttributes :: "series \<Rightarrow> descriptor \<Rightarrow> error + (descriptor \<times> attribute list)" where
  "descriptorWithoutAttributes s d =
     (if Component s \<noteq> NoComponent \<or> Direction s \<noteq> NoDirection \<or> Operation s \<noteq> NoOperation
      then Inl (invalidSeries s) else Inr (d, []))"

definition DescribeSeries :: "series \<Rightarrow> error + (descriptor \<times> attribute list)" where
  "DescribeSeries s =
     (case Metric s of
        MetricStorageIO \<Rightarrow>
          if Component s \<noteq> NoComponent \<or> Operation s \<noteq> NoOperation then Inl (invalidSeries s)
          else (case directionName (Direction s) of
                  None \<Rightarrow> Inl (invalidSeries s)
                | Some d \<Rightarrow> Inr (\<lparr>Name = ''azure.blobfuse.storage.io'',
                    Description = ''Bytes transferred between BlobFuse and Azure Storage'',
                    Unit = ''By'', Kind = InstrumentCounter\<rparr>,
                    [\<lparr>Key = AttributeIODirection, Value = d\<rparr>]))
      | MetricFSOperations \<Rightarrow>
          if Component s \<noteq> NoComponent \<or> Direction s \<noteq> NoDirection then Inl (invalidSeries s)
          else (case operationName (Operation s) of
                  None \<Rightarrow> Inl (invalidSeries s)
                | Some p \<Rightarrow> Inr (\<lparr>Name = ''azure.blobfuse.fs.operations'',
                    Description = ''Filesystem operations observed at BlobFuse's libfuse boundary'',
                    Unit = ''{operation}'', Kind = InstrumentCounter\<rparr>,
                    [\<lparr>Key = AttributeOperationName, Value = p\<rparr>]))
      | MetricOpenFiles \<Rightarrow>
          if Direction s \<noteq> NoDirection \<or> Operation s \<noteq> NoOperation then Inl (invalidSeries s)
          else (case componentName (Component s) of
                  None \<Rightarrow> Inl (invalidSeries s)
                | Some c \<Rightarrow> Inr (\<lparr>Name = ''azure.blobfuse.file.open'',
                    Description = ''Current open file handles reported by a BlobFuse component'',
                    Unit = ''{file}'', Kind = InstrumentGauge\<rparr>,
                    [\<lparr>Key = AttributeComponentName, Value = c\<rparr>]))
      | MetricCacheDownloads \<Rightarrow>
          descriptorWithoutAttributes s \<lparr>Name = ''azure.blobfuse.cache.file.downloads'',
            Description = ''Files downloaded into the whole-file cache'',
            Unit = ''{file}'', Kind = InstrumentCounter\<rparr>
      | MetricCacheHits \<Rightarrow>
          descriptorWithoutAttributes s \<lparr>Name = ''azure.blobfuse.cache.hits'',
            Description = ''Open requests served from the whole-file cache'',
            Unit = ''{hit}'', Kind = InstrumentCounter\<rparr>
      | MetricCacheUsage \<Rightarrow>
          descriptorWithoutAttributes s \<lparr>Name = ''azure.blobfuse.cache.usage'',
            Description = ''Current disk usage reported by the whole-file cache policy'',
            Unit = ''By'', Kind = InstrumentGauge\<rparr>
      | MetricCacheUtilization \<Rightarrow>
          descriptorWithoutAttributes s \<lparr>Name = ''azure.blobfuse.cache.utilization'',
            Description = ''Fraction of the configured whole-file cache limit in use'',
            Unit = ''1'', Kind = InstrumentGauge\<rparr>
      | MetricMemoryVirtual \<Rightarrow>
          descriptorWithoutAttributes s \<lparr>Name = ''process.memory.virtual'',
            Description = ''Committed virtual memory of the monitored BlobFuse process'',
            Unit = ''By'', Kind = InstrumentObservableUpDownCounter\<rparr>
      | NoMetric \<Rightarrow> Inl (invalidSeries s))"

section \<open>Properties of the table\<close>

text \<open>The kind of instrument a series is described with, if it is described.\<close>

definition described_as :: "series \<Rightarrow> instrument_kind \<Rightarrow> bool" where
  "described_as s k \<longleftrightarrow> (case DescribeSeries s of Inl e \<Rightarrow> False | Inr (d, as) \<Rightarrow> Kind d = k)"

lemma directionName_inj: "directionName a = Some x \<Longrightarrow> directionName b = Some x \<Longrightarrow> a = b"
proof -
  have "directionName a = directionName b \<Longrightarrow> directionName a \<noteq> None \<Longrightarrow> a = b" by (cases a; cases b; simp)
  then show "directionName a = Some x \<Longrightarrow> directionName b = Some x \<Longrightarrow> a = b" by simp
qed

lemma componentName_inj: "componentName a = Some x \<Longrightarrow> componentName b = Some x \<Longrightarrow> a = b"
proof -
  have "componentName a = componentName b \<Longrightarrow> componentName a \<noteq> None \<Longrightarrow> a = b" by (cases a; cases b; simp)
  then show "componentName a = Some x \<Longrightarrow> componentName b = Some x \<Longrightarrow> a = b" by simp
qed

lemma operationName_inj: "operationName a = Some x \<Longrightarrow> operationName b = Some x \<Longrightarrow> a = b"
proof -
  have "operationName a = operationName b \<Longrightarrow> operationName a \<noteq> None \<Longrightarrow> a = b" by (cases a; cases b; simp)
  then show "operationName a = Some x \<Longrightarrow> operationName b = Some x \<Longrightarrow> a = b" by simp
qed

text \<open>The kind and name of a described series depend on its metric alone.\<close>

fun metric_kind :: "metric \<Rightarrow> instrument_kind" where
  "metric_kind NoMetric = NoInstrument"
| "metric_kind MetricOpenFiles = InstrumentGauge"
| "metric_kind MetricCacheUsage = InstrumentGauge"
| "metric_kind MetricCacheUtilization = InstrumentGauge"
| "metric_kind MetricMemoryVirtual = InstrumentObservableUpDownCounter"
| "metric_kind _ = InstrumentCounter"

lemma DescribeSeries_kind: "DescribeSeries s = Inr (d, as) \<Longrightarrow> Kind d = metric_kind (Metric s)"
  by (cases "Metric s")
     (auto simp: DescribeSeries_def descriptorWithoutAttributes_def split: if_splits option.splits)

lemma series_describable_cases:
  "DescribeSeries s = Inr (d, as) \<Longrightarrow> Metric s \<noteq> NoMetric \<and>
     (Component s \<noteq> NoComponent \<longrightarrow> Metric s = MetricOpenFiles) \<and>
     (Direction s \<noteq> NoDirection \<longrightarrow> Metric s = MetricStorageIO) \<and>
     (Operation s \<noteq> NoOperation \<longrightarrow> Metric s = MetricFSOperations)"
  by (cases "Metric s")
     (auto simp: DescribeSeries_def descriptorWithoutAttributes_def split: if_splits option.splits)

text \<open>A described metric has one name, and no two metrics share it.\<close>

fun metric_name :: "metric \<Rightarrow> string" where
  "metric_name NoMetric = []"
| "metric_name MetricStorageIO = ''azure.blobfuse.storage.io''"
| "metric_name MetricFSOperations = ''azure.blobfuse.fs.operations''"
| "metric_name MetricOpenFiles = ''azure.blobfuse.file.open''"
| "metric_name MetricCacheDownloads = ''azure.blobfuse.cache.file.downloads''"
| "metric_name MetricCacheHits = ''azure.blobfuse.cache.hits''"
| "metric_name MetricCacheUsage = ''azure.blobfuse.cache.usage''"
| "metric_name MetricCacheUtilization = ''azure.blobfuse.cache.utilization''"
| "metric_name MetricMemoryVirtual = ''process.memory.virtual''"

lemma metric_name_inj: "metric_name a = metric_name b \<longleftrightarrow> a = b"
  by (cases a; cases b; simp)

lemma DescribeSeries_name: "DescribeSeries s = Inr (d, as) \<Longrightarrow> Name d = metric_name (Metric s)"
  by (cases "Metric s")
     (auto simp: DescribeSeries_def descriptorWithoutAttributes_def split: if_splits option.splits)

lemma DescribeSeries_attributes:
  "DescribeSeries s = Inr (d, as) \<Longrightarrow>
     map Value as = List.map_filter (\<lambda>x. x)
       [directionName (Direction s), operationName (Operation s), componentName (Component s)]"
  by (cases "Metric s")
     (auto simp: DescribeSeries_def descriptorWithoutAttributes_def List.map_filter_def
       split: if_splits option.splits)

lemma DescribeSeries_distinct:
  assumes "DescribeSeries s = Inr (d, as)" "DescribeSeries t = Inr (d', as')"
    and "Name d = Name d'" "as = as'"
  shows "s = t"
proof -
  have m: "Metric s = Metric t"
    using assms DescribeSeries_name metric_name_inj by metis
  show ?thesis
    using assms m
    by (cases "Metric s"; cases s; cases t)
       (auto simp: DescribeSeries_def descriptorWithoutAttributes_def
         split: if_splits option.splits dest: directionName_inj componentName_inj operationName_inj)
qed

end
