(* ===== verification/Metric_State.thy ===== *)
theory Metric_State
  imports Descriptor
begin

text \<open>
  \<open>internal/metrics/state.go\<close>: the per-session counter baselines and gauges.  \<open>Apply\<close> turns
  the absolute counters of one normalized record into increments and resets; its loops are
  folds over the record's counters and gauges in order.  The mutex makes every operation
  atomic, so each is a function of the state.
\<close>

record counter_increment =
  inc_series :: series
  Delta :: u64

record counter_reset =
  reset_series :: series
  Previous :: u64
  Current :: u64

record gauge_update =
  update_series :: series
  update_level :: f64

record apply_result =
  CounterIncrements :: "counter_increment list"
  CounterResets :: "counter_reset list"
  GaugeUpdates :: "gauge_update list"

definition empty_result :: apply_result where
  "empty_result = \<lparr>CounterIncrements = [], CounterResets = [], GaugeUpdates = []\<rparr>"

record metric_state =
  counterBaselines :: "series \<rightharpoonup> u64"
  gauges :: "series \<rightharpoonup> f64"

definition NewState :: metric_state where
  "NewState = \<lparr>counterBaselines = Map.empty, gauges = Map.empty\<rparr>"

text \<open>One turn of the loop over the counters.\<close>

definition apply_counter ::
    "record_mode \<Rightarrow> metric_state \<times> apply_result \<Rightarrow> counter_value \<Rightarrow> metric_state \<times> apply_result" where
  "apply_counter mode acc counter =
     (case acc of (st, res) \<Rightarrow>
        let s = counter_series counter;
            value = counter_count counter;
            st' = st\<lparr>counterBaselines := (counterBaselines st)(s \<mapsto> value)\<rparr>
        in case counterBaselines st s of
             None \<Rightarrow> (st', res)
           | Some previous \<Rightarrow>
               if mode = RecordModeBaseline \<or> value = previous then (st', res)
               else if value < previous then
                 (st', res\<lparr>CounterResets := CounterResets res
                        @ [\<lparr>reset_series = s, Previous = previous, Current = value\<rparr>]\<rparr>)
               else
                 (st', res\<lparr>CounterIncrements := CounterIncrements res
                        @ [\<lparr>inc_series = s, Delta = value - previous\<rparr>]\<rparr>))"

definition apply_gauge ::
    "metric_state \<times> apply_result \<Rightarrow> gauge_value \<Rightarrow> metric_state \<times> apply_result" where
  "apply_gauge acc gauge =
     (case acc of (st, res) \<Rightarrow>
        (st\<lparr>gauges := (gauges st)(gauge_series gauge \<mapsto> gauge_level gauge)\<rparr>,
         res\<lparr>GaugeUpdates := GaugeUpdates res
               @ [\<lparr>update_series = gauge_series gauge, update_level = gauge_level gauge\<rparr>]\<rparr>))"

definition Apply ::
    "record_mode \<Rightarrow> normalized_record \<Rightarrow> metric_state \<Rightarrow> metric_state \<times> apply_result" where
  "Apply mode n st =
     foldl apply_gauge (foldl (apply_counter mode) (st, empty_result) (Counters n)) (Gauges n)"

text \<open>The two accessors return copies; maps are values here.\<close>

definition CounterBaselines :: "metric_state \<Rightarrow> (series \<rightharpoonup> u64)" where
  "CounterBaselines st = counterBaselines st"

definition state_Gauges :: "metric_state \<Rightarrow> (series \<rightharpoonup> f64)" where
  "state_Gauges st = gauges st"

text \<open>\<open>ClearGauges\<close> visits the gauges in the given order and deletes each.\<close>

definition ClearGauges :: "series list \<Rightarrow> metric_state \<Rightarrow> metric_state \<times> series list" where
  "ClearGauges order st =
     foldl (\<lambda>(st, removed) s. (st\<lparr>gauges := (gauges st)(s := None)\<rparr>, removed @ [s])) (st, []) order"

section \<open>Counters\<close>

lemma apply_gauge_counters:
  "foldl apply_gauge (st, res) gs =
     (st\<lparr>gauges := foldl (\<lambda>m g. m(gauge_series g \<mapsto> gauge_level g)) (gauges st) gs\<rparr>,
      res\<lparr>GaugeUpdates := GaugeUpdates res
            @ map (\<lambda>g. \<lparr>update_series = gauge_series g, update_level = gauge_level g\<rparr>) gs\<rparr>)"
  by (induction gs arbitrary: st res) (auto simp: apply_gauge_def)

lemma apply_counter_gauges:
  "foldl (apply_counter mode) (st, res) cs = (st', res') \<Longrightarrow>
     gauges st' = gauges st \<and> GaugeUpdates res' = GaugeUpdates res"
proof (induction cs arbitrary: st res)
  case (Cons c cs)
  obtain st1 res1 where 1: "apply_counter mode (st, res) c = (st1, res1)" by force
  then have "gauges st1 = gauges st \<and> GaugeUpdates res1 = GaugeUpdates res"
    by (auto simp: apply_counter_def Let_def split: option.splits if_splits)
  with Cons 1 show ?case by simp
qed simp

text \<open>What the increments and resets of a result say of one series.\<close>

definition increased :: "series \<Rightarrow> apply_result \<Rightarrow> int" where
  "increased s res =
     sum_list (map (\<lambda>i. if inc_series i = s then uint (Delta i) else 0) (CounterIncrements res))"

definition dropped :: "series \<Rightarrow> apply_result \<Rightarrow> int" where
  "dropped s res =
     sum_list (map (\<lambda>r. if reset_series r = s then uint (Previous r) - uint (Current r) else 0)
       (CounterResets res))"

definition baseline :: "metric_state \<Rightarrow> series \<Rightarrow> int" where
  "baseline st s = (case counterBaselines st s of None \<Rightarrow> 0 | Some v \<Rightarrow> uint v)"

lemma uint_minus_word: "(b::u64) \<le> a \<Longrightarrow> uint (a - b) = uint a - uint b"
  by (simp add: uint_minus_simple_alt)

text \<open>A counter seen before balances: the new baseline is the old one, plus what was added, less what was dropped.\<close>

lemma apply_counter_balance:
  assumes "apply_counter RecordModeLive (st, res) c = (st', res')" "counterBaselines st s \<noteq> None"
  shows "counterBaselines st' s \<noteq> None \<and>
     baseline st' s - (increased s res' - dropped s res')
       = baseline st s - (increased s res - dropped s res)"
proof (cases "counter_series c = s")
  case False
  with assms show ?thesis
    by (auto simp: apply_counter_def baseline_def increased_def dropped_def Let_def
        split: option.splits if_splits)
next
  case True
  with assms obtain p where p: "counterBaselines st s = Some p" by auto
  show ?thesis
    using assms True p
    by (auto simp: apply_counter_def baseline_def increased_def dropped_def Let_def uint_minus_word
        split: if_splits)
qed

lemma apply_counters_balance:
  "foldl (apply_counter RecordModeLive) (st, res) cs = (st', res') \<Longrightarrow>
     counterBaselines st s \<noteq> None \<Longrightarrow>
     counterBaselines st' s \<noteq> None \<and>
     baseline st' s - (increased s res' - dropped s res')
       = baseline st s - (increased s res - dropped s res)"
proof (induction cs arbitrary: st res)
  case (Cons c cs)
  obtain st1 res1 where 1: "apply_counter RecordModeLive (st, res) c = (st1, res1)" by force
  have b: "counterBaselines st1 s \<noteq> None"
    "baseline st1 s - (increased s res1 - dropped s res1)
       = baseline st s - (increased s res - dropped s res)"
    using apply_counter_balance [OF 1 Cons.prems(2)] by blast+
  have "foldl (apply_counter RecordModeLive) (st1, res1) cs = (st', res')"
    using Cons.prems 1 by simp
  from Cons.IH [OF this b(1)] b(2) show ?case by simp
qed simp

lemma empty_result_sums [simp]: "increased s empty_result = 0" "dropped s empty_result = 0"
  by (simp_all add: increased_def dropped_def empty_result_def)

lemma Apply_split:
  assumes "Apply mode n st = (st', res')"
  obtains st1 res1 where "foldl (apply_counter mode) (st, empty_result) (Counters n) = (st1, res1)"
    "counterBaselines st' = counterBaselines st1"
    "CounterIncrements res' = CounterIncrements res1" "CounterResets res' = CounterResets res1"
    "gauges st' = foldl (\<lambda>m g. m(gauge_series g \<mapsto> gauge_level g)) (gauges st) (Gauges n)"
    "GaugeUpdates res' =
       map (\<lambda>g. \<lparr>update_series = gauge_series g, update_level = gauge_level g\<rparr>) (Gauges n)"
proof -
  obtain st1 res1 where 1: "foldl (apply_counter mode) (st, empty_result) (Counters n) = (st1, res1)"
    by force
  have "gauges st1 = gauges st" "GaugeUpdates res1 = []"
    using apply_counter_gauges [OF 1] by (simp_all add: empty_result_def)
  with assms 1 show ?thesis
    by (intro that [OF 1]) (auto simp: Apply_def apply_gauge_counters)
qed

lemma Apply_balance:
  assumes "Apply RecordModeLive n st = (st', res)" "counterBaselines st s \<noteq> None"
  shows "counterBaselines st' s \<noteq> None \<and>
     baseline st' s = baseline st s + increased s res - dropped s res"
proof -
  obtain st1 res1 where 1:
    "foldl (apply_counter RecordModeLive) (st, empty_result) (Counters n) = (st1, res1)"
    "counterBaselines st' = counterBaselines st1"
    "CounterIncrements res = CounterIncrements res1" "CounterResets res = CounterResets res1"
    using assms(1) by (rule Apply_split)
  have "increased s res = increased s res1" "dropped s res = dropped s res1"
    "baseline st' s = baseline st1 s"
    by (simp_all add: increased_def dropped_def baseline_def 1)
  with apply_counters_balance [OF 1(1) assms(2)] 1(2) show ?thesis by simp
qed

text \<open>The first report of a series sets its baseline and reports no increment for it.\<close>

lemma apply_counters_baseline_mode:
  "foldl (apply_counter RecordModeBaseline) (st, res) cs = (st', res') \<Longrightarrow> res' = res"
proof (induction cs arbitrary: st res)
  case (Cons c cs)
  then show ?case
    by (cases "counterBaselines st (counter_series c)") (auto simp: apply_counter_def Let_def)
qed simp

lemma apply_counters_last:
  "foldl (apply_counter mode) (st, res) cs = (st', res') \<Longrightarrow>
     counterBaselines st' =
       foldl (\<lambda>m c. m(counter_series c \<mapsto> counter_count c)) (counterBaselines st) cs"
proof (induction cs arbitrary: st res)
  case (Cons c cs)
  obtain st1 res1 where 1: "apply_counter mode (st, res) c = (st1, res1)" by force
  then have "counterBaselines st1 = (counterBaselines st)(counter_series c \<mapsto> counter_count c)"
    by (auto simp: apply_counter_def Let_def split: option.splits if_splits)
  with Cons 1 show ?case by simp
qed simp

text \<open>Every increment is positive and every reset goes down, and their series come from the record.\<close>

definition result_ok :: "series set \<Rightarrow> apply_result \<Rightarrow> bool" where
  "result_ok S res \<longleftrightarrow>
     (\<forall>i \<in> set (CounterIncrements res). 0 < Delta i \<and> inc_series i \<in> S) \<and>
     (\<forall>r \<in> set (CounterResets res). Current r < Previous r \<and> reset_series r \<in> S)"

lemma apply_counter_result_ok:
  assumes "apply_counter mode (st, res) c = (st', res')" "result_ok S res" "counter_series c \<in> S"
  shows "result_ok S res'"
proof (cases "counterBaselines st (counter_series c)")
  case None
  with assms show ?thesis by (simp add: apply_counter_def Let_def)
next
  case (Some p)
  have "\<not> counter_count c < p \<Longrightarrow> counter_count c \<noteq> p \<Longrightarrow> 0 < counter_count c - p"
    by (metis eq_iff_diff_eq_0 word_gt_0)
  with assms Some show ?thesis
    by (auto simp: apply_counter_def Let_def result_ok_def split: if_splits)
qed

lemma apply_counters_result_ok:
  "foldl (apply_counter mode) (st, res) cs = (st', res') \<Longrightarrow> result_ok S res \<Longrightarrow>
     counter_series ` set cs \<subseteq> S \<Longrightarrow> result_ok S res'"
proof (induction cs arbitrary: st res)
  case (Cons c cs)
  obtain st1 res1 where 1: "apply_counter mode (st, res) c = (st1, res1)" by force
  have "result_ok S res1"
    using apply_counter_result_ok [OF 1] Cons.prems by auto
  with Cons 1 show ?case by auto
qed simp

lemma Apply_result_ok:
  assumes "Apply mode n st = (st', res)"
  shows "result_ok (counter_series ` set (Counters n)) res"
proof -
  obtain st1 res1 where 1:
    "foldl (apply_counter mode) (st, empty_result) (Counters n) = (st1, res1)"
    "CounterIncrements res = CounterIncrements res1" "CounterResets res = CounterResets res1"
    using assms by (rule Apply_split)
  have "result_ok (counter_series ` set (Counters n)) empty_result"
    by (simp add: result_ok_def empty_result_def)
  then have "result_ok (counter_series ` set (Counters n)) res1"
    by (rule apply_counters_result_ok [OF 1(1)]) simp
  then show ?thesis by (simp add: result_ok_def 1)
qed

section \<open>Gauges\<close>

lemma ClearGauges_fold:
  "foldl (\<lambda>(st, removed) s. (st\<lparr>gauges := (gauges st)(s := None)\<rparr>, removed @ [s])) (st, xs) order =
     (st\<lparr>gauges := gauges st |` (- set order)\<rparr>, xs @ order)"
  by (induction order arbitrary: st xs) (auto simp: restrict_map_def fun_eq_iff)

lemma ClearGauges_run:
  "enumerates order (gauges st) \<Longrightarrow> ClearGauges order st = (st\<lparr>gauges := Map.empty\<rparr>, order)"
  by (auto simp: ClearGauges_def ClearGauges_fold enumerates_def restrict_map_def fun_eq_iff domIff
      intro!: metric_state.equality)

section \<open>A sequence of records\<close>

fun apply_all ::
    "record_mode \<Rightarrow> normalized_record list \<Rightarrow> metric_state \<Rightarrow> metric_state \<times> apply_result list" where
  "apply_all mode [] st = (st, [])"
| "apply_all mode (n # ns) st =
     (case Apply mode n st of
        (st1, res) \<Rightarrow> (case apply_all mode ns st1 of (st', rs) \<Rightarrow> (st', res # rs)))"

lemma apply_all_balance:
  "apply_all RecordModeLive ns st = (st', rs) \<Longrightarrow> counterBaselines st s \<noteq> None \<Longrightarrow>
     baseline st' s = baseline st s + sum_list (map (increased s) rs) - sum_list (map (dropped s) rs)"
proof (induction ns arbitrary: st rs)
  case (Cons n ns)
  obtain st1 res where 1: "Apply RecordModeLive n st = (st1, res)" by force
  obtain rs' where 2: "apply_all RecordModeLive ns st1 = (st', rs')" "rs = res # rs'"
    using Cons.prems(1) 1 by (auto split: prod.splits)
  from Apply_balance [OF 1 Cons.prems(2)] Cons.IH [OF 2(1)] show ?case by (simp add: 2(2))
qed simp

lemma Apply_baselines:
  assumes "Apply mode n st = (st', res)"
  shows "counterBaselines st' =
    foldl (\<lambda>m c. m(counter_series c \<mapsto> counter_count c)) (counterBaselines st) (Counters n)"
proof -
  obtain st1 res1 where
    "foldl (apply_counter mode) (st, empty_result) (Counters n) = (st1, res1)"
    "counterBaselines st' = counterBaselines st1"
    using assms by (rule Apply_split)
  then show ?thesis using apply_counters_last by simp
qed

lemma Apply_baseline_silent:
  assumes "Apply RecordModeBaseline n st = (st', res)"
  shows "CounterIncrements res = [] \<and> CounterResets res = []"
proof -
  obtain st1 res1 where
    "foldl (apply_counter RecordModeBaseline) (st, empty_result) (Counters n) = (st1, res1)"
    "CounterIncrements res = CounterIncrements res1" "CounterResets res = CounterResets res1"
    using assms by (rule Apply_split)
  then show ?thesis using apply_counters_baseline_mode by (fastforce simp: empty_result_def)
qed

end
