(* ===== verification/Processor.thy ===== *)
theory Processor
  imports Metric_State
begin

text \<open>
  \<open>internal/metrics/processor.go\<close>: a record is normalized, applied to the metric state and
  counted, and the observer is told.  The observer is a state transformer of the caller's
  state, as a callback that cannot fail is; the processor's fields are a record.
\<close>

datatype record_outcome = NoOutcome | RecordAccepted | RecordIgnored | RecordInvalid

record processed_record =
  Outcome :: record_outcome
  ProcIgnoredValues :: nat
  ProcInvalidValues :: nat
  Metrics :: apply_result

record processing_stats =
  AcceptedRecords :: u64
  IgnoredRecords :: u64
  InvalidRecords :: u64
  TotalIgnoredValues :: u64
  TotalInvalidValues :: u64
  TotalCounterResets :: u64

definition zero_stats :: processing_stats where
  "zero_stats = \<lparr>AcceptedRecords = 0, IgnoredRecords = 0, InvalidRecords = 0,
     TotalIgnoredValues = 0, TotalInvalidValues = 0, TotalCounterResets = 0\<rparr>"

record 'o processor =
  proc_state :: metric_state
  proc_observer :: "(processed_record \<Rightarrow> 'o \<Rightarrow> 'o) option"
  stats :: processing_stats

definition NewProcessor ::
    "metric_state option \<Rightarrow> (processed_record \<Rightarrow> 'o \<Rightarrow> 'o) option \<Rightarrow> error + 'o processor" where
  "NewProcessor st obs =
     (case st of
        None \<Rightarrow> Inl (Text ''metric state is required'')
      | Some s \<Rightarrow> Inr \<lparr>proc_state = s, proc_observer = obs, stats = zero_stats\<rparr>)"

definition recordStats :: "processed_record \<Rightarrow> 'o processor \<Rightarrow> 'o processor" where
  "recordStats processed p =
     (let s0 = stats p;
          s1 = (case Outcome processed of
                  RecordAccepted \<Rightarrow> s0\<lparr>AcceptedRecords := AcceptedRecords s0 + 1\<rparr>
                | RecordIgnored \<Rightarrow> s0\<lparr>IgnoredRecords := IgnoredRecords s0 + 1\<rparr>
                | RecordInvalid \<Rightarrow> s0\<lparr>InvalidRecords := InvalidRecords s0 + 1\<rparr>
                | NoOutcome \<Rightarrow> s0);
          s2 = s1\<lparr>TotalIgnoredValues := TotalIgnoredValues s1 + of_nat (ProcIgnoredValues processed),
                  TotalInvalidValues := TotalInvalidValues s1 + of_nat (ProcInvalidValues processed),
                  TotalCounterResets := TotalCounterResets s1
                    + of_nat (length (CounterResets (Metrics processed)))\<rparr>
      in p\<lparr>stats := s2\<rparr>)"

definition notify :: "processed_record \<Rightarrow> 'o processor \<Rightarrow> 'o \<Rightarrow> 'o" where
  "notify processed p obs = (case proc_observer p of None \<Rightarrow> obs | Some f \<Rightarrow> f processed obs)"

definition rejected_record :: processed_record where
  "rejected_record = \<lparr>Outcome = RecordInvalid, ProcIgnoredValues = 0, ProcInvalidValues = 1,
     Metrics = empty_result\<rparr>"

definition outcome_of :: "normalized_record \<Rightarrow> record_outcome" where
  "outcome_of n =
     (if 0 < length (Counters n) + length (Gauges n) then RecordAccepted
      else if 0 < InvalidValues n then RecordInvalid
      else RecordIgnored)"

definition Process ::
    "record_mode \<Rightarrow> source_record \<Rightarrow> 'o processor \<times> 'o \<Rightarrow> error option \<times> 'o processor \<times> 'o" where
  "Process mode r w =
     (case w of (p, obs) \<Rightarrow>
        case NormalizeRecord r of
          Inl err \<Rightarrow>
            (let p' = recordStats rejected_record p
             in (Some err, p', notify rejected_record p' obs))
        | Inr n \<Rightarrow>
            (let (st', res) = Apply mode n (proc_state p);
                 processed = \<lparr>Outcome = outcome_of n, ProcIgnoredValues = IgnoredValues n,
                   ProcInvalidValues = InvalidValues n, Metrics = res\<rparr>;
                 p' = recordStats processed (p\<lparr>proc_state := st'\<rparr>)
             in (None, p', notify processed p' obs)))"

definition AttachObserver ::
    "(processed_record \<Rightarrow> 'o \<Rightarrow> 'o) option \<Rightarrow> 'o processor \<Rightarrow> error option \<times> 'o processor" where
  "AttachObserver obs p =
     (case obs of
        None \<Rightarrow> (Some (Text ''record observer is required''), p)
      | Some f \<Rightarrow>
          if proc_observer p \<noteq> None then (Some (Text ''record observer is already attached''), p)
          else (None, p\<lparr>proc_observer := Some f\<rparr>))"

definition processor_Stats :: "'o processor \<Rightarrow> processing_stats" where
  "processor_Stats p = stats p"

definition processor_State :: "'o processor option \<Rightarrow> metric_state option" where
  "processor_State p = map_option proc_state p"

section \<open>Counting records\<close>

definition records_counted :: "processing_stats \<Rightarrow> u64" where
  "records_counted s = AcceptedRecords s + IgnoredRecords s + InvalidRecords s"

lemma recordStats_counts:
  "Outcome processed \<noteq> NoOutcome \<Longrightarrow>
     records_counted (stats (recordStats processed p)) = records_counted (stats p) + 1"
  by (cases "Outcome processed")
     (auto simp: recordStats_def records_counted_def Let_def algebra_simps)

lemma recordStats_frame [simp]:
  "proc_state (recordStats processed p) = proc_state p"
  "proc_observer (recordStats processed p) = proc_observer p"
  by (simp_all add: recordStats_def Let_def)

lemma recordStats_resets [simp]:
  "TotalCounterResets (stats (recordStats processed p)) =
     TotalCounterResets (stats p) + of_nat (length (CounterResets (Metrics processed)))"
  "TotalInvalidValues (stats (recordStats processed p)) =
     TotalInvalidValues (stats p) + of_nat (ProcInvalidValues processed)"
  "TotalIgnoredValues (stats (recordStats processed p)) =
     TotalIgnoredValues (stats p) + of_nat (ProcIgnoredValues processed)"
  by (cases "Outcome processed"; simp add: recordStats_def Let_def)+

lemma outcome_of_counted [simp]: "outcome_of n \<noteq> NoOutcome"
  by (simp add: outcome_of_def)

text \<open>The two ways a record is processed.\<close>

lemma Process_cases:
  obtains (rejected) e where "NormalizeRecord r = Inl e"
      "Process mode r (p, obs) = (Some e, recordStats rejected_record p,
         notify rejected_record p obs)"
  | (applied) n st' res where "NormalizeRecord r = Inr n" "Apply mode n (proc_state p) = (st', res)"
      "Process mode r (p, obs) =
         (None,
          recordStats \<lparr>Outcome = outcome_of n, ProcIgnoredValues = IgnoredValues n,
            ProcInvalidValues = InvalidValues n, Metrics = res\<rparr> (p\<lparr>proc_state := st'\<rparr>),
          notify \<lparr>Outcome = outcome_of n, ProcIgnoredValues = IgnoredValues n,
            ProcInvalidValues = InvalidValues n, Metrics = res\<rparr> p obs)"
proof (cases "NormalizeRecord r")
  case (Inl e)
  then show ?thesis
    by (intro rejected [OF Inl]) (simp add: Process_def Let_def notify_def)
next
  case (Inr n)
  obtain st' res where "Apply mode n (proc_state p) = (st', res)" by force
  with Inr show ?thesis
    by (intro applied [OF Inr]) (simp_all add: Process_def Let_def notify_def)
qed

text \<open>A run of the handler over a sequence of records, all in one mode.\<close>

fun process_all ::
    "record_mode \<Rightarrow> source_record list \<Rightarrow> 'o processor \<times> 'o \<Rightarrow> 'o processor \<times> 'o" where
  "process_all mode [] w = w"
| "process_all mode (r # rs) w = process_all mode rs (snd (Process mode r w))"

lemma process_all_counts:
  "process_all mode rs (p, obs) = (p', obs') \<Longrightarrow>
     records_counted (stats p') = records_counted (stats p) + of_nat (length rs)"
proof (induction rs arbitrary: p obs)
  case (Cons r rs)
  show ?case
  proof (cases rule: Process_cases [of r mode p obs])
    case (rejected e)
    with Cons.prems have "process_all mode rs
        (recordStats rejected_record p, notify rejected_record p obs) = (p', obs')" by simp
    from Cons.IH [OF this] show ?thesis
      by (simp add: recordStats_counts rejected_record_def)
  next
    case (applied n st' res)
    from Cons.IH [of "fst (snd (Process mode r (p, obs)))" "snd (snd (Process mode r (p, obs)))"]
      Cons.prems
    show ?thesis by (simp add: applied(3) recordStats_counts)
  qed
qed simp

end
