(* ===== verification/Recorder.thy ===== *)
theory Recorder
  imports Processor
begin

text \<open>
  \<open>internal/metrics/otel.go\<close> and \<open>self.go\<close>: the recorders that hand values to the
  OpenTelemetry SDK.  The SDK is not part of the repository; a meter is a parameter that
  accepts or refuses to create an instrument, and what a recorder does is the list of the
  points it passes to \<open>Add\<close> and \<open>ObserveFloat64\<close>, an instrument being named by its descriptor.
\<close>

record 'v point =
  point_instrument :: string
  point_value :: 'v
  point_attributes :: "attribute list"

section \<open>The source metric recorder\<close>

record otel_recorder =
  otel_counters :: "metric \<rightharpoonup> descriptor"
  otel_gauges :: "metric \<rightharpoonup> descriptor"
  otel_upDownCounters :: "metric \<rightharpoonup> descriptor"
  registered :: bool
  droppedInvalidSeries :: u64

definition representativeSeries :: "series list" where
  "representativeSeries =
    [zero_series\<lparr>Metric := MetricStorageIO, Direction := DirectionRead\<rparr>,
     zero_series\<lparr>Metric := MetricFSOperations, Operation := OperationCreateFile\<rparr>,
     zero_series\<lparr>Metric := MetricOpenFiles, Component := ComponentLibfuse\<rparr>,
     zero_series\<lparr>Metric := MetricCacheDownloads\<rparr>,
     zero_series\<lparr>Metric := MetricCacheHits\<rparr>,
     zero_series\<lparr>Metric := MetricCacheUsage\<rparr>,
     zero_series\<lparr>Metric := MetricCacheUtilization\<rparr>,
     zero_series\<lparr>Metric := MetricMemoryVirtual\<rparr>]"

type_synonym meter = "descriptor \<Rightarrow> error option"

definition add_instrument :: "meter \<Rightarrow> series \<Rightarrow> otel_recorder \<Rightarrow> error + otel_recorder" where
  "add_instrument meter s rec =
     (case DescribeSeries s of
        Inl e \<Rightarrow> Inl e
      | Inr (d, _) \<Rightarrow>
          (case Kind d of
             InstrumentCounter \<Rightarrow>
               if otel_counters rec (Metric s) \<noteq> None then Inr rec
               else (case meter d of
                       Some e \<Rightarrow> Inl e
                     | None \<Rightarrow> Inr (rec\<lparr>otel_counters := (otel_counters rec)(Metric s \<mapsto> d)\<rparr>))
           | InstrumentGauge \<Rightarrow>
               (case meter d of
                  Some e \<Rightarrow> Inl e
                | None \<Rightarrow> Inr (rec\<lparr>otel_gauges := (otel_gauges rec)(Metric s \<mapsto> d)\<rparr>))
           | InstrumentObservableUpDownCounter \<Rightarrow>
               (case meter d of
                  Some e \<Rightarrow> Inl e
                | None \<Rightarrow> Inr (rec\<lparr>otel_upDownCounters := (otel_upDownCounters rec)(Metric s \<mapsto> d)\<rparr>))
           | NoInstrument \<Rightarrow> Inr rec))"

fun add_instruments :: "meter \<Rightarrow> series list \<Rightarrow> otel_recorder \<Rightarrow> error + otel_recorder" where
  "add_instruments meter [] rec = Inr rec"
| "add_instruments meter (s # ss) rec =
     (case add_instrument meter s rec of
        Inl e \<Rightarrow> Inl e
      | Inr rec' \<Rightarrow> add_instruments meter ss rec')"

definition empty_recorder :: otel_recorder where
  "empty_recorder = \<lparr>otel_counters = Map.empty, otel_gauges = Map.empty,
     otel_upDownCounters = Map.empty, registered = False, droppedInvalidSeries = 0\<rparr>"

text \<open>The last argument is the SDK's answer to registering the callback.\<close>

definition NewOTelRecorder ::
    "meter option \<Rightarrow> metric_state option \<Rightarrow> error option \<Rightarrow> error + otel_recorder" where
  "NewOTelRecorder meter st registration =
     (case meter of
        None \<Rightarrow> Inl (Text ''OpenTelemetry meter is required'')
      | Some m \<Rightarrow>
          if st = None then Inl (Text ''metric state is required'')
          else (case add_instruments m representativeSeries empty_recorder of
                  Inl e \<Rightarrow> Inl e
                | Inr rec \<Rightarrow>
                    (case registration of
                       Some e \<Rightarrow> Inl e
                     | None \<Rightarrow> Inr (rec\<lparr>registered := True\<rparr>))))"

definition metricAttributeSet :: "series \<Rightarrow> attribute list option" where
  "metricAttributeSet s = (case DescribeSeries s of Inl e \<Rightarrow> None | Inr (d, as) \<Rightarrow> Some as)"

definition recordInvalidSeries :: "otel_recorder \<Rightarrow> otel_recorder" where
  "recordInvalidSeries rec = rec\<lparr>droppedInvalidSeries := droppedInvalidSeries rec + 1\<rparr>"

definition DroppedInvalidSeries :: "otel_recorder \<Rightarrow> u64" where
  "DroppedInvalidSeries rec = droppedInvalidSeries rec"

text \<open>\<open>Record\<close>, one increment at a time; the delta is converted to a signed 64-bit integer.\<close>

definition record_increment ::
    "otel_recorder \<times> int point list \<Rightarrow> counter_increment \<Rightarrow> otel_recorder \<times> int point list" where
  "record_increment w inc =
     (case w of (rec, points) \<Rightarrow>
        case (otel_counters rec (Metric (inc_series inc)), metricAttributeSet (inc_series inc)) of
          (Some instrument, Some attributes) \<Rightarrow>
            (rec, points @ [\<lparr>point_instrument = Name instrument, point_value = sint (Delta inc),
                             point_attributes = attributes\<rparr>])
        | _ \<Rightarrow> (recordInvalidSeries rec, points))"

definition otel_Record :: "processed_record \<Rightarrow> otel_recorder \<Rightarrow> otel_recorder \<times> int point list" where
  "otel_Record processed rec =
     foldl record_increment (rec, []) (CounterIncrements (Metrics processed))"

definition observe_gauge ::
    "(series \<rightharpoonup> f64) \<Rightarrow> otel_recorder \<times> f64 point list \<Rightarrow> series \<Rightarrow> otel_recorder \<times> f64 point list" where
  "observe_gauge gs w s =
     (case w of (rec, points) \<Rightarrow>
        case gs s of
          None \<Rightarrow> (rec, points)
        | Some value \<Rightarrow>
            (case metricAttributeSet s of
               None \<Rightarrow> (recordInvalidSeries rec, points)
             | Some attributes \<Rightarrow>
                 (case otel_gauges rec (Metric s) of
                    Some instrument \<Rightarrow>
                      (rec, points @ [\<lparr>point_instrument = Name instrument, point_value = value,
                                       point_attributes = attributes\<rparr>])
                  | None \<Rightarrow>
                      (case otel_upDownCounters rec (Metric s) of
                         Some instrument \<Rightarrow>
                           (rec, points @ [\<lparr>point_instrument = Name instrument, point_value = value,
                                            point_attributes = attributes\<rparr>])
                       | None \<Rightarrow> (recordInvalidSeries rec, points)))))"

definition observeGauges ::
    "series list \<Rightarrow> metric_state \<Rightarrow> otel_recorder \<Rightarrow> otel_recorder \<times> f64 point list" where
  "observeGauges order st rec = foldl (observe_gauge (state_Gauges st)) (rec, []) order"

text \<open>Closing unregisters the callback; the argument is the SDK's answer.\<close>

definition otel_Close :: "error option \<Rightarrow> otel_recorder option \<Rightarrow> error option" where
  "otel_Close unregister rec =
     (case rec of None \<Rightarrow> None | Some r \<Rightarrow> if registered r then unregister else None)"

section \<open>The recorder of the exporter's own metrics\<close>

datatype discontinuity_reason =
    DiscontinuityGenerationMissing | DiscontinuityGenerationTruncated
  | DiscontinuityOversizeRecord | DiscontinuityStaleGeneration | DiscontinuityUncleanClose
  | OtherDiscontinuity string

fun discontinuity_text :: "discontinuity_reason \<Rightarrow> string" where
  "discontinuity_text DiscontinuityGenerationMissing = ''generation_missing''"
| "discontinuity_text DiscontinuityGenerationTruncated = ''generation_truncated''"
| "discontinuity_text DiscontinuityOversizeRecord = ''oversize_record''"
| "discontinuity_text DiscontinuityStaleGeneration = ''stale_generation''"
| "discontinuity_text DiscontinuityUncleanClose = ''unclean_close''"
| "discontinuity_text (OtherDiscontinuity s) = s"

datatype export_error_type =
    ExportErrorTimeout | ExportErrorTransport | ExportErrorShutdown | OtherExportError string

fun export_error_text :: "export_error_type \<Rightarrow> string" where
  "export_error_text ExportErrorTimeout = ''timeout''"
| "export_error_text ExportErrorTransport = ''transport''"
| "export_error_text ExportErrorShutdown = ''shutdown''"
| "export_error_text (OtherExportError s) = s"

fun recordOutcomeName :: "record_outcome \<Rightarrow> string option" where
  "recordOutcomeName RecordAccepted = Some ''accepted''"
| "recordOutcomeName RecordIgnored = Some ''ignored''"
| "recordOutcomeName RecordInvalid = Some ''invalid''"
| "recordOutcomeName NoOutcome = None"

fun validDiscontinuityReason :: "discontinuity_reason \<Rightarrow> bool" where
  "validDiscontinuityReason (OtherDiscontinuity s) = False"
| "validDiscontinuityReason r = True"

fun validExportErrorType :: "export_error_type \<Rightarrow> bool" where
  "validExportErrorType (OtherExportError s) = False"
| "validExportErrorType r = True"

text \<open>The five counters the constructor creates, in order; a refused one ends it.\<close>

definition self_instruments :: "descriptor list" where
  "self_instruments =
    [\<lparr>Name = ''blobfuse_health_exporter.source.records'',
      Description = ''Source records processed by the adapter'', Unit = ''{record}'', Kind = InstrumentCounter\<rparr>,
     \<lparr>Name = ''blobfuse_health_exporter.source.rotations'',
      Description = ''Report generations discovered after live cutover'', Unit = ''{rotation}'', Kind = InstrumentCounter\<rparr>,
     \<lparr>Name = ''blobfuse_health_exporter.source.discontinuities'',
      Description = ''Discontinuities in the report source'', Unit = ''{discontinuity}'', Kind = InstrumentCounter\<rparr>,
     \<lparr>Name = ''blobfuse_health_exporter.source.counter_resets'',
      Description = ''Source counter decreases observed after live cutover'', Unit = ''{reset}'', Kind = InstrumentCounter\<rparr>,
     \<lparr>Name = ''blobfuse_health_exporter.export.errors'',
      Description = ''Metric export errors'', Unit = ''{error}'', Kind = InstrumentCounter\<rparr>]"

fun first_refusal :: "meter \<Rightarrow> descriptor list \<Rightarrow> error option" where
  "first_refusal meter [] = None"
| "first_refusal meter (d # ds) = (case meter d of Some e \<Rightarrow> Some e | None \<Rightarrow> first_refusal meter ds)"

record self_recorder =
  sourceRecords :: string
  sourceRotations :: string
  sourceDiscontinuities :: string
  sourceCounterResets :: string
  exportErrors :: string

definition NewSelfRecorder :: "meter option \<Rightarrow> error + self_recorder" where
  "NewSelfRecorder meter =
     (case meter of
        None \<Rightarrow> Inl (Text ''OpenTelemetry meter is required'')
      | Some m \<Rightarrow>
          (case first_refusal m self_instruments of
             Some e \<Rightarrow> Inl e
           | None \<Rightarrow> Inr \<lparr>sourceRecords = Name (self_instruments ! 0),
                 sourceRotations = Name (self_instruments ! 1),
                 sourceDiscontinuities = Name (self_instruments ! 2),
                 sourceCounterResets = Name (self_instruments ! 3),
                 exportErrors = Name (self_instruments ! 4)\<rparr>))"

definition addRecordOutcome :: "record_outcome \<Rightarrow> u64 \<Rightarrow> self_recorder option \<Rightarrow> int point list" where
  "addRecordOutcome outcome count rec =
     (case rec of
        None \<Rightarrow> []
      | Some r \<Rightarrow>
          if count = 0 then []
          else (case recordOutcomeName outcome of
                  None \<Rightarrow> []
                | Some name \<Rightarrow> [\<lparr>point_instrument = sourceRecords r, point_value = sint count,
                     point_attributes = [\<lparr>Key = ''outcome'', Value = name\<rparr>]\<rparr>]))"

definition RecordProcessingStats :: "processing_stats \<Rightarrow> self_recorder option \<Rightarrow> int point list" where
  "RecordProcessingStats s rec =
     addRecordOutcome RecordAccepted (AcceptedRecords s) rec
     @ addRecordOutcome RecordIgnored (IgnoredRecords s) rec
     @ addRecordOutcome RecordInvalid (InvalidRecords s) rec"

definition reset_point :: "self_recorder \<Rightarrow> counter_reset \<Rightarrow> int point list" where
  "reset_point r reset =
     (case DescribeSeries (reset_series reset) of
        Inl e \<Rightarrow> []
      | Inr (d, _) \<Rightarrow>
          if Kind d \<noteq> InstrumentCounter then []
          else [\<lparr>point_instrument = sourceCounterResets r, point_value = 1,
                 point_attributes = [\<lparr>Key = ''source.metric'', Value = Name d\<rparr>]\<rparr>])"

definition self_Record :: "processed_record \<Rightarrow> self_recorder option \<Rightarrow> int point list" where
  "self_Record processed rec =
     (case rec of
        None \<Rightarrow> []
      | Some r \<Rightarrow>
          addRecordOutcome (Outcome processed) 1 rec
          @ concat (map (reset_point r) (CounterResets (Metrics processed))))"

definition RecordRotations :: "int \<Rightarrow> self_recorder option \<Rightarrow> int point list" where
  "RecordRotations count rec =
     (case rec of
        None \<Rightarrow> []
      | Some r \<Rightarrow> if count \<le> 0 then []
                  else [\<lparr>point_instrument = sourceRotations r, point_value = count,
                         point_attributes = []\<rparr>])"

definition RecordDiscontinuity :: "discontinuity_reason \<Rightarrow> self_recorder option \<Rightarrow> int point list" where
  "RecordDiscontinuity reason rec =
     (case rec of
        None \<Rightarrow> []
      | Some r \<Rightarrow>
          if \<not> validDiscontinuityReason reason then []
          else [\<lparr>point_instrument = sourceDiscontinuities r, point_value = 1,
                 point_attributes = [\<lparr>Key = ''reason'', Value = discontinuity_text reason\<rparr>]\<rparr>])"

definition RecordExportError :: "export_error_type \<Rightarrow> self_recorder option \<Rightarrow> int point list" where
  "RecordExportError t rec =
     (case rec of
        None \<Rightarrow> []
      | Some r \<Rightarrow>
          if \<not> validExportErrorType t then []
          else [\<lparr>point_instrument = exportErrors r, point_value = 1,
                 point_attributes = [\<lparr>Key = ''error.type'', Value = export_error_text t\<rparr>]\<rparr>])"

lemma NewSelfRecorder_names:
  "NewSelfRecorder m = Inr r \<Longrightarrow>
     sourceCounterResets r = ''blobfuse_health_exporter.source.counter_resets''
     \<and> sourceRecords r = ''blobfuse_health_exporter.source.records''"
  by (auto simp: NewSelfRecorder_def self_instruments_def split: option.splits)

section \<open>A recorder that was created covers the table\<close>

definition recorder_ok :: "otel_recorder \<Rightarrow> bool" where
  "recorder_ok rec \<longleftrightarrow>
     (\<forall>m. metric_kind m = InstrumentCounter \<longrightarrow>
            (\<exists>d. otel_counters rec m = Some d \<and> Name d = metric_name m)) \<and>
     (\<forall>m. metric_kind m = InstrumentGauge \<longrightarrow>
            (\<exists>d. otel_gauges rec m = Some d \<and> Name d = metric_name m)) \<and>
     (\<forall>m. metric_kind m = InstrumentObservableUpDownCounter \<longrightarrow> otel_gauges rec m = None \<and>
            (\<exists>d. otel_upDownCounters rec m = Some d \<and> Name d = metric_name m))"

lemma metric_all: "(\<forall>m. P m) \<longleftrightarrow>
    P NoMetric \<and> P MetricStorageIO \<and> P MetricFSOperations \<and> P MetricOpenFiles \<and>
    P MetricCacheDownloads \<and> P MetricCacheHits \<and> P MetricCacheUsage \<and>
    P MetricCacheUtilization \<and> P MetricMemoryVirtual"
  by (metis metric.exhaust)

lemma NewOTelRecorder_ok:
  assumes "NewOTelRecorder meter st reg = Inr rec"
  shows "recorder_ok rec \<and> droppedInvalidSeries rec = 0 \<and> registered rec"
proof -
  obtain m rec' where m: "meter = Some m"
    "add_instruments m representativeSeries empty_recorder = Inr rec'" "rec = rec'\<lparr>registered := True\<rparr>"
    using assms by (auto simp: NewOTelRecorder_def split: option.splits if_splits sum.splits)
  have "recorder_ok rec' \<and> droppedInvalidSeries rec' = 0"
    using m(2)
    by (auto simp: representativeSeries_def add_instrument_def empty_recorder_def DescribeSeries_def
        descriptorWithoutAttributes_def zero_series_def recorder_ok_def metric_all
        split: option.splits if_splits)
  then show ?thesis by (simp add: m(3) recorder_ok_def)
qed

lemma record_increment_described:
  assumes "recorder_ok rec" "described_as (inc_series inc) InstrumentCounter"
  shows "\<exists>as. record_increment (rec, points) inc =
    (rec, points @ [\<lparr>point_instrument = metric_name (Metric (inc_series inc)),
       point_value = sint (Delta inc), point_attributes = as\<rparr>])
    \<and> metricAttributeSet (inc_series inc) = Some as"
proof -
  obtain d as where d: "DescribeSeries (inc_series inc) = Inr (d, as)" "Kind d = InstrumentCounter"
    using assms(2) by (auto simp: described_as_def split: sum.splits)
  then have "metric_kind (Metric (inc_series inc)) = InstrumentCounter"
    using DescribeSeries_kind by simp
  then obtain d' where "otel_counters rec (Metric (inc_series inc)) = Some d'"
    "Name d' = metric_name (Metric (inc_series inc))"
    using assms(1) by (auto simp: recorder_ok_def)
  with d show ?thesis by (simp add: record_increment_def metricAttributeSet_def)
qed

definition increment_point :: "counter_increment \<Rightarrow> int point" where
  "increment_point inc =
     \<lparr>point_instrument = metric_name (Metric (inc_series inc)), point_value = sint (Delta inc),
      point_attributes = the (metricAttributeSet (inc_series inc))\<rparr>"

lemma otel_Record_described:
  assumes "recorder_ok rec"
    and "\<forall>i \<in> set (CounterIncrements (Metrics processed)). described_as (inc_series i) InstrumentCounter"
  shows "otel_Record processed rec
    = (rec, map increment_point (CounterIncrements (Metrics processed)))"
proof -
  have "\<forall>i \<in> set is. described_as (inc_series i) InstrumentCounter \<Longrightarrow>
      foldl record_increment (rec, ps) is = (rec, ps @ map increment_point is)" for "is" ps
  proof (induction "is" arbitrary: ps)
    case (Cons i "is")
    obtain as where "record_increment (rec, ps) i = (rec, ps @
        [\<lparr>point_instrument = metric_name (Metric (inc_series i)),
          point_value = sint (Delta i), point_attributes = as\<rparr>])"
      "metricAttributeSet (inc_series i) = Some as"
      using record_increment_described [OF assms(1), of i ps] Cons.prems by auto
    with Cons show ?case by (simp add: increment_point_def)
  qed simp
  from this [OF assms(2)] show ?thesis by (simp add: otel_Record_def)
qed

end
