(* ===== verification/Normalizer_Facts.thy ===== *)
theory Normalizer_Facts
  imports Descriptor
begin

text \<open>
  What normalization guarantees.  \<open>normalized_ok\<close> is the invariant every step keeps: each
  counter has a described counter series and a value of at most \<open>2^53\<close>, each gauge a described
  gauge series and a finite value that is not negative.  \<open>accounted\<close> counts what a record was
  turned into, and the counting lemmas show that no field of a component's values is lost.
\<close>

section \<open>Numbers\<close>

definition gauge_level_ok :: "f64 \<Rightarrow> bool" where
  "gauge_level_ok f \<longleftrightarrow> \<not> IsNaN f \<and> \<not> IsInf f \<and> \<not> f64_negative f \<and> f64_normal f"

lemma parseSourceInteger_exact:
  assumes "parseSourceInteger raw = Some v"
  shows "\<exists>number. decodeSourceValue decode_any raw = Some (AnyNumber number)
    \<and> real (unat v) = number_value number \<and> unat v \<le> 2 ^ 53"
proof -
  obtain number q where d: "decodeSourceValue decode_any raw = Some (AnyNumber number)"
    "Rat_SetString number = Some q" "IsInt q" "0 \<le> fst q" "Num q \<le> maxExactSourceInteger"
    "v = word_of_int (Num q)"
    using assms by (auto simp: parseSourceInteger_def split: option.splits any_value.splits if_splits)
  have q: "rat_value q = number_value number" "0 < snd q"
    using Rat_SetString_value [OF d(2)] by auto
  have n: "0 \<le> Num q" using d(4) q(2) by (simp add: Num_def div_int_pos_iff)
  have "Num q < 2 ^ 64" using d(5) by (simp add: maxExactSourceInteger_def)
  then have u: "uint v = Num q"
    using n by (simp add: d(6) uint_word_of_int take_bit_int_eq_self)
  then have "int (unat v) = Num q" by simp
  then have "real (unat v) = real_of_int (Num q)" by (metis of_int_of_nat_eq)
  moreover have "unat v \<le> 2 ^ 53"
    using u d(5) by (simp add: maxExactSourceInteger_def unat_eq_nat_uint nat_le_iff)
  ultimately show ?thesis using d(1) IsInt_Num [OF q(2) d(3)] q(1) by auto
qed

lemma parseSourceInteger_complete:
  assumes "decodeSourceValue decode_any raw = Some (AnyNumber number)"
    and "Rat_SetString number = Some q" and "number_value number = real v" and "v \<le> 2 ^ 53"
  shows "parseSourceInteger raw = Some (of_nat v)"
proof -
  have q: "rat_value q = real v" "0 < snd q"
    using Rat_SetString_value [OF assms(2)] assms(3) by auto
  have i: "IsInt q" using IsInt_value [OF q(2)] q(1) by simp
  have "real_of_int (Num q) = real v" using IsInt_Num [OF q(2) i] q(1) by simp
  then have n: "Num q = int v" by linarith
  have "0 \<le> fst q"
    using q by (simp add: rat_value_def field_simps) (metis of_int_0_le_iff of_nat_0_le_iff of_nat_mult)
  moreover have "int v \<le> maxExactSourceInteger"
    using assms(4) by (simp add: maxExactSourceInteger_def)
  ultimately show ?thesis using assms(1,2) i n by (simp add: parseSourceInteger_def)
qed

lemma f64_of_nat_level: "v \<le> 2 ^ 53 \<Longrightarrow> gauge_level_ok (f64_of_nat v)"
  using f64_of_nat_exact [of v] round_ratio_normal [of 1 False v]
  by (auto simp: gauge_level_ok_def IsNaN_def f64_of_nat_def)

lemma round_ratio_level:
  "0 < d \<Longrightarrow> \<not> IsInf (round_ratio False n d) \<Longrightarrow> gauge_level_ok (round_ratio False n d)"
  using round_ratio_sign [of d False n] round_ratio_normal [of d False n]
  by (auto simp: gauge_level_ok_def IsNaN_def)

lemma ParseFloat_normal: "ParseFloat s = Some f \<Longrightarrow> f64_normal f"
proof -
  have "f64_normal (literal_value l)" for l
    by (simp add: literal_value_def Let_def round_ratio_normal)
  moreover have "special_float s = Some g \<Longrightarrow> f64_normal g" for g
    by (auto simp: special_float_def Let_def split: prod.splits if_splits)
  ultimately show "ParseFloat s = Some f \<Longrightarrow> f64_normal f"
    by (auto simp: ParseFloat_def Let_def split: option.splits if_splits)
qed

lemma mult_not_negative:
  assumes "\<not> f64_negative (Fin s m e)" "f64_mult (Fin s m e) (Fin False n f) = Fin t k g"
  shows "\<not> f64_negative (Fin t k g)"
proof (cases "m = 0")
  case True
  have "round_ratio x 0 d = Fin x 0 min_exp" for x d by (simp add: round_ratio_def)
  with True assms(2) show ?thesis by (auto split: if_splits)
next
  case False
  with assms(1) have "s = False" by simp
  with assms(2) have "t = False"
    by (auto split: if_splits dest: round_ratio_nearest [rotated])
  then show ?thesis by simp
qed

lemma parseScaledNonNegative_level:
  assumes "parseScaledNonNegative s (Fin False n f) = Some v"
  shows "gauge_level_ok v"
proof -
  obtain x where x: "ParseFloat s = Some x" "\<not> IsNaN x" "\<not> IsInf x" "\<not> f64_negative x"
    "v = f64_mult x (Fin False n f)" "\<not> IsNaN v" "\<not> IsInf v"
    using assms by (auto simp: parseScaledNonNegative_def Let_def split: option.splits if_splits)
  obtain a m e where a: "x = Fin a m e" using x by (cases x) (auto simp: IsNaN_def)
  obtain b k g where b: "v = Fin b k g" using x(6,7) by (cases v) (auto simp: IsNaN_def)
  have "\<not> f64_negative v"
  proof -
    have "f64_mult (Fin a m e) (Fin False n f) = Fin b k g" using x(5) unfolding a b by (rule sym)
    moreover have "\<not> f64_negative (Fin a m e)" using x(4) unfolding a .
    ultimately show ?thesis unfolding b by (rule mult_not_negative [rotated])
  qed
  moreover have "f64_normal v" unfolding x(5) by (rule f64_mult_normal)
  ultimately show ?thesis using x(6,7) by (simp add: gauge_level_ok_def)
qed

lemma one_percent_fin: "one_percent = Fin False 5764607523034235 (- 59)"
  by (simp add: one_percent_def round_ratio_def leading_bit_def scaled_def half_even_def
      min_exp_def max_exp_def)

lemma parsed_levels:
  "parseCacheUsage s = Some v \<Longrightarrow> gauge_level_ok v"
  "parsePercentage s = Some v \<Longrightarrow> gauge_level_ok v"
  "parseMemorySize s = Some v \<Longrightarrow> gauge_level_ok v"
  by (auto simp: parseCacheUsage_def parsePercentage_def parseMemorySize_def Let_def f64_pow2_def
      one_percent_fin split: if_splits option.splits dest: parseScaledNonNegative_level)

section \<open>The invariant of a normalized record\<close>

definition gauge_series_ok :: "series \<Rightarrow> bool" where
  "gauge_series_ok s \<longleftrightarrow>
     described_as s InstrumentGauge \<or> described_as s InstrumentObservableUpDownCounter"

definition normalized_ok :: "normalized_record \<Rightarrow> bool" where
  "normalized_ok n \<longleftrightarrow>
     (\<forall>c \<in> set (Counters n). described_as (counter_series c) InstrumentCounter
        \<and> unat (counter_count c) \<le> 2 ^ 53) \<and>
     (\<forall>g \<in> set (Gauges n). gauge_series_ok (gauge_series g) \<and> gauge_level_ok (gauge_level g))"

lemma zero_normalized_ok [invar_intros]: "normalized_ok zero_normalized"
  by (simp add: normalized_ok_def zero_normalized_def)

lemma ignore_values_ok [invar_intros]: "normalized_ok n \<Longrightarrow> normalized_ok (ignore_values k n)"
  by (simp add: normalized_ok_def ignore_values_def)

lemma invalid_value_ok [invar_intros]: "normalized_ok n \<Longrightarrow> normalized_ok (invalid_value n)"
  by (simp add: normalized_ok_def invalid_value_def)

lemma count_unknown_ok [invar_intros]: "normalized_ok n \<Longrightarrow> normalized_ok (count_unknown k fs n)"
  by (simp add: count_unknown_def ignore_values_ok)

lemma addCounter_ok [invar_intros]:
  "normalized_ok n \<Longrightarrow> described_as s InstrumentCounter \<Longrightarrow> normalized_ok (addCounter vs f s n)"
  by (auto simp: addCounter_def invalid_value_ok normalized_ok_def append_counter_def invalid_value_def
      split: option.splits dest: parseSourceInteger_exact)

lemma addIntegerGauge_ok [invar_intros]:
  "normalized_ok n \<Longrightarrow> gauge_series_ok s \<Longrightarrow> normalized_ok (addIntegerGauge vs f s n)"
  by (auto simp: addIntegerGauge_def normalized_ok_def append_gauge_def invalid_value_def
      f64_of_nat_level split: option.splits dest: parseSourceInteger_exact)

lemma addFormattedGauge_ok [invar_intros]:
  "normalized_ok n \<Longrightarrow> gauge_series_ok s \<Longrightarrow> (\<And>x v. parse x = Some v \<Longrightarrow> gauge_level_ok v) \<Longrightarrow>
     normalized_ok (addFormattedGauge vs f s parse n)"
  by (auto simp: addFormattedGauge_def normalized_ok_def append_gauge_def invalid_value_def
      split: option.splits)

lemmas describe_simps =
  described_as_def gauge_series_ok_def DescribeSeries_def descriptorWithoutAttributes_def zero_series_def

lemma normalizeAzStorage_ok [invar_intros]: "normalized_ok n \<Longrightarrow> normalized_ok (normalizeAzStorage vs n)"
  by (auto simp: normalizeAzStorage_def Let_def describe_simps intro!: invar_intros)

lemma operationFields_described:
  "(name, op) \<in> set operationFields \<Longrightarrow>
     described_as (zero_series\<lparr>Metric := MetricFSOperations, Operation := op\<rparr>) InstrumentCounter"
  by (auto simp: operationFields_def describe_simps)

lemma normalizeLibfuse_ok [invar_intros]:
  assumes "normalized_ok n"
  shows "normalized_ok (normalizeLibfuse vs n)"
proof -
  have "set ops \<subseteq> set operationFields \<Longrightarrow> normalized_ok n1 \<Longrightarrow>
    normalized_ok (foldl (\<lambda>n (name, op).
      addCounter vs name (zero_series\<lparr>Metric := MetricFSOperations, Operation := op\<rparr>) n) n1 ops)"
    for ops n1
  proof (induction ops arbitrary: n1)
    case (Cons a ops)
    obtain name op where a: "a = (name, op)" by force
    have "normalized_ok (addCounter vs name
        (zero_series\<lparr>Metric := MetricFSOperations, Operation := op\<rparr>) n1)"
      using Cons.prems a by (intro addCounter_ok operationFields_described [of name]) auto
    from Cons.IH [OF _ this] Cons.prems a show ?case by simp
  qed simp
  note ops = this [OF subset_refl]
  show ?thesis
    unfolding normalizeLibfuse_def Let_def using assms
    by (intro ops invar_intros) (simp_all add: describe_simps)
qed

lemma normalizeFileCache_ok [invar_intros]: "normalized_ok n \<Longrightarrow> normalized_ok (normalizeFileCache vs n)"
  by (auto simp: normalizeFileCache_def Let_def describe_simps intro!: invar_intros dest: parsed_levels)

lemma normalize_component_ok [invar_intros]:
  "normalized_ok n \<Longrightarrow> normalized_ok (normalize_component c vs n)"
  by (simp add: normalize_component_def invar_intros)

lemma normalize_values_ok [invar_intros]: "normalized_ok n \<Longrightarrow> normalized_ok (normalize_values fs n)"
  by (auto simp: normalize_values_def invar_intros split: option.splits)

lemma foldl_ok: "P n \<Longrightarrow> (\<And>n x. P n \<Longrightarrow> P (f n x)) \<Longrightarrow> P (foldl f n xs)"
  by (induction xs arbitrary: n) auto

lemma validate_string_ok [invar_intros]: "normalized_ok n \<Longrightarrow> normalized_ok (validate_string r n)"
  by (simp add: validate_string_def invar_intros split: option.splits)

lemma validateEventFields_ok [invar_intros]:
  "normalized_ok n \<Longrightarrow> normalized_ok (validateEventFields fs n)"
  by (auto simp: validateEventFields_def Let_def invar_intros split: option.splits)

lemma validateMessageTimestamp_ok [invar_intros]:
  "normalized_ok n \<Longrightarrow> normalized_ok (validateMessageTimestamp r n)"
  by (simp add: validateMessageTimestamp_def invar_intros split: option.splits)

lemma normalizeBlobfuseMessage_ok [invar_intros]:
  "normalized_ok n \<Longrightarrow> normalized_ok (normalizeBlobfuseMessage raw n)"
  by (auto simp: normalizeBlobfuseMessage_def Let_def split: option.splits intro!: invar_intros)

lemma normalizeTimestamp_ok [invar_intros]: "normalized_ok n \<Longrightarrow> normalized_ok (normalizeTimestamp r n)"
  by (auto simp: normalizeTimestamp_def normalized_ok_def invalid_value_def
      split: option.splits)

lemma normalizeBlobfuseStats_ok [invar_intros]:
  "normalized_ok n \<Longrightarrow> normalized_ok (normalizeBlobfuseStats r n)"
  by (auto simp: normalizeBlobfuseStats_def 
      split: option.splits intro: foldl_ok [where P = normalized_ok] invar_intros)

lemma memory_series_ok: "gauge_series_ok (zero_series\<lparr>Metric := MetricMemoryVirtual\<rparr>)"
  by (simp add: describe_simps)

lemma append_gauge_ok [invar_intros]:
  "normalized_ok n \<Longrightarrow> gauge_series_ok s \<Longrightarrow> gauge_level_ok v \<Longrightarrow> normalized_ok (append_gauge s v n)"
  by (auto simp: normalized_ok_def append_gauge_def)

lemma normalizeMemory_ok [invar_intros]: "normalized_ok n \<Longrightarrow> normalized_ok (normalizeMemory r n)"
  by (auto simp: normalizeMemory_def split: option.splits
      intro: append_gauge_ok memory_series_ok invalid_value_ok parsed_levels(3))

lemma normalizeUnsupported_ok [invar_intros]:
  "normalized_ok n \<Longrightarrow> normalized_ok (normalizeUnsupportedArray r n)"
  "normalized_ok n \<Longrightarrow> normalized_ok (normalizeUnsupportedString r n)"
  by (simp_all add: normalizeUnsupportedArray_def normalizeUnsupportedString_def
      invalid_value_ok ignore_values_ok split: option.splits)

lemma normalize_fields_ok [invar_intros]: "normalized_ok (normalize_fields fs)"
  unfolding normalize_fields_def Let_def by (intro invar_intros)

lemma NormalizeRecord_ok: "NormalizeRecord r = Inr n \<Longrightarrow> normalized_ok n"
  by (auto simp: NormalizeRecord_def normalize_fields_ok split: sum.splits option.splits)

section \<open>Every field is accounted for\<close>

definition accounted :: "normalized_record \<Rightarrow> nat" where
  "accounted n = length (Counters n) + length (Gauges n) + IgnoredValues n + InvalidValues n"

definition present :: "fields \<Rightarrow> string \<Rightarrow> nat" where
  "present fs k = (if alist_map fs k = None then 0 else 1)"

lemma accounted_ignore [simp]: "accounted (ignore_values k n) = accounted n + k"
  by (simp add: accounted_def ignore_values_def)

lemma accounted_invalid [simp]: "accounted (invalid_value n) = accounted n + 1"
  by (simp add: accounted_def invalid_value_def)

lemma accounted_append [simp]:
  "accounted (append_counter s v n) = accounted n + 1"
  "accounted (append_gauge s f n) = accounted n + 1"
  by (simp_all add: accounted_def append_counter_def append_gauge_def)

lemma accounted_fields [simp]:
  "accounted (addCounter vs k s n) = accounted n + present vs k"
  "accounted (addIntegerGauge vs k s n) = accounted n + present vs k"
  "accounted (addFormattedGauge vs k s p n) = accounted n + present vs k"
  by (simp_all add: addCounter_def addIntegerGauge_def addFormattedGauge_def present_def
      split: option.splits)

lemma accounted_unknown [simp]:
  "accounted (count_unknown known fs n) = accounted n + length (filter (\<lambda>k. \<not> known k) (alist_keys fs))"
  by (simp add: count_unknown_def)

lemma known_keys_present:
  assumes "distinct ks"
  shows "length (filter (\<lambda>k. k \<in> set ks) (alist_keys fs)) = sum_list (map (present fs) ks)"
proof -
  have "length (filter (\<lambda>k. k \<in> set ks) (alist_keys fs)) = card (set ks \<inter> dom (alist_map fs))"
    by (metis (no_types) Collect_conj_eq Collect_mem_eq distinct_alist_keys distinct_card
        distinct_filter inf_commute set_alist_keys set_filter)
  also have "\<dots> = sum_list (map (present fs) ks)"
  proof -
    have "sum_list (map (present fs) ks) = (\<Sum>k \<in> set ks. present fs k)"
      by (rule sum_list_distinct_conv_sum_set [OF assms])
    also have "\<dots> = (\<Sum>k \<in> set ks \<inter> dom (alist_map fs). 1)"
      by (rule sum.mono_neutral_cong_right) (auto simp: present_def domIff)
    finally show ?thesis by simp
  qed
  finally show ?thesis .
qed

text \<open>The keys of a map are the known ones that are present and the unknown ones.\<close>

lemma keys_split:
  assumes "distinct ks" "\<And>k. known k \<longleftrightarrow> k \<in> set ks"
  shows "length (filter (\<lambda>k. \<not> known k) (alist_keys fs)) + sum_list (map (present fs) ks)
    = length (alist_keys fs)"
  using sum_length_filter_compl [of "\<lambda>k. k \<in> set ks" "alist_keys fs"] known_keys_present [OF assms(1), of fs]
  by (simp add: assms(2))

lemma normalizeAzStorage_accounted:
  "accounted (normalizeAzStorage vs n) = accounted n + length (alist_keys vs)"
  using keys_split [of "[''Bytes Downloaded'', ''Bytes Uploaded'', ''OpenFileHandles'']"
      "\<lambda>f. f = ''Bytes Downloaded'' \<or> f = ''Bytes Uploaded'' \<or> f = ''OpenFileHandles''" vs]
  by (simp add: normalizeAzStorage_def Let_def)

lemma normalizeFileCache_accounted:
  "accounted (normalizeFileCache vs n) = accounted n + length (alist_keys vs)"
  using keys_split [of "[''Files Downloaded'', ''Files served from cache'', ''Cache Usage'', ''Usage Percent'']"
      "\<lambda>f. f \<in> {''Files Downloaded'', ''Files served from cache'', ''Cache Usage'', ''Usage Percent''}" vs]
  by (simp add: normalizeFileCache_def Let_def)

lemma operation_fold_accounted:
  "accounted (foldl (\<lambda>n (name, op). addCounter vs name (S op) n) n ops)
     = accounted n + sum_list (map (present vs) (map fst ops))"
  by (induction ops arbitrary: n) (auto simp: case_prod_beta)

lemma normalizeLibfuse_accounted:
  "accounted (normalizeLibfuse vs n) = accounted n + length (alist_keys vs)"
proof -
  have "distinct (''OpenFileHandles'' # map fst operationFields)"
    by (simp add: operationFields_def)
  moreover have "f = ''OpenFileHandles'' \<or> isOperationField f
      \<longleftrightarrow> f \<in> set (''OpenFileHandles'' # map fst operationFields)" for f
    by (auto simp: isOperationField_def list_ex_iff image_iff)
  ultimately show ?thesis
    using keys_split [of "''OpenFileHandles'' # map fst operationFields"
        "\<lambda>f. f = ''OpenFileHandles'' \<or> isOperationField f" vs]
      operation_fold_accounted [of vs "\<lambda>op. zero_series\<lparr>Metric := MetricFSOperations, Operation := op\<rparr>"]
    by (simp add: normalizeLibfuse_def Let_def)
qed

end
