(* ===== verification/Identity.thy ===== *)
theory Identity
  imports Go_Sha256 Go_Float Go_Time
begin

text \<open>
  \<open>internal/source/identity_linux.go\<close>, \<open>recheck_linux.go\<close> and \<open>process_metrics_linux.go\<close>:
  the identity of the monitored process and its CPU and memory figures, read from procfs.
  \<open>readFile\<close> is a parameter, as in the code; a run reads the process's \<open>stat\<close> twice, so
  it is a function of the position of the call in the run.  The clock rate and page size
  come from \<open>sysconf\<close> and are parameters as well.  \<open>procRoot\<close> is a clean path, so
  \<open>filepath.Join\<close> only puts slashes between its arguments.
\<close>

record process_identity =
  BootID :: string
  PID :: int
  StartTicks :: u64
  CreationTime :: go_time

definition SameSession :: "process_identity \<Rightarrow> process_identity \<Rightarrow> bool" where
  "SameSession a b \<longleftrightarrow> BootID a = BootID b \<and> PID a = PID b \<and> StartTicks a = StartTicks b"

section \<open>The instance ID\<close>

definition instance_payload :: "process_identity \<Rightarrow> bytes" where
  "instance_payload i =
     ''blobfuse-health-exporter/v0'' @ CHR 0x00 # BootID i
       @ CHR 0x00 # Itoa (PID i) @ CHR 0x00 # digits_of (unat (StartTicks i))"

definition InstanceID :: "process_identity \<Rightarrow> string" where
  "InstanceID i = hex_encode (sha256 (instance_payload i))"

section \<open>Parsing procfs\<close>

record parsed_process_stat =
  UserTicks :: u64
  SystemTicks :: u64
  statStartTicks :: u64
  ResidentPages :: u64

definition userTimeIndexAfterCommand :: nat where "userTimeIndexAfterCommand = 11"
definition systemTimeIndexAfterCommand :: nat where "systemTimeIndexAfterCommand = 12"
definition startTimeIndexAfterCommand :: nat where "startTimeIndexAfterCommand = 19"
definition residentPagesIndexAfterCommand :: nat where "residentPagesIndexAfterCommand = 21"

text \<open>The numeric fields after the command, each refused in turn.\<close>

definition stat_fields :: "bytes list \<Rightarrow> error + parsed_process_stat" where
  "stat_fields fs =
     (if length fs \<le> residentPagesIndexAfterCommand
      then Inl (Text ''process stat is missing required fields'')
      else if length (fs ! 0) \<noteq> 1 then Inl (Text ''process stat has invalid state'')
      else (case ParseUint64 (fs ! userTimeIndexAfterCommand) of
         None \<Rightarrow> Inl (Text ''process stat has invalid user time'')
       | Some userTicks \<Rightarrow>
      (case ParseUint64 (fs ! systemTimeIndexAfterCommand) of
         None \<Rightarrow> Inl (Text ''process stat has invalid system time'')
       | Some systemTicks \<Rightarrow>
      (case ParseUint64 (fs ! startTimeIndexAfterCommand) of
         None \<Rightarrow> Inl (Text ''process stat has invalid start time'')
       | Some startTicks \<Rightarrow>
      (case ParseUint64 (fs ! residentPagesIndexAfterCommand) of
         None \<Rightarrow> Inl (Text ''process stat has invalid resident pages'')
       | Some residentPages \<Rightarrow>
           Inr \<lparr>UserTicks = userTicks, SystemTicks = systemTicks, statStartTicks = startTicks,
                ResidentPages = residentPages\<rparr>)))))"

definition parseProcessStat :: "bytes \<Rightarrow> int \<Rightarrow> error + parsed_process_stat" where
  "parseProcessStat data expectedPID =
     (let stat = TrimSpace data
      in case (IndexByte stat (CHR ''(''), LastIndexByte stat (CHR '')'')) of
           (Some openParen, Some closeParen) \<Rightarrow>
             if openParen < 1 \<or> closeParen \<le> openParen
             then Inl (Text ''invalid process stat framing'')
             else (case ParseInt64 (TrimSpace (take openParen stat)) of
                     None \<Rightarrow> Inl (Text (''process stat pid does not match '' @ Itoa expectedPID))
                   | Some pid \<Rightarrow>
                       if pid \<noteq> expectedPID
                       then Inl (Text (''process stat pid does not match '' @ Itoa expectedPID))
                       else stat_fields (Fields (drop (closeParen + 1) stat)))
         | _ \<Rightarrow> Inl (Text ''invalid process stat framing''))"

definition parseProcessStartTicks :: "bytes \<Rightarrow> int \<Rightarrow> error + u64" where
  "parseProcessStartTicks data expectedPID =
     (case parseProcessStat data expectedPID of Inl e \<Rightarrow> Inl e | Inr stat \<Rightarrow> Inr (statStartTicks stat))"

text \<open>Boot IDs are compared byte by byte: a rune outside ASCII is not a hexadecimal digit.\<close>

definition boot_id_char :: "nat \<Rightarrow> char \<Rightarrow> bool" where
  "boot_id_char i c \<longleftrightarrow>
     (if i \<in> {8, 13, 18, 23} then c = CHR ''-''
      else is_digit c \<or> (byte_code (CHR ''a'') \<le> byte_code c \<and> byte_code c \<le> byte_code (CHR ''f'')))"

definition isCanonicalBootID :: "bytes \<Rightarrow> bool" where
  "isCanonicalBootID v \<longleftrightarrow> length v = 36 \<and> list_all (\<lambda>(i, c). boot_id_char i c) (enumerate 0 v)"

definition processCreationTime :: "int \<Rightarrow> u64 \<Rightarrow> u64 \<Rightarrow> error + go_time" where
  "processCreationTime bootTime startTicks clockTicks =
     (let wholeSeconds = startTicks div clockTicks
      in if 2 ^ 63 - 1 < uint wholeSeconds \<or> 2 ^ 63 - 1 - sint wholeSeconds < bootTime
         then Inl (Text ''process creation time overflows'')
         else (let remainder = startTicks mod clockTicks;
                   nanoseconds = remainder * 1000000000 div clockTicks
               in Inr (time_Unix (wrap64 (bootTime + sint wholeSeconds)) (unat nanoseconds))))"

section \<open>Reading procfs\<close>

text \<open>The files a run reads, by the position of the call and the path.\<close>

type_synonym read_file = "nat \<Rightarrow> string \<Rightarrow> error + bytes"

record identity_reader =
  procRoot :: string
  clockTicks :: u64
  readFile :: "read_file option"

definition readStartTicks :: "string \<Rightarrow> (string \<Rightarrow> error + bytes) \<Rightarrow> int \<Rightarrow> error + u64" where
  "readStartTicks proc read pid =
     (case read (proc @ ''/'' @ Itoa pid @ ''/stat'') of
        Inl e \<Rightarrow> Inl (Wrap (''read process stat for pid '' @ Itoa pid) [e])
      | Inr data \<Rightarrow>
          (case parseProcessStartTicks data pid of
             Inl e \<Rightarrow> Inl (Wrap (''parse process stat for pid '' @ Itoa pid) [e])
           | Inr t \<Rightarrow> Inr t))"

definition readBootID :: "string \<Rightarrow> (string \<Rightarrow> error + bytes) \<Rightarrow> error + string" where
  "readBootID proc read =
     (case read (proc @ ''/sys/kernel/random/boot_id'') of
        Inl e \<Rightarrow> Inl (Wrap ''read host boot ID'' [e])
      | Inr data \<Rightarrow>
          (let bootID = map lower (TrimSpace data)
           in if \<not> isCanonicalBootID bootID then Inl (Text ''read host boot ID: invalid format'')
              else Inr bootID))"

text \<open>
  \<open>bufio.Scanner\<close> over lines: the next line without its terminator and a carriage return
  before it, or the scanner's error when the line does not fit its buffer of 64 KiB.
\<close>

definition max_token :: nat where "max_token = 65536"

definition drop_cr :: "bytes \<Rightarrow> bytes" where
  "drop_cr line = (if line \<noteq> [] \<and> last line = CHR 0x0D then butlast line else line)"

datatype scan_line = NoLine | LongLine | Line bytes bytes

definition next_line :: "bytes \<Rightarrow> scan_line" where
  "next_line data =
     (if data = [] then NoLine
      else let line = takeWhile (\<lambda>c. c \<noteq> CHR 0x0A) data
           in if max_token \<le> length line then LongLine
              else Line (drop_cr line) (drop (length line + 1) data))"

lemma next_line_shorter: "next_line data = Line l rest \<Longrightarrow> length rest < length data"
  by (auto simp: next_line_def Let_def split: if_splits)

definition btime_fields :: "bytes list \<Rightarrow> error + int" where
  "btime_fields fs =
     (if length fs \<noteq> 2 then Inl (Text ''read host boot time: invalid btime field'')
      else case ParseInt64 (fs ! 1) of
             None \<Rightarrow> Inl (Text ''read host boot time: invalid btime value'')
           | Some t \<Rightarrow> if t \<le> 0 then Inl (Text ''read host boot time: invalid btime value'') else Inr t)"

function find_btime :: "bytes \<Rightarrow> error + int" where
  "find_btime data =
     (case next_line data of
        NoLine \<Rightarrow> Inl (Text ''read host boot time: btime field is missing'')
      | LongLine \<Rightarrow> Inl (Wrap ''read host boot time'' [Text ''bufio.Scanner: token too long''])
      | Line line rest \<Rightarrow>
          (let fs = Fields line
           in if fs = [] \<or> hd fs \<noteq> ''btime'' then find_btime rest else btime_fields fs))"
  by pat_completeness auto
termination
  by (relation "measure length") (auto dest: next_line_shorter)

declare find_btime.simps [simp del]

definition readBootTime :: "string \<Rightarrow> (string \<Rightarrow> error + bytes) \<Rightarrow> error + int" where
  "readBootTime proc read =
     (case read (proc @ ''/stat'') of
        Inl e \<Rightarrow> Inl (Wrap ''read host boot time'' [e])
      | Inr data \<Rightarrow> find_btime data)"

text \<open>The four reads of one run, in the code's order, and the checks on them.\<close>

definition read_identity :: "string \<Rightarrow> u64 \<Rightarrow> read_file \<Rightarrow> int \<Rightarrow> error + process_identity" where
  "read_identity proc ticks read pid =
     (case readStartTicks proc (read 0) pid of
        Inl e \<Rightarrow> Inl e
      | Inr startTicks \<Rightarrow>
     (case readBootID proc (read 1) of
        Inl e \<Rightarrow> Inl e
      | Inr bootID \<Rightarrow>
     (case readBootTime proc (read 2) of
        Inl e \<Rightarrow> Inl e
      | Inr bootTime \<Rightarrow>
     (case readStartTicks proc (read 3) pid of
        Inl e \<Rightarrow> Inl e
      | Inr verifiedStartTicks \<Rightarrow>
          if startTicks \<noteq> verifiedStartTicks
          then Inl (Wrap (''pid '' @ Itoa pid @ '' changed from start ticks ''
                 @ digits_of (unat startTicks) @ '' to '' @ digits_of (unat verifiedStartTicks))
               [Sentinel ErrProcessIdentityChanged])
          else (case processCreationTime bootTime startTicks ticks of
                  Inl e \<Rightarrow> Inl e
                | Inr t \<Rightarrow> Inr \<lparr>BootID = bootID, PID = pid, StartTicks = startTicks,
                               CreationTime = t\<rparr>)))))"

definition identity_reader_read :: "identity_reader \<Rightarrow> int \<Rightarrow> error + process_identity" where
  "identity_reader_read rd pid =
     (if pid \<le> 0 then Inl (Text ''pid must be positive'')
      else if procRoot rd = [] \<or> readFile rd = None then Inl (Text ''procfs reader is not configured'')
      else if clockTicks rd = 0 \<or> 1000000000 < clockTicks rd
      then Inl (Text (''clock ticks per second is invalid: '' @ digits_of (unat (clockTicks rd))))
      else read_identity (procRoot rd) (clockTicks rd) (the (readFile rd)) pid)"

definition ReadProcessIdentity :: "error + int \<Rightarrow> read_file \<Rightarrow> int \<Rightarrow> error + process_identity" where
  "ReadProcessIdentity sysconf read pid =
     (case sysconf of
        Inl e \<Rightarrow> Inl (Wrap ''read clock ticks per second'' [e])
      | Inr ticks \<Rightarrow>
          if ticks \<le> 0 then Inl (Text (''read clock ticks per second: got '' @ Itoa ticks))
          else identity_reader_read
                 \<lparr>procRoot = ''/proc'', clockTicks = word_of_int ticks, readFile = Some read\<rparr> pid)"

section \<open>Verifying the identity again\<close>

definition verifyProcessIdentity ::
    "process_identity \<Rightarrow> (int \<Rightarrow> error + process_identity) option \<Rightarrow> error option" where
  "verifyProcessIdentity expected lookup =
     (case lookup of
        None \<Rightarrow> Some (Text ''process identity lookup is required'')
      | Some look \<Rightarrow>
          (case look (PID expected) of
             Inl e \<Rightarrow> Some (Wrap ''process identity is unavailable'' [Sentinel ErrSourceSessionEnded, e])
           | Inr current \<Rightarrow>
               if \<not> SameSession expected current
               then Some (Wrap ''process identity changed'' [Sentinel ErrSourceSessionEnded])
               else None))"

section \<open>Process metrics\<close>

record process_metrics =
  CPUUserSeconds :: f64
  CPUSystemSeconds :: f64
  MemoryUsageBytes :: int

record metrics_reader =
  mProcRoot :: string
  mClockTicks :: u64
  mPageSize :: u64
  mReadFile :: "(string \<Rightarrow> error + bytes) option"

definition seconds_of :: "u64 \<Rightarrow> u64 \<Rightarrow> f64" where
  "seconds_of ticks rate = f64_div (f64_of_nat (unat ticks)) (f64_of_nat (unat rate))"

definition metrics_of_stat ::
    "metrics_reader \<Rightarrow> process_identity \<Rightarrow> parsed_process_stat \<Rightarrow> error + process_metrics" where
  "metrics_of_stat rd i stat =
     (if statStartTicks stat \<noteq> StartTicks i
      then Inl (Wrap (''pid '' @ Itoa (PID i) @ '' changed from start ticks ''
             @ digits_of (unat (StartTicks i)) @ '' to '' @ digits_of (unat (statStartTicks stat)))
           [Sentinel ErrProcessIdentityChanged])
      else if (0x7FFFFFFFFFFFFFFF :: u64) div mPageSize rd < ResidentPages stat
      then Inl (Text ''resident memory byte count overflows'')
      else Inr \<lparr>CPUUserSeconds = seconds_of (UserTicks stat) (mClockTicks rd),
                CPUSystemSeconds = seconds_of (SystemTicks stat) (mClockTicks rd),
                MemoryUsageBytes = sint (ResidentPages stat * mPageSize rd)\<rparr>)"

definition metrics_reader_read :: "metrics_reader \<Rightarrow> process_identity \<Rightarrow> error + process_metrics" where
  "metrics_reader_read rd i =
     (if PID i \<le> 0 \<or> StartTicks i = 0 then Inl (Text ''process identity is invalid'')
      else if mProcRoot rd = [] \<or> mReadFile rd = None
      then Inl (Text ''procfs metric reader is not configured'')
      else if mClockTicks rd = 0 \<or> mPageSize rd = 0
      then Inl (Text ''procfs metric units are invalid'')
      else (case the (mReadFile rd) (mProcRoot rd @ ''/'' @ Itoa (PID i) @ ''/stat'') of
              Inl e \<Rightarrow> Inl (Wrap (''read process metrics for pid '' @ Itoa (PID i)) [e])
            | Inr data \<Rightarrow>
                (case parseProcessStat data (PID i) of
                   Inl e \<Rightarrow> Inl (Wrap (''parse process metrics for pid '' @ Itoa (PID i)) [e])
                 | Inr stat \<Rightarrow> metrics_of_stat rd i stat)))"

definition ReadProcessMetrics ::
    "error + int \<Rightarrow> error + int \<Rightarrow> (string \<Rightarrow> error + bytes) \<Rightarrow> process_identity
      \<Rightarrow> error + process_metrics" where
  "ReadProcessMetrics clk page read i =
     (case clk of
        Inl e \<Rightarrow> Inl (Wrap ''read clock ticks per second'' [e])
      | Inr c \<Rightarrow>
          (case page of
             Inl e \<Rightarrow> Inl (Wrap ''read page size'' [e])
           | Inr p \<Rightarrow>
               if c \<le> 0 \<or> p \<le> 0
               then Inl (Text (''read procfs units: clock ticks='' @ Itoa c @ '' page size='' @ Itoa p))
               else metrics_reader_read
                      \<lparr>mProcRoot = ''/proc'', mClockTicks = word_of_int c, mPageSize = word_of_int p,
                       mReadFile = Some read\<rparr> i))"

section \<open>What the parsers guarantee\<close>

text \<open>A \<open>stat\<close> line as the kernel prints it: the command is printed between parentheses as it is.\<close>

definition stat_line :: "int \<Rightarrow> bytes \<Rightarrow> bytes list \<Rightarrow> bytes" where
  "stat_line pid comm fs = Itoa pid @ '' ('' @ comm @ '')'' @ spaced fs"

lemma IndexByte_append: "c \<notin> set xs \<Longrightarrow> IndexByte (xs @ c # ys) c = Some (length xs)"
  by (induction xs) auto

lemma LastIndexByte_append: "c \<notin> set ys \<Longrightarrow> LastIndexByte (xs @ c # ys) c = Some (length xs)"
  using IndexByte_append [of c "rev ys" "rev xs"] by (simp add: LastIndexByte_def)

lemma digits_all: "c \<in> set (digits_of n) \<Longrightarrow> is_digit c"
  using digits_of_value [of n] by (auto simp: all_digits_def list_all_iff)

lemma Itoa_pos: "0 < pid \<Longrightarrow> Itoa pid = digits_of (nat pid)"
  by (simp add: Itoa_def)

lemma paren_not_digit: "\<not> is_digit (CHR ''('')" "\<not> is_digit (CHR '')'')"
  by (simp_all add: is_digit_def byte_code_def)

lemma last_spaced: "list_all plain_word fs \<Longrightarrow> fs \<noteq> [] \<Longrightarrow> plain (last (spaced fs)) \<and> spaced fs \<noteq> []"
  by (induction fs) (auto simp: spaced_def plain_word_def last_append list_all_iff)

lemma stat_line_trim:
  assumes "0 < pid" "list_all plain_word fs" "fs \<noteq> []"
  shows "TrimSpace (stat_line pid comm fs) = stat_line pid comm fs"
proof -
  have "Itoa pid \<noteq> []" "is_digit (hd (Itoa pid))"
    using digits_of_head [of "nat pid"] assms(1) by (simp_all add: Itoa_pos)
  moreover have "plain (last (spaced fs))" "spaced fs \<noteq> []"
    using last_spaced [OF assms(2,3)] by auto
  ultimately show ?thesis
    by (intro TrimSpace_plain) (auto simp: stat_line_def digit_plain)
qed

text \<open>The number before the command is read back: trimming removes the blank after it.\<close>

lemma trim_pid:
  assumes "0 < pid"
  shows "TrimSpace (Itoa pid @ '' '') = Itoa pid"
proof -
  have h: "Itoa pid \<noteq> []" "plain (hd (Itoa pid))" "plain (last (Itoa pid))"
    using digits_of_head [of "nat pid"] digits_of_plain [of "nat pid"] assms
    by (auto simp: Itoa_pos plain_word_def list_all_iff digit_plain)
  have "trim_left (Itoa pid @ '' '') = Itoa pid @ '' ''"
    using h by (metis append_Cons list.collapse trim_left_plain)
  moreover have "trim_left_rev (CHR '' '' # rev (Itoa pid)) = rev (Itoa pid)"
  proof -
    have "space_width_rev (CHR '' '' # xs) = 1" for xs
      by (auto simp: space_width_rev_def ascii_space_def byte_code_def split: list.splits)
    then have "trim_left_rev (CHR '' '' # rev (Itoa pid)) = trim_left_rev (rev (Itoa pid))"
      by (subst trim_left_rev.simps) simp
    also have "\<dots> = rev (Itoa pid)"
      using h plain_no_space_rev
      by (subst trim_left_rev.simps) (metis hd_rev less_irrefl list.collapse rev_is_Nil_conv)
    finally show ?thesis .
  qed
  ultimately show ?thesis by (simp add: TrimSpace_def)
qed

lemma parseProcessStat_line:
  assumes pid: "0 < pid" "pid < 2 ^ 63" and fs: "list_all plain_word fs" "fs \<noteq> []"
    and paren: "CHR '')'' \<notin> set (concat fs)"
  shows "parseProcessStat (stat_line pid comm fs) pid = stat_fields fs"
proof -
  let ?pre = "Itoa pid @ '' ''"
  have open1: "IndexByte (stat_line pid comm fs) (CHR ''('') = Some (length ?pre)"
    using IndexByte_append [of "CHR ''(''" ?pre "comm @ '')'' @ spaced fs"] digits_all paren_not_digit pid(1)
    by (auto simp: stat_line_def Itoa_pos)
  have tail: "CHR '')'' \<notin> set (spaced fs)"
    using paren by (auto simp: spaced_def)
  have close1: "LastIndexByte (stat_line pid comm fs) (CHR '')'')
      = Some (length (?pre @ CHR ''('' # comm))"
    using LastIndexByte_append [OF tail, of "?pre @ CHR ''('' # comm"] by (simp add: stat_line_def)
  have "drop (length (?pre @ CHR ''('' # comm) + 1) (stat_line pid comm fs) = spaced fs"
    "take (length ?pre) (stat_line pid comm fs) = ?pre"
  proof -
    have "stat_line pid comm fs = (?pre @ CHR ''('' # comm @ '')'') @ spaced fs"
      by (simp add: stat_line_def)
    then show "drop (length (?pre @ CHR ''('' # comm) + 1) (stat_line pid comm fs) = spaced fs"
      by (simp del: append_assoc)
    show "take (length ?pre) (stat_line pid comm fs) = ?pre"
      by (simp add: stat_line_def)
  qed
  moreover have "ParseInt64 (TrimSpace ?pre) = Some pid"
    using pid by (simp add: trim_pid ParseInt64_Itoa)
  ultimately show ?thesis
    unfolding parseProcessStat_def stat_line_trim [OF pid(1) fs] Let_def open1 close1 prod.case
      option.case
    by (simp only: Fields_spaced [OF fs(1)]) (simp add: Itoa_pos pid)
qed

lemma creation_nanoseconds:
  assumes c: "0 < c" "c \<le> (1000000000 :: u64)"
  shows "unat (start mod c * 1000000000 div c) = (unat start mod unat c) * 1000000000 div unat c
    \<and> (unat start mod unat c) * 1000000000 div unat c < 1000000000"
proof -
  let ?r = "start mod c"
  have c': "0 < unat c" "unat c \<le> 1000000000"
    using c by (simp_all add: word_less_nat_alt word_le_nat_alt)
  have r: "unat ?r = unat start mod unat c" by (rule unat_mod)
  have rc: "unat ?r < unat c" using c' by (simp add: r)
  have "unat ?r * 1000000000 \<le> 1000000000 * 1000000000"
    using rc c'(2) by (intro mult_le_mono) simp_all
  then have "unat (?r * 1000000000) = unat ?r * 1000000000"
    by (simp add: unat_word_ariths)
  then have "unat (?r * 1000000000 div c) = unat ?r * 1000000000 div unat c"
    by (simp add: unat_div)
  moreover have "unat ?r * 1000000000 div unat c < 1000000000"
    using rc c' by (simp add: less_mult_imp_div_less)
  ultimately show ?thesis by (simp add: r)
qed

text \<open>The sum is refused exactly when it does not fit in 64 bits, and is right when it does.\<close>

lemma processCreationTime_value:
  assumes c: "0 < c" "c \<le> 1000000000" and b: "0 < boot" "boot < 2 ^ 63"
  shows "case processCreationTime boot start c of
      Inl e \<Rightarrow> 2 ^ 63 \<le> boot + int (unat start div unat c)
    | Inr t \<Rightarrow> boot + int (unat start div unat c) < 2 ^ 63
        \<and> time_seconds t = boot + int (unat start div unat c)
        \<and> snd t = (unat start mod unat c) * 1000000000 div unat c"
proof -
  let ?w = "start div c"
  have w: "uint ?w = int (unat start div unat c)" by (simp flip: unat_div)
  show ?thesis
  proof (cases "2 ^ 63 \<le> uint ?w")
    case True
    with b w show ?thesis by (simp add: processCreationTime_def Let_def)
  next
    case False
    then have sw: "sint ?w = int (unat start div unat c)" using sint_small [of ?w] w by simp
    show ?thesis
    proof (cases "2 ^ 63 \<le> boot + sint ?w")
      case True
      then show ?thesis by (simp add: processCreationTime_def Let_def sw)
    next
      case fits: False
      have r: "- (2 ^ 63) \<le> boot + sint ?w" "boot + sint ?w < 2 ^ 63" using b fits by (simp_all add: sw)
      have "processCreationTime boot start c
          = Inr (time_Unix (boot + sint ?w) (unat (start mod c * 1000000000 div c)))"
        using False fits r by (simp add: processCreationTime_def Let_def wrap64_id)
      with r creation_nanoseconds [OF c, of start] time_seconds_Unix [OF r] show ?thesis
        by (simp add: sw) (simp add: time_Unix_def)
    qed
  qed
qed

lemma boot_id_no_nul: "isCanonicalBootID v \<Longrightarrow> CHR 0x00 \<notin> set v"
proof
  assume v: "isCanonicalBootID v" and "CHR 0x00 \<in> set v"
  then obtain i where "i < length v" "v ! i = CHR 0x00" by (auto simp: in_set_conv_nth)
  with v have "boot_id_char i (CHR 0x00)"
    by (auto simp: isCanonicalBootID_def list_all_iff in_set_enumerate_eq)
  then show False by (auto simp: boot_id_char_def is_digit_def byte_code_def split: if_splits)
qed

lemma split_at_nul:
  "a @ CHR 0x00 # b = c @ CHR 0x00 # d \<Longrightarrow> CHR 0x00 \<notin> set a \<Longrightarrow> CHR 0x00 \<notin> set c \<Longrightarrow> a = c \<and> b = d"
proof (induction a arbitrary: c)
  case Nil
  then show ?case by (cases c) auto
next
  case (Cons x a)
  then show ?case by (cases c) auto
qed

lemma Itoa_no_nul: "CHR 0x00 \<notin> set (Itoa i)"
proof -
  have "\<not> is_digit (CHR 0x00)" by (simp add: is_digit_def byte_code_def)
  then show ?thesis using digits_all by (auto simp: Itoa_def)
qed

lemma Itoa_inj: "0 < i \<Longrightarrow> 0 < j \<Longrightarrow> Itoa i = Itoa j \<Longrightarrow> i = j"
  using digits_of_inj [of "nat i" "nat j"] by (simp add: Itoa_def)

lemma instance_payload_inj:
  assumes "instance_payload a = instance_payload b"
    and "isCanonicalBootID (BootID a)" "isCanonicalBootID (BootID b)" "0 < PID a" "0 < PID b"
  shows "SameSession a b"
proof -
  have p: "BootID a @ CHR 0x00 # Itoa (PID a) @ CHR 0x00 # digits_of (unat (StartTicks a))
    = BootID b @ CHR 0x00 # Itoa (PID b) @ CHR 0x00 # digits_of (unat (StartTicks b))"
    using assms(1) by (simp add: instance_payload_def)
  then have boot: "BootID a = BootID b" and
    "Itoa (PID a) @ CHR 0x00 # digits_of (unat (StartTicks a))
       = Itoa (PID b) @ CHR 0x00 # digits_of (unat (StartTicks b))"
    using split_at_nul boot_id_no_nul assms by blast+
  then have "Itoa (PID a) = Itoa (PID b)" "digits_of (unat (StartTicks a)) = digits_of (unat (StartTicks b))"
    using split_at_nul Itoa_no_nul by blast+
  then have "PID a = PID b" "unat (StartTicks a) = unat (StartTicks b)"
    using Itoa_inj assms digits_of_inj by blast+
  then show ?thesis using boot by (simp add: SameSession_def word_unat_eq_iff)
qed

lemma metrics_of_stat_memory:
  assumes m: "metrics_of_stat rd i stat = Inr m" and p: "mPageSize rd \<noteq> 0"
  shows "MemoryUsageBytes m = int (unat (ResidentPages stat)) * int (unat (mPageSize rd))
    \<and> MemoryUsageBytes m < 2 ^ 63"
proof -
  let ?q = "unat (ResidentPages stat)" and ?s = "unat (mPageSize rd)"
  have s: "0 < ?s" using p by (simp add: unat_gt_0)
  have "?q \<le> (2 ^ 63 - 1) div ?s"
    using m by (simp add: metrics_of_stat_def word_less_nat_alt unat_div split: if_splits)
  then have "?q * ?s \<le> 2 ^ 63 - 1" using s by (simp add: less_eq_div_iff_mult_less_eq)
  then have b: "?q * ?s < 2 ^ 63" by simp
  then have "unat (ResidentPages stat * mPageSize rd) = ?q * ?s" by (simp add: unat_word_ariths)
  then have u: "uint (ResidentPages stat * mPageSize rd) = int (?q * ?s)"
    unfolding uint_nat by (simp only:)
  have "int (?q * ?s) < 2 ^ 63" using b by (metis of_nat_less_iff of_nat_numeral of_nat_power)
  then have "sint (ResidentPages stat * mPageSize rd) = int (?q * ?s)"
    by (simp only: sint_small u)
  moreover have "MemoryUsageBytes m = sint (ResidentPages stat * mPageSize rd)"
    using m by (auto simp: metrics_of_stat_def split: if_splits)
  ultimately show ?thesis using \<open>int (?q * ?s) < 2 ^ 63\<close> by simp
qed

end
