(* ===== verification/Pipeline.thy ===== *)
theory Pipeline
  imports Recorder Normalizer_Facts Identity
begin

text \<open>
  The connection of the processor to the recorders (\<open>internal/telemetry/pipeline.go\<close>): the
  observer \<open>NewPipeline\<close> attaches hands every processed record to the source metric recorder
  and to the exporter's own.  The lemmas follow a series through the whole chain, from the
  bytes of the records to the sum of the points handed to the SDK.
\<close>

record pipeline_sink =
  sink_recorder :: otel_recorder
  sink_self :: self_recorder
  sink_points :: "int point list"
  sink_self_points :: "int point list"

text \<open>The closure \<open>recorder.Record(processed); selfRecorder.Record(processed)\<close>.\<close>

definition pipeline_observer :: "processed_record \<Rightarrow> pipeline_sink \<Rightarrow> pipeline_sink" where
  "pipeline_observer processed w =
     (case otel_Record processed (sink_recorder w) of
        (rec, points) \<Rightarrow>
          w\<lparr>sink_recorder := rec, sink_points := sink_points w @ points,
            sink_self_points := sink_self_points w @ self_Record processed (Some (sink_self w))\<rparr>)"

section \<open>Sums of points\<close>

text \<open>The points of one time series: the instrument and attributes a series is described with.\<close>

definition same_series :: "series \<Rightarrow> 'v point \<Rightarrow> bool" where
  "same_series s p \<longleftrightarrow> point_instrument p = metric_name (Metric s)
     \<and> Some (point_attributes p) = metricAttributeSet s"

definition exported_total :: "series \<Rightarrow> int point list \<Rightarrow> int" where
  "exported_total s ps = sum_list (map point_value (filter (same_series s) ps))"

lemma exported_total_append [simp]: "exported_total s (ps @ qs) = exported_total s ps + exported_total s qs"
  by (simp add: exported_total_def)

lemma same_series_increment:
  assumes "described_as (inc_series i) InstrumentCounter" "described_as s InstrumentCounter"
  shows "same_series s (increment_point i) \<longleftrightarrow> inc_series i = s"
proof
  assume same: "same_series s (increment_point i)"
  obtain d as where d: "DescribeSeries (inc_series i) = Inr (d, as)"
    using assms(1) by (auto simp: described_as_def split: sum.splits)
  obtain d' as' where d': "DescribeSeries s = Inr (d', as')"
    using assms(2) by (auto simp: described_as_def split: sum.splits)
  have "as = as'" "metric_name (Metric (inc_series i)) = metric_name (Metric s)"
    using same d d' by (simp_all add: same_series_def increment_point_def metricAttributeSet_def)
  moreover have "Name d = metric_name (Metric (inc_series i))" "Name d' = metric_name (Metric s)"
    using DescribeSeries_name d d' by blast+
  ultimately show "inc_series i = s" using DescribeSeries_distinct [OF d d'] by simp
next
  assume "inc_series i = s"
  moreover obtain as where "metricAttributeSet s = Some as"
    using assms(2) by (auto simp: described_as_def metricAttributeSet_def split: sum.splits)
  ultimately show "same_series s (increment_point i)"
    by (simp add: same_series_def increment_point_def)
qed

section \<open>Values stay exact\<close>

text \<open>Every baseline comes from a source integer, so the signed conversion of a delta is the delta.\<close>

definition state_bounded :: "metric_state \<Rightarrow> bool" where
  "state_bounded st \<longleftrightarrow> (\<forall>s v. counterBaselines st s = Some v \<longrightarrow> unat v \<le> 2 ^ 53)"

definition deltas_bounded :: "apply_result \<Rightarrow> bool" where
  "deltas_bounded res \<longleftrightarrow> (\<forall>i \<in> set (CounterIncrements res). unat (Delta i) \<le> 2 ^ 53)"

lemma apply_counter_bounded:
  assumes "apply_counter mode (st, res) c = (st', res')" "state_bounded st" "deltas_bounded res"
    "unat (counter_count c) \<le> 2 ^ 53"
  shows "state_bounded st' \<and> deltas_bounded res'"
proof -
  have "unat (counter_count c - p) \<le> 2 ^ 53" if "\<not> counter_count c < p" for p
    using assms(4) that by (simp add: unat_sub not_less)
  with assms show ?thesis
    by (auto simp: apply_counter_def Let_def state_bounded_def deltas_bounded_def
        split: option.splits if_splits)
qed

lemma apply_counters_bounded:
  "foldl (apply_counter mode) (st, res) cs = (st', res') \<Longrightarrow> state_bounded st \<Longrightarrow>
     deltas_bounded res \<Longrightarrow> \<forall>c \<in> set cs. unat (counter_count c) \<le> 2 ^ 53 \<Longrightarrow>
     state_bounded st' \<and> deltas_bounded res'"
proof (induction cs arbitrary: st res)
  case (Cons c cs)
  obtain st1 res1 where 1: "apply_counter mode (st, res) c = (st1, res1)" by force
  have "state_bounded st1 \<and> deltas_bounded res1"
    using apply_counter_bounded [OF 1] Cons.prems by simp
  with Cons 1 show ?case by simp
qed simp

lemma Apply_bounded:
  assumes "Apply mode n st = (st', res)" "normalized_ok n" "state_bounded st"
  shows "state_bounded st' \<and> deltas_bounded res"
proof -
  obtain st1 res1 where 1:
    "foldl (apply_counter mode) (st, empty_result) (Counters n) = (st1, res1)"
    "counterBaselines st' = counterBaselines st1" "CounterIncrements res = CounterIncrements res1"
    using assms(1) by (rule Apply_split)
  have "deltas_bounded empty_result" by (simp add: deltas_bounded_def empty_result_def)
  with apply_counters_bounded [OF 1(1)] assms(2,3)
  have "state_bounded st1 \<and> deltas_bounded res1" by (simp add: normalized_ok_def)
  then show ?thesis by (simp add: state_bounded_def deltas_bounded_def 1)
qed

lemma sint_delta: "unat (d :: u64) \<le> 2 ^ 53 \<Longrightarrow> sint d = uint d"
proof -
  assume "unat d \<le> 2 ^ 53"
  then have "int (unat d) \<le> int (2 ^ 53)" by (simp only: of_nat_le_iff)
  then have "uint d < 2 ^ 63" by simp
  then show "sint d = uint d" by (rule sint_small)
qed

lemma increments_total:
  assumes "\<forall>i \<in> set is. described_as (inc_series i) InstrumentCounter \<and> unat (Delta i) \<le> 2 ^ 53"
    and "described_as s InstrumentCounter"
  shows "exported_total s (map increment_point is)
    = sum_list (map (\<lambda>i. if inc_series i = s then uint (Delta i) else 0) is)"
  using assms(1)
proof (induction "is")
  case (Cons i "is")
  then have "same_series s (increment_point i) \<longleftrightarrow> inc_series i = s"
    using same_series_increment assms(2) by simp
  moreover have "point_value (increment_point i) = uint (Delta i)"
    using Cons.prems sint_delta by (simp add: increment_point_def)
  ultimately show ?case using Cons by (simp add: exported_total_def)
qed (simp add: exported_total_def)

section \<open>One record\<close>

text \<open>What the exporter's own metric shows of resets.\<close>

definition reset_points :: "pipeline_sink \<Rightarrow> int point list" where
  "reset_points w =
     filter (\<lambda>p. point_instrument p = ''blobfuse_health_exporter.source.counter_resets'')
       (sink_self_points w)"

definition sink_ok :: "pipeline_sink \<Rightarrow> bool" where
  "sink_ok w \<longleftrightarrow> recorder_ok (sink_recorder w) \<and>
     sourceCounterResets (sink_self w) = ''blobfuse_health_exporter.source.counter_resets'' \<and>
     sourceRecords (sink_self w) = ''blobfuse_health_exporter.source.records''"

lemma outcome_points_no_reset:
  assumes "sink_ok w"
  shows "filter (\<lambda>p. point_instrument p = ''blobfuse_health_exporter.source.counter_resets'')
    (addRecordOutcome oc k (Some (sink_self w))) = []"
  using assms by (auto simp: addRecordOutcome_def sink_ok_def split: option.splits)

lemma reset_point_visible:
  assumes "described_as (reset_series r) InstrumentCounter" "sink_ok w"
  shows "\<exists>p. reset_point (sink_self w) r = [p]
    \<and> point_instrument p = ''blobfuse_health_exporter.source.counter_resets''"
  using assms by (auto simp: described_as_def reset_point_def sink_ok_def split: sum.splits)

lemma reset_points_filter:
  assumes "\<forall>r \<in> set rs. described_as (reset_series r) InstrumentCounter" "sink_ok w"
  shows "length (filter (\<lambda>p. point_instrument p = ''blobfuse_health_exporter.source.counter_resets'')
    (concat (map (reset_point (sink_self w)) rs))) = length rs"
  using assms(1)
proof (induction rs)
  case (Cons r rs)
  obtain p where "reset_point (sink_self w) r = [p]"
    "point_instrument p = ''blobfuse_health_exporter.source.counter_resets''"
    using reset_point_visible assms(2) Cons.prems by fastforce
  with Cons show ?case by simp
qed simp

text \<open>A record that was applied: its points, its resets and the state after it.\<close>

lemma observed_record:
  assumes "Apply RecordModeLive n st = (st', res)" and n: "normalized_ok n" and st: "state_bounded st"
    and w: "sink_ok w" and proc: "Metrics processed = res"
    and s: "described_as s InstrumentCounter" and seen: "counterBaselines st s \<noteq> None"
  shows "let w' = pipeline_observer processed w in
    sink_ok w' \<and> sink_self w' = sink_self w \<and> sink_recorder w' = sink_recorder w
    \<and> length (reset_points w') = length (reset_points w) + length (CounterResets res)
    \<and> exported_total s (sink_points w') = exported_total s (sink_points w) + increased s res"
proof -
  have ser: "result_ok (counter_series ` set (Counters n)) res"
    using Apply_result_ok assms(1) by blast
  have d: "deltas_bounded res" using Apply_bounded assms by blast
  have inc: "\<forall>i \<in> set (CounterIncrements res). described_as (inc_series i) InstrumentCounter
      \<and> unat (Delta i) \<le> 2 ^ 53"
    using ser n d by (auto simp: result_ok_def normalized_ok_def deltas_bounded_def)
  have rst: "\<forall>r \<in> set (CounterResets res). described_as (reset_series r) InstrumentCounter"
    using ser n by (auto simp: result_ok_def normalized_ok_def)
  have rec: "otel_Record processed (sink_recorder w)
      = (sink_recorder w, map increment_point (CounterIncrements res))"
    using otel_Record_described [of "sink_recorder w" processed] w inc
    by (simp add: proc sink_ok_def)
  have tot: "exported_total s (map increment_point (CounterIncrements res)) = increased s res"
    using increments_total [OF inc s] by (simp add: increased_def)
  show ?thesis
    using w reset_points_filter [OF rst w] outcome_points_no_reset [OF w]
    by (simp add: pipeline_observer_def rec tot Let_def reset_points_def self_Record_def proc)
       (simp add: sink_ok_def)
qed

section \<open>A run of records\<close>

lemma live_step:
  assumes p: "proc_observer p = Some pipeline_observer" and b: "state_bounded (proc_state p)"
    and w: "sink_ok w" and s: "described_as s InstrumentCounter"
    and seen: "counterBaselines (proc_state p) s \<noteq> None"
    and run: "snd (Process RecordModeLive r (p, w)) = (p', w')"
  shows "proc_observer p' = Some pipeline_observer \<and> state_bounded (proc_state p') \<and> sink_ok w'
    \<and> counterBaselines (proc_state p') s \<noteq> None \<and> sink_recorder w' = sink_recorder w
    \<and> length (reset_points w) \<le> length (reset_points w')
    \<and> (length (reset_points w') = length (reset_points w) \<longrightarrow>
         exported_total s (sink_points w') - exported_total s (sink_points w)
           = baseline (proc_state p') s - baseline (proc_state p) s)"
proof (cases rule: Process_cases [of r RecordModeLive p w])
  case (rejected e)
  have "otel_Record rejected_record (sink_recorder w) = (sink_recorder w, [])"
    by (simp add: otel_Record_def rejected_record_def empty_result_def)
  then have "w' = w\<lparr>sink_self_points := sink_self_points w
      @ addRecordOutcome RecordInvalid 1 (Some (sink_self w))\<rparr>"
    using run p by (simp add: rejected(2) notify_def pipeline_observer_def self_Record_def
        rejected_record_def empty_result_def)
  moreover have "p' = recordStats rejected_record p" using run by (simp add: rejected(2))
  ultimately show ?thesis
    using p b w seen outcome_points_no_reset [OF w]
    by (auto simp: sink_ok_def reset_points_def)
next
  case (applied n st' res)
  let ?pr = "\<lparr>Outcome = outcome_of n, ProcIgnoredValues = IgnoredValues n,
    ProcInvalidValues = InvalidValues n, Metrics = res\<rparr>"
  have n: "normalized_ok n" using NormalizeRecord_ok applied(1) .
  have w': "w' = pipeline_observer ?pr w" and p': "p' = recordStats ?pr (p\<lparr>proc_state := st'\<rparr>)"
    using run p by (simp_all add: applied(3) notify_def)
  have bal: "counterBaselines st' s \<noteq> None"
    "baseline st' s = baseline (proc_state p) s + increased s res - dropped s res"
    using Apply_balance [OF applied(2) seen] by auto
  have "state_bounded st'" using Apply_bounded [OF applied(2) n b] by blast
  moreover have "CounterResets res = [] \<Longrightarrow> dropped s res = 0" by (simp add: dropped_def)
  ultimately show ?thesis
    using observed_record [OF applied(2) n b w _ s seen, of ?pr] bal p
    by (simp add: Let_def w' p')
qed

lemma live_run:
  assumes "process_all RecordModeLive rs (p, w) = (p', w')"
    and "proc_observer p = Some pipeline_observer" "state_bounded (proc_state p)" "sink_ok w"
    and s: "described_as s InstrumentCounter" and "counterBaselines (proc_state p) s \<noteq> None"
  shows "sink_recorder w' = sink_recorder w \<and> length (reset_points w) \<le> length (reset_points w')
    \<and> (length (reset_points w') = length (reset_points w) \<longrightarrow>
         exported_total s (sink_points w') - exported_total s (sink_points w)
           = baseline (proc_state p') s - baseline (proc_state p) s)"
  using assms
proof (induction rs arbitrary: p w)
  case (Cons r rs)
  obtain p1 w1 where 1: "snd (Process RecordModeLive r (p, w)) = (p1, w1)" by force
  note step = live_step [OF Cons.prems(2,3,4) s Cons.prems(6) 1]
  have "process_all RecordModeLive rs (p1, w1) = (p', w')" using Cons.prems(1) 1 by simp
  from Cons.IH [OF this] step s show ?case by auto
qed simp

text \<open>Baseline records keep the bound and, without an observer, emit nothing.\<close>

lemma baseline_run:
  assumes "process_all mode rs (p, w) = (p', w')" "state_bounded (proc_state p)" "proc_observer p = None"
  shows "state_bounded (proc_state p') \<and> proc_observer p' = None \<and> w' = w"
  using assms
proof (induction rs arbitrary: p w)
  case (Cons r rs)
  show ?case
  proof (cases rule: Process_cases [of r mode p w])
    case (rejected e)
    with Cons show ?thesis by (auto simp: notify_def)
  next
    case (applied n st' res)
    have "state_bounded st'"
      using Apply_bounded [OF applied(2) NormalizeRecord_ok [OF applied(1)]] Cons.prems by blast
    with Cons applied show ?thesis by (auto simp: notify_def)
  qed
qed simp

lemma state_bounded_new [simp]: "state_bounded NewState"
  by (simp add: state_bounded_def NewState_def)

section \<open>Gauges are observed\<close>

definition gauges_ok :: "metric_state \<Rightarrow> bool" where
  "gauges_ok st \<longleftrightarrow> (\<forall>s f. gauges st s = Some f \<longrightarrow> gauge_series_ok s \<and> gauge_level_ok f)"

lemma gauges_fold_ok:
  "\<forall>g \<in> set gs. gauge_series_ok (gauge_series g) \<and> gauge_level_ok (gauge_level g) \<Longrightarrow>
   \<forall>s f. m s = Some f \<longrightarrow> gauge_series_ok s \<and> gauge_level_ok f \<Longrightarrow>
   foldl (\<lambda>m g. m(gauge_series g \<mapsto> gauge_level g)) m gs s = Some f \<Longrightarrow>
     gauge_series_ok s \<and> gauge_level_ok f"
proof (induction gs arbitrary: m)
  case (Cons g gs)
  show ?case
    by (rule Cons.IH [of "m(gauge_series g \<mapsto> gauge_level g)"]) (use Cons.prems in auto)
qed simp

lemma Apply_gauges_ok:
  assumes "Apply mode n st = (st', res)" "normalized_ok n" "gauges_ok st"
  shows "gauges_ok st'"
proof -
  have "gauges st' = foldl (\<lambda>m g. m(gauge_series g \<mapsto> gauge_level g)) (gauges st) (Gauges n)"
    using assms(1) by (rule Apply_split)
  then show ?thesis
    using assms(2,3) gauges_fold_ok [of "Gauges n" "gauges st"]
    unfolding gauges_ok_def normalized_ok_def by metis
qed

lemma process_all_gauges_ok:
  "process_all mode rs (p, w) = (p', w') \<Longrightarrow> gauges_ok (proc_state p) \<Longrightarrow> gauges_ok (proc_state p')"
proof (induction rs arbitrary: p w)
  case (Cons r rs)
  show ?case
  proof (cases rule: Process_cases [of r mode p w])
    case (rejected e)
    with Cons show ?thesis by auto
  next
    case (applied n st' res)
    have "gauges_ok st'"
      using Apply_gauges_ok [OF applied(2) NormalizeRecord_ok [OF applied(1)]] Cons.prems by blast
    with Cons applied show ?thesis by auto
  qed
qed simp

definition gauge_point :: "(series \<rightharpoonup> f64) \<Rightarrow> series \<Rightarrow> f64 point" where
  "gauge_point gs s = \<lparr>point_instrument = metric_name (Metric s), point_value = the (gs s),
     point_attributes = the (metricAttributeSet s)\<rparr>"

lemma observe_gauge_described:
  assumes "recorder_ok rec" "gauge_series_ok s" "gs s \<noteq> None"
  shows "observe_gauge gs (rec, ps) s = (rec, ps @ [gauge_point gs s])"
proof -
  obtain d as where d: "DescribeSeries s = Inr (d, as)"
    "Kind d = InstrumentGauge \<or> Kind d = InstrumentObservableUpDownCounter"
    using assms(2) by (auto simp: gauge_series_ok_def described_as_def split: sum.splits)
  have "metric_kind (Metric s) = Kind d" using DescribeSeries_kind [OF d(1)] by simp
  with assms d show ?thesis
    by (auto simp: recorder_ok_def observe_gauge_def metricAttributeSet_def gauge_point_def)
qed

lemma observeGauges_described:
  assumes "recorder_ok rec" "gauges_ok st" "set order \<subseteq> dom (gauges st)"
  shows "observeGauges order st rec = (rec, map (gauge_point (gauges st)) order)"
proof -
  have "set xs \<subseteq> dom (gauges st) \<Longrightarrow>
    foldl (observe_gauge (gauges st)) (rec, ps) xs = (rec, ps @ map (gauge_point (gauges st)) xs)"
    for xs ps
  proof (induction xs arbitrary: ps)
    case (Cons s xs)
    then have "observe_gauge (gauges st) (rec, ps) s = (rec, ps @ [gauge_point (gauges st) s])"
      using assms(1,2) by (intro observe_gauge_described) (auto simp: gauges_ok_def)
    with Cons show ?case by simp
  qed simp
  from this [OF assms(3)] show ?thesis by (simp add: observeGauges_def state_Gauges_def)
qed

lemma gauges_ok_new [simp]: "gauges_ok NewState"
  by (simp add: gauges_ok_def NewState_def)

end
