(* ===== verification/Documented_Metrics.thy ===== *)
theory Documented_Metrics
  imports Normalizer_Facts
begin

text \<open>
  The metrics as \<open>docs/metrics.md\<close> documents them, and that normalization reports exactly these.
  The tables below are the document's source mappings: a component of the source, one of its
  fields, and the name, the unit and the attributes of the metric the field becomes.  They name none of
  the program's series or enumerations; \<open>exported\<close> is how a series is seen outside.
\<close>

section \<open>The documented tables\<close>

type_synonym exported_series = "string \<times> string \<times> (string \<times> string) list"

definition exported :: "series \<Rightarrow> exported_series option" where
  "exported s =
     (case DescribeSeries s of
        Inl e \<Rightarrow> None
      | Inr (d, as) \<Rightarrow> Some (Name d, Unit d, map (\<lambda>a. (Key a, Value a)) as))"

definition documented_operations :: "(string \<times> string) list" where
  "documented_operations =
    [(''CreateDir'', ''create_dir''), (''DeleteDir'', ''delete_dir''), (''StreamDir'', ''stream_dir''),
     (''RenameDir'', ''rename_dir''), (''CreateFile'', ''create_file''), (''DeleteFile'', ''delete_file''),
     (''RenameFile'', ''rename_file''), (''TruncateFile'', ''truncate_file''), (''CreateLink'', ''create_link''),
     (''ReadLink'', ''read_link''), (''SyncFile'', ''sync_file''), (''SyncDir'', ''sync_dir''), (''Chmod'', ''chmod'')]"

definition documented_counters :: "(string \<times> string \<times> exported_series) list" where
  "documented_counters =
    [(''azstorage'', ''Bytes Downloaded'',
        ''azure.blobfuse.storage.io'', ''By'', [(''azure.blobfuse.io.direction'', ''read'')]),
     (''azstorage'', ''Bytes Uploaded'',
        ''azure.blobfuse.storage.io'', ''By'', [(''azure.blobfuse.io.direction'', ''write'')])]
    @ map (\<lambda>(field, operation). (''libfuse'', field,
        ''azure.blobfuse.fs.operations'', ''{operation}'', [(''azure.blobfuse.operation.name'', operation)]))
        documented_operations
    @ [(''file_cache'', ''Files Downloaded'', ''azure.blobfuse.cache.file.downloads'', ''{file}'', []),
       (''file_cache'', ''Files served from cache'', ''azure.blobfuse.cache.hits'', ''{hit}'', [])]"

text \<open>A gauge is read as an integer or as a formatted string.\<close>

definition integer_level :: "bytes \<Rightarrow> f64 option" where
  "integer_level raw = map_option (\<lambda>v. f64_of_nat (unat v)) (parseSourceInteger raw)"

definition formatted_level :: "(bytes \<Rightarrow> f64 option) \<Rightarrow> bytes \<Rightarrow> f64 option" where
  "formatted_level parse raw = Option.bind (decodeSourceValue decode_string raw) parse"

definition documented_gauges :: "(string \<times> string \<times> exported_series \<times> (bytes \<Rightarrow> f64 option)) list" where
  "documented_gauges =
    [(''azstorage'', ''OpenFileHandles'',
        (''azure.blobfuse.file.open'', ''{file}'', [(''azure.blobfuse.component.name'', ''azstorage'')]), integer_level),
     (''libfuse'', ''OpenFileHandles'',
        (''azure.blobfuse.file.open'', ''{file}'', [(''azure.blobfuse.component.name'', ''libfuse'')]), integer_level),
     (''file_cache'', ''Cache Usage'', (''azure.blobfuse.cache.usage'', ''By'', []), formatted_level parseCacheUsage),
     (''file_cache'', ''Usage Percent'', (''azure.blobfuse.cache.utilization'', ''1'', []), formatted_level parsePercentage)]"

section \<open>What a record is documented to report\<close>

definition of_option :: "'a option \<Rightarrow> 'a list" where
  "of_option x = (case x of None \<Rightarrow> [] | Some v \<Rightarrow> [v])"

text \<open>
  The aggregate snapshots of a record: messages of a component with its values.  A message with an
  operation or a path is an immediate event, which is no snapshot.
\<close>

definition snapshot :: "bytes \<Rightarrow> (string \<times> (string \<rightharpoonup> bytes)) option" where
  "snapshot raw =
     (case decodeSourceValue decode_object raw of
        Some (Some fs) \<Rightarrow>
          if alist_map fs ''operation'' \<noteq> None \<or> alist_map fs ''path'' \<noteq> None then None
          else (case (Option.bind (alist_map fs ''componentName'') (decodeSourceValue decode_string),
                      Option.bind (alist_map fs ''value'') (decodeSourceValue decode_object)) of
                  (Some component, Some (Some values)) \<Rightarrow> Some (component, alist_map values)
                | _ \<Rightarrow> None)
      | _ \<Rightarrow> None)"

definition snapshots :: "(string \<rightharpoonup> bytes) \<Rightarrow> (string \<times> (string \<rightharpoonup> bytes)) list" where
  "snapshots m = concat (map (\<lambda>raw. of_option (snapshot raw))
     (concat (of_option (Option.bind (m ''BlobfuseStats'') (decodeSourceValue decode_array)))))"

definition counts_of :: "string \<Rightarrow> (string \<rightharpoonup> bytes) \<Rightarrow> (exported_series option \<times> u64) list" where
  "counts_of component values = concat (map (\<lambda>(c, field, e).
     if c = component then map (Pair (Some e)) (of_option (Option.bind (values field) parseSourceInteger)) else [])
     documented_counters)"

definition levels_of :: "string \<Rightarrow> (string \<rightharpoonup> bytes) \<Rightarrow> (exported_series option \<times> f64) list" where
  "levels_of component values = concat (map (\<lambda>(c, field, e, read).
     if c = component then map (Pair (Some e)) (of_option (Option.bind (values field) read)) else [])
     documented_gauges)"

definition documented_counts :: "(string \<rightharpoonup> bytes) \<Rightarrow> (exported_series option \<times> u64) list" where
  "documented_counts m = concat (map (\<lambda>(component, values). counts_of component values) (snapshots m))"

definition documented_levels :: "(string \<rightharpoonup> bytes) \<Rightarrow> (exported_series option \<times> f64) list" where
  "documented_levels m = concat (map (\<lambda>(component, values). levels_of component values) (snapshots m))
     @ map (Pair (Some (''process.memory.virtual'', ''By'', [])))
         (of_option (Option.bind (m ''MemoryUsage'') (formatted_level parseMemorySize)))"

section \<open>Normalization reports it\<close>

text \<open>What a normalized record shows of itself outside.\<close>

definition shown_counts :: "normalized_record \<Rightarrow> (exported_series option \<times> u64) list" where
  "shown_counts n = map (\<lambda>c. (exported (counter_series c), counter_count c)) (Counters n)"

definition shown_levels :: "normalized_record \<Rightarrow> (exported_series option \<times> f64) list" where
  "shown_levels n = map (\<lambda>g. (exported (gauge_series g), gauge_level g)) (Gauges n)"

definition shown_time :: "normalized_record \<Rightarrow> go_time option" where
  "shown_time n = (if HasTimestamp n then Some (Timestamp n) else None)"

lemma of_option_simps [simp]: "of_option None = []" "of_option (Some v) = [v]"
  by (simp_all add: of_option_def)

lemma exported_simps:
  "exported \<lparr>Metric = MetricStorageIO, Component = NoComponent, Direction = DirectionRead, Operation = NoOperation\<rparr>
     = Some (''azure.blobfuse.storage.io'', ''By'', [(''azure.blobfuse.io.direction'', ''read'')])"
  "exported \<lparr>Metric = MetricStorageIO, Component = NoComponent, Direction = DirectionWrite, Operation = NoOperation\<rparr>
     = Some (''azure.blobfuse.storage.io'', ''By'', [(''azure.blobfuse.io.direction'', ''write'')])"
  "exported \<lparr>Metric = MetricFSOperations, Component = NoComponent, Direction = NoDirection, Operation = p\<rparr>
     = map_option (\<lambda>name. (''azure.blobfuse.fs.operations'', ''{operation}'', [(''azure.blobfuse.operation.name'', name)]))
         (operationName p)"
  "exported \<lparr>Metric = MetricOpenFiles, Component = ComponentAzStorage, Direction = NoDirection, Operation = NoOperation\<rparr>
     = Some (''azure.blobfuse.file.open'', ''{file}'', [(''azure.blobfuse.component.name'', ''azstorage'')])"
  "exported \<lparr>Metric = MetricOpenFiles, Component = ComponentLibfuse, Direction = NoDirection, Operation = NoOperation\<rparr>
     = Some (''azure.blobfuse.file.open'', ''{file}'', [(''azure.blobfuse.component.name'', ''libfuse'')])"
  "exported \<lparr>Metric = MetricCacheDownloads, Component = NoComponent, Direction = NoDirection, Operation = NoOperation\<rparr>
     = Some (''azure.blobfuse.cache.file.downloads'', ''{file}'', [])"
  "exported \<lparr>Metric = MetricCacheHits, Component = NoComponent, Direction = NoDirection, Operation = NoOperation\<rparr>
     = Some (''azure.blobfuse.cache.hits'', ''{hit}'', [])"
  "exported \<lparr>Metric = MetricCacheUsage, Component = NoComponent, Direction = NoDirection, Operation = NoOperation\<rparr>
     = Some (''azure.blobfuse.cache.usage'', ''By'', [])"
  "exported \<lparr>Metric = MetricCacheUtilization, Component = NoComponent, Direction = NoDirection, Operation = NoOperation\<rparr>
     = Some (''azure.blobfuse.cache.utilization'', ''1'', [])"
  "exported \<lparr>Metric = MetricMemoryVirtual, Component = NoComponent, Direction = NoDirection, Operation = NoOperation\<rparr>
     = Some (''process.memory.virtual'', ''By'', [])"
  by (simp_all add: exported_def DescribeSeries_def descriptorWithoutAttributes_def AttributeIODirection_def
      AttributeOperationName_def AttributeComponentName_def split: option.splits)

text \<open>What each step adds to what is shown.\<close>

lemma shown_kept [simp]:
  "shown_counts (ignore_values k n) = shown_counts n" "shown_levels (ignore_values k n) = shown_levels n"
  "shown_counts (invalid_value n) = shown_counts n" "shown_levels (invalid_value n) = shown_levels n"
  "shown_counts (count_unknown p fs n) = shown_counts n" "shown_levels (count_unknown p fs n) = shown_levels n"
  "shown_time (ignore_values k n) = shown_time n" "shown_time (invalid_value n) = shown_time n"
  "shown_time (count_unknown p fs n) = shown_time n"
  by (simp_all add: shown_counts_def shown_levels_def shown_time_def ignore_values_def invalid_value_def count_unknown_def)

lemma shown_counter [simp]:
  "shown_counts (addCounter vs f s n)
     = shown_counts n @ map (Pair (exported s)) (of_option (Option.bind (alist_map vs f) parseSourceInteger))"
  "shown_levels (addCounter vs f s n) = shown_levels n" "shown_time (addCounter vs f s n) = shown_time n"
  by (simp_all add: addCounter_def split: option.split)
    (simp_all add: shown_counts_def shown_levels_def shown_time_def append_counter_def)

lemma shown_integer [simp]:
  "shown_counts (addIntegerGauge vs f s n) = shown_counts n"
  "shown_levels (addIntegerGauge vs f s n)
     = shown_levels n @ map (Pair (exported s)) (of_option (Option.bind (alist_map vs f) integer_level))"
  "shown_time (addIntegerGauge vs f s n) = shown_time n"
  by (simp_all add: addIntegerGauge_def integer_level_def split: option.split)
    (simp_all add: shown_counts_def shown_levels_def shown_time_def append_gauge_def)

lemma shown_formatted [simp]:
  "shown_counts (addFormattedGauge vs f s parse n) = shown_counts n"
  "shown_levels (addFormattedGauge vs f s parse n)
     = shown_levels n @ map (Pair (exported s)) (of_option (Option.bind (alist_map vs f) (formatted_level parse)))"
  "shown_time (addFormattedGauge vs f s parse n) = shown_time n"
  by (simp_all add: addFormattedGauge_def formatted_level_def split: option.split)
    (simp_all add: shown_counts_def shown_levels_def shown_time_def append_gauge_def)

lemma shown_component [simp]:
  "shown_counts (normalize_component c vs n) = shown_counts n @ counts_of c (alist_map vs)"
  "shown_levels (normalize_component c vs n) = shown_levels n @ levels_of c (alist_map vs)"
  "shown_time (normalize_component c vs n) = shown_time n"
  by (auto simp: normalize_component_def normalizeAzStorage_def normalizeLibfuse_def normalizeFileCache_def Let_def
      counts_of_def levels_of_def documented_counters_def documented_operations_def documented_gauges_def
      operationFields_def zero_series_def exported_simps)

lemma shown_validate_string [simp]:
  "shown_counts (validate_string raw n) = shown_counts n" "shown_levels (validate_string raw n) = shown_levels n"
  "shown_time (validate_string raw n) = shown_time n"
  by (simp_all add: validate_string_def split: option.split)

lemma shown_event_fields [simp]:
  "shown_counts (validateEventFields fs n) = shown_counts n" "shown_levels (validateEventFields fs n) = shown_levels n"
  "shown_time (validateEventFields fs n) = shown_time n"
  by (simp_all add: validateEventFields_def Let_def split: option.split)

lemma shown_message_timestamp [simp]:
  "shown_counts (validateMessageTimestamp raw n) = shown_counts n"
  "shown_levels (validateMessageTimestamp raw n) = shown_levels n"
  "shown_time (validateMessageTimestamp raw n) = shown_time n"
  by (simp_all add: validateMessageTimestamp_def split: option.split)

lemma shown_message [simp]:
  "shown_counts (normalizeBlobfuseMessage raw n)
     = shown_counts n @ concat (map (\<lambda>(c, vs). counts_of c vs) (of_option (snapshot raw)))"
  "shown_levels (normalizeBlobfuseMessage raw n)
     = shown_levels n @ concat (map (\<lambda>(c, vs). levels_of c vs) (of_option (snapshot raw)))"
  "shown_time (normalizeBlobfuseMessage raw n) = shown_time n"
  by (simp_all add: normalizeBlobfuseMessage_def normalize_values_def snapshot_def Let_def split: option.split)

lemma shown_messages:
  "shown_counts (foldl (\<lambda>n m. normalizeBlobfuseMessage m n) n ms)
     = shown_counts n @ concat (map (\<lambda>(c, vs). counts_of c vs) (concat (map (\<lambda>raw. of_option (snapshot raw)) ms)))"
  "shown_levels (foldl (\<lambda>n m. normalizeBlobfuseMessage m n) n ms)
     = shown_levels n @ concat (map (\<lambda>(c, vs). levels_of c vs) (concat (map (\<lambda>raw. of_option (snapshot raw)) ms)))"
  "shown_time (foldl (\<lambda>n m. normalizeBlobfuseMessage m n) n ms) = shown_time n"
  by (induction ms arbitrary: n) simp_all

lemma shown_parts [simp]:
  "shown_counts (normalizeTimestamp raw n) = shown_counts n" "shown_levels (normalizeTimestamp raw n) = shown_levels n"
  "shown_counts (normalizeUnsupportedArray raw n) = shown_counts n"
  "shown_levels (normalizeUnsupportedArray raw n) = shown_levels n"
  "shown_time (normalizeUnsupportedArray raw n) = shown_time n"
  "shown_counts (normalizeUnsupportedString raw n) = shown_counts n"
  "shown_levels (normalizeUnsupportedString raw n) = shown_levels n"
  "shown_time (normalizeUnsupportedString raw n) = shown_time n"
  "shown_counts (normalizeMemory raw n) = shown_counts n" "shown_time (normalizeMemory raw n) = shown_time n"
  by (simp_all add: normalizeTimestamp_def normalizeUnsupportedArray_def normalizeUnsupportedString_def
      normalizeMemory_def split: option.split)
    (simp_all add: shown_counts_def shown_levels_def shown_time_def append_gauge_def)

lemma shown_memory [simp]:
  "shown_levels (normalizeMemory raw n) = shown_levels n @ map (Pair (Some (''process.memory.virtual'', ''By'', [])))
     (of_option (Option.bind raw (formatted_level parseMemorySize)))"
  by (simp add: normalizeMemory_def formatted_level_def split: option.split)
    (simp add: shown_levels_def append_gauge_def zero_series_def exported_simps)

lemma shown_timestamp [simp]:
  "shown_time n = None \<Longrightarrow> shown_time (normalizeTimestamp raw n)
     = Option.bind (Option.bind raw (decodeSourceValue decode_string)) ParseRFC3339"
  by (simp add: normalizeTimestamp_def split: option.split) (simp add: shown_time_def)

lemma shown_zero [simp]: "shown_counts zero_normalized = []" "shown_levels zero_normalized = []" "shown_time zero_normalized = None"
  by (simp_all add: shown_counts_def shown_levels_def shown_time_def zero_normalized_def)

lemma normalize_fields_documented:
  "shown_counts (normalize_fields fs) = documented_counts (alist_map fs)"
  "shown_levels (normalize_fields fs) = documented_levels (alist_map fs)"
  "shown_time (normalize_fields fs)
     = Option.bind (Option.bind (alist_map fs ''Timestamp'') (decodeSourceValue decode_string)) ParseRFC3339"
  by (simp_all add: normalize_fields_def normalizeBlobfuseStats_def Let_def documented_counts_def documented_levels_def
      snapshots_def shown_messages split: option.split)

end
