(* ===== verification/Metrics_Properties.thy ===== *)
theory Metrics_Properties
  imports Pipeline Decoder_Properties Documented_Metrics
begin

text \<open>
  The properties of normalization, of the metric state and of the recorders, with their
  witnesses.  \<open>value_run\<close>, \<open>string_run\<close> and \<open>number_run\<close> evaluate the library functions on
  concrete bytes; the texts the witnesses use are defined first and evaluated once.
\<close>

lemmas value_run =
  take_value_def members.simps elements.simps unquote_keys_def decode_object_def null_literal_def
  sole_value_def only_space_def value_rest_def decode_array_def decode_string_def decode_any_def
  unquote_def unquote_body.simps quoted_def

lemmas string_run =
  TrimSpace_def trim_left.simps trim_left_rev.simps space_width_def space_width_rev_def
  ascii_space_def space_runes2_def space_runes3_def

lemmas number_run =
  Rat_SetString_def strip_sign_def scanExponent_def max_exp5_def IsInt_def Num_def
  maxExactSourceInteger_def digit_value_def

lemmas fields_run =
  alist_map_def alist_keys_def count_unknown_def ignore_values_def zero_normalized_def
  addCounter_def append_counter_def zero_series_def

section \<open>Example texts\<close>

lemma parse_five: "parseSourceInteger ''5'' = Some 5"
  by (simp add: parseSourceInteger_def decodeSourceValue_def string_run json_run value_run number_run)

lemma parse_nine: "parseSourceInteger ''9'' = Some 9"
  by (simp add: parseSourceInteger_def decodeSourceValue_def string_run json_run value_run number_run)

definition sample_record :: "bytes \<Rightarrow> source_record" where
  "sample_record count =
     \<lparr>Raw = ''{'' @ quoted ''BlobfuseStats'' @ '':[{'' @ quoted ''componentName'' @ '':''
        @ quoted ''azstorage'' @ '','' @ quoted ''value'' @ '':{'' @ quoted ''Bytes Downloaded''
        @ '':'' @ count @ ''}}]}'',
      StartOffset = 0, EndOffset = 0, Fingerprint = [], ClosesArray = True, token = 1\<rparr>"

definition storage_read :: series where
  "storage_read = zero_series\<lparr>Metric := MetricStorageIO, Direction := DirectionRead\<rparr>"

definition sample_normalized :: "u64 \<Rightarrow> normalized_record" where
  "sample_normalized v = zero_normalized\<lparr>Counters := [\<lparr>counter_series = storage_read, counter_count = v\<rparr>]\<rparr>"

definition sample_message :: "bytes \<Rightarrow> bytes" where
  "sample_message count = ''{'' @ quoted ''componentName'' @ '':''
        @ quoted ''azstorage'' @ '','' @ quoted ''value'' @ '':{'' @ quoted ''Bytes Downloaded''
        @ '':'' @ count @ ''}}''"

lemma sample_decode:
  "Record_Decode (sample_record ''5'') = Inr (Some [(''BlobfuseStats'', ''['' @ sample_message ''5'' @ '']'')])"
  "Record_Decode (sample_record ''9'') = Inr (Some [(''BlobfuseStats'', ''['' @ sample_message ''9'' @ '']'')])"
  by (simp_all add: Record_Decode_def sample_record_def sample_message_def json_run value_run)

lemma sample_messages:
  "decodeSourceValue decode_array (''['' @ sample_message ''5'' @ '']'') = Some [sample_message ''5'']"
  "decodeSourceValue decode_array (''['' @ sample_message ''9'' @ '']'') = Some [sample_message ''9'']"
  by (simp_all add: decodeSourceValue_def sample_message_def string_run json_run value_run)

lemma sample_message_fields:
  "decodeSourceValue decode_object (sample_message ''5'') = Some (Some
     [(''componentName'', quoted ''azstorage''), (''value'', ''{'' @ quoted ''Bytes Downloaded'' @ '':5}'')])"
  "decodeSourceValue decode_object (sample_message ''9'') = Some (Some
     [(''componentName'', quoted ''azstorage''), (''value'', ''{'' @ quoted ''Bytes Downloaded'' @ '':9}'')])"
  by (simp_all add: decodeSourceValue_def sample_message_def string_run json_run value_run)

lemma sample_component: "decodeSourceValue decode_string (quoted ''azstorage'') = Some ''azstorage''"
  by (simp add: decodeSourceValue_def string_run json_run value_run)

lemma sample_object:
  "decodeSourceValue decode_object (''{'' @ quoted ''Bytes Downloaded'' @ '':5}'')
     = Some (Some [(''Bytes Downloaded'', ''5'')])"
  "decodeSourceValue decode_object (''{'' @ quoted ''Bytes Downloaded'' @ '':9}'')
     = Some (Some [(''Bytes Downloaded'', ''9'')])"
  by (simp_all add: decodeSourceValue_def string_run json_run value_run)

lemma sample_storage:
  "normalizeAzStorage [(''Bytes Downloaded'', ''5'')] zero_normalized = sample_normalized 5"
  "normalizeAzStorage [(''Bytes Downloaded'', ''9'')] zero_normalized = sample_normalized 9"
  by (simp_all add: normalizeAzStorage_def fields_run addIntegerGauge_def parse_five parse_nine
      sample_normalized_def storage_read_def)

lemma sample_normalizes:
  "NormalizeRecord (sample_record ''5'') = Inr (sample_normalized 5)"
  "NormalizeRecord (sample_record ''9'') = Inr (sample_normalized 9)"
proof -
  have no_extra: "count_unknown isKnownTopLevelField [(''BlobfuseStats'', v)] zero_normalized = zero_normalized"
    "count_unknown isKnownMessageField [(''componentName'', v), (''value'', w)] zero_normalized = zero_normalized"
    for v w
    by (simp_all add: fields_run isKnownTopLevelField_def isKnownMessageField_def)
  have "normalizeBlobfuseMessage (sample_message ''5'') zero_normalized = sample_normalized 5"
    "normalizeBlobfuseMessage (sample_message ''9'') zero_normalized = sample_normalized 9"
    by (simp_all only: normalizeBlobfuseMessage_def sample_message_fields option.case Let_def no_extra)
      (simp_all add: alist_map_def validateMessageTimestamp_def normalize_values_def sample_component
        sample_object [simplified] normalize_component_def sample_storage)
  then show "NormalizeRecord (sample_record ''5'') = Inr (sample_normalized 5)"
    "NormalizeRecord (sample_record ''9'') = Inr (sample_normalized 9)"
    by (simp_all only: NormalizeRecord_def sample_decode sum.case option.case normalize_fields_def
        Let_def no_extra)
      (simp_all add: alist_map_def normalizeTimestamp_def normalizeBlobfuseStats_def
        sample_messages [simplified] normalizeUnsupportedArray_def normalizeUnsupportedString_def normalizeMemory_def)
qed

lemma storage_read_described: "described_as storage_read InstrumentCounter"
  by (simp add: describe_simps storage_read_def)

section \<open>From records to exported sums\<close>

text \<open>
  Once the pipeline is attached after a baseline, and for every counter series the baseline
  saw, what the exporter has handed to the SDK for that series is exactly how far the source's
  counter has moved since the cutover, as long as its own reset metric shows no decrease; and no
  increment is ever dropped for want of an instrument.
\<close>

theorem exported_totals_match_source:
  assumes "NewProcessor (Some NewState) None = Inr p0"
    and "NewOTelRecorder meter (Some st0) None = Inr (sink_recorder w)"
    and "NewSelfRecorder selfMeter = Inr (sink_self w)"
    and "process_all RecordModeBaseline rs0 (p0, w) = (p1, w1)"
    and "AttachObserver (Some pipeline_observer) p1 = (None, p2)"
    and "process_all RecordModeLive rs (p2, w1) = (p3, w3)"
    and "described_as s InstrumentCounter" and "CounterBaselines (proc_state p1) s \<noteq> None"
  shows "DroppedInvalidSeries (sink_recorder w3) = 0
    \<and> (length (reset_points w3) = length (reset_points w) \<longrightarrow>
         exported_total s (sink_points w3) - exported_total s (sink_points w)
           = baseline (proc_state p3) s - baseline (proc_state p1) s)"
proof -
  have p0: "proc_state p0 = NewState" "proc_observer p0 = None"
    using assms(1) by (auto simp: NewProcessor_def)
  have p1: "state_bounded (proc_state p1)" "w1 = w"
    using baseline_run [OF assms(4)] p0 by auto
  have p2: "p2 = p1\<lparr>proc_observer := Some pipeline_observer\<rparr>"
    using assms(5) by (auto simp: AttachObserver_def split: if_splits)
  have "sink_ok w" "droppedInvalidSeries (sink_recorder w) = 0"
    using NewOTelRecorder_ok [OF assms(2)] NewSelfRecorder_names [OF assms(3)]
    by (simp_all add: sink_ok_def)
  with live_run [OF assms(6) _ _ _ assms(7)] p1 p2 assms(8) show ?thesis
    by (simp add: CounterBaselines_def DroppedInvalidSeries_def)
qed

definition sample_sink :: "otel_recorder \<Rightarrow> self_recorder \<Rightarrow> pipeline_sink" where
  "sample_sink rec self = \<lparr>sink_recorder = rec, sink_self = self, sink_points = [], sink_self_points = []\<rparr>"

lemma sample_apply:
  "Apply RecordModeBaseline (sample_normalized 5) NewState
     = (NewState\<lparr>counterBaselines := [storage_read \<mapsto> 5]\<rparr>, empty_result)"
  "Apply RecordModeLive (sample_normalized 9) (NewState\<lparr>counterBaselines := [storage_read \<mapsto> 5]\<rparr>)
     = (NewState\<lparr>counterBaselines := [storage_read \<mapsto> 9]\<rparr>,
        empty_result\<lparr>CounterIncrements := [\<lparr>inc_series = storage_read, Delta = 4\<rparr>]\<rparr>)"
  by (simp_all add: Apply_def sample_normalized_def zero_normalized_def apply_counter_def
      NewState_def empty_result_def)

lemma sample_outcome:
  "outcome_of (sample_normalized v) = RecordAccepted" "IgnoredValues (sample_normalized v) = 0"
  "InvalidValues (sample_normalized v) = 0"
  by (simp_all add: sample_normalized_def outcome_of_def zero_normalized_def)

theorem exported_totals_match_source_witness:
  "\<exists>p0 rec self p1 p2 p3 w3.
     NewProcessor (Some NewState) None = Inr p0
     \<and> NewOTelRecorder (Some (\<lambda>d. None)) (Some NewState) None = Inr rec
     \<and> NewSelfRecorder (Some (\<lambda>d. None)) = Inr self
     \<and> process_all RecordModeBaseline [sample_record ''5''] (p0, sample_sink rec self) = (p1, sample_sink rec self)
     \<and> AttachObserver (Some pipeline_observer) p1 = (None, p2)
     \<and> process_all RecordModeLive [sample_record ''9''] (p2, sample_sink rec self) = (p3, w3)
     \<and> exported_total storage_read (sink_points w3) = 4"
proof -
  define p0 :: "pipeline_sink processor"
    where "p0 = \<lparr>proc_state = NewState, proc_observer = None, stats = zero_stats\<rparr>"
  have n: "NewProcessor (Some NewState) None = Inr p0" by (simp add: NewProcessor_def p0_def)
  obtain rec where rec: "NewOTelRecorder (Some (\<lambda>d. None)) (Some NewState) None = Inr rec"
    by (simp add: NewOTelRecorder_def representativeSeries_def add_instrument_def DescribeSeries_def
        descriptorWithoutAttributes_def zero_series_def empty_recorder_def)
  obtain self where self: "NewSelfRecorder (Some (\<lambda>d. None)) = Inr self"
    by (simp add: NewSelfRecorder_def self_instruments_def)
  define w where "w = sample_sink rec self"
  obtain p1 w1 where p1: "process_all RecordModeBaseline [sample_record ''5''] (p0, w) = (p1, w1)" by force
  have st1: "proc_state p1 = NewState\<lparr>counterBaselines := [storage_read \<mapsto> 5]\<rparr>"
      "proc_observer p1 = None" "w1 = w"
    using p1 by (auto simp: Process_def sample_normalizes p0_def sample_apply notify_def Let_def)
  obtain p2 where p2: "AttachObserver (Some pipeline_observer) p1 = (None, p2)"
    by (simp add: AttachObserver_def st1)
  obtain p3 w3 where p3: "process_all RecordModeLive [sample_record ''9''] (p2, w1) = (p3, w3)" by force
  have st2: "p2 = p1\<lparr>proc_observer := Some pipeline_observer\<rparr>" using p2 by (simp add: AttachObserver_def st1)
  have st3: "proc_state p3 = NewState\<lparr>counterBaselines := [storage_read \<mapsto> 9]\<rparr>"
    using p3 by (auto simp: Process_def sample_normalizes st1 st2 sample_apply Let_def)
  have "w3 = pipeline_observer \<lparr>Outcome = RecordAccepted, ProcIgnoredValues = 0, ProcInvalidValues = 0,
      Metrics = empty_result\<lparr>CounterIncrements := [\<lparr>inc_series = storage_read, Delta = 4\<rparr>]\<rparr>\<rparr> w"
    using p3 by (auto simp: Process_def sample_normalizes st1 st2 sample_apply Let_def notify_def
        sample_outcome)
  then have r: "length (reset_points w3) = length (reset_points w)"
    using NewSelfRecorder_def [of "Some (\<lambda>d. None)"] self
    by (simp add: pipeline_observer_def reset_points_def self_Record_def addRecordOutcome_def
        empty_result_def self_instruments_def w_def sample_sink_def split: prod.splits)
  have sink: "NewOTelRecorder (Some (\<lambda>d. None)) (Some NewState) None = Inr (sink_recorder w)"
    "NewSelfRecorder (Some (\<lambda>d. None)) = Inr (sink_self w)"
    using rec self by (simp_all add: w_def sample_sink_def)
  have seen: "CounterBaselines (proc_state p1) storage_read \<noteq> None"
    by (simp add: CounterBaselines_def st1)
  have "exported_total storage_read (sink_points w3) - exported_total storage_read (sink_points w) = 4"
    using exported_totals_match_source [OF n sink p1 p2 p3 storage_read_described seen] r
    by (simp add: st1 st3 baseline_def)
  then have "exported_total storage_read (sink_points w3) = 4"
    by (simp add: w_def sample_sink_def exported_total_def)
  with n rec self p1 p2 p3 st1(3) show ?thesis unfolding w_def by blast
qed

section \<open>Normalized values\<close>

text \<open>
  C8. Whatever the bytes of a record are, every counter it is normalized to belongs to a described
  counter metric and is at most \<open>2^53\<close>, and every gauge belongs to a described gauge metric and
  is a finite number that is not negative.
\<close>

theorem normalized_values_are_reportable:
  assumes "NormalizeRecord r = Inr n"
  shows "(\<forall>c \<in> set (Counters n). described_as (counter_series c) InstrumentCounter
            \<and> unat (counter_count c) \<le> 2 ^ 53)
    \<and> (\<forall>g \<in> set (Gauges n).
          (described_as (gauge_series g) InstrumentGauge
            \<or> described_as (gauge_series g) InstrumentObservableUpDownCounter)
          \<and> \<not> IsNaN (gauge_level g) \<and> \<not> IsInf (gauge_level g) \<and> 0 \<le> f64_real (gauge_level g))"
proof -
  have "0 \<le> f64_real f" if "\<not> f64_negative f" for f
    using that by (cases f) auto
  then show ?thesis
    using NormalizeRecord_ok [OF assms]
    by (simp add: normalized_ok_def gauge_series_ok_def gauge_level_ok_def)
qed

theorem normalized_values_are_reportable_witness:
  "\<exists>n. NormalizeRecord (sample_record ''5'') = Inr n
     \<and> (\<exists>c \<in> set (Counters n). described_as (counter_series c) InstrumentCounter)"
  using normalized_values_are_reportable [OF sample_normalizes(1)] sample_normalizes(1)
  by (simp add: sample_normalized_def)

text \<open>
  C9. An integer of a report is taken exactly or not at all: an accepted value is the number the
  JSON text denotes, at most \<open>2^53\<close>; and a text that denotes such an integer is accepted whenever
  its exponent is within the bounds of the exact parser.
\<close>

theorem source_integers_are_exact:
  assumes "decodeSourceValue decode_any raw = Some (AnyNumber number)"
  shows "(\<forall>v. parseSourceInteger raw = Some v \<longrightarrow>
            real (unat v) = number_value number \<and> unat v \<le> 2 ^ 53)
    \<and> (\<forall>k q. Rat_SetString number = Some q \<and> number_value number = real k \<and> k \<le> 2 ^ 53 \<longrightarrow>
            parseSourceInteger raw = Some (of_nat k))"
  using parseSourceInteger_exact [of raw] parseSourceInteger_complete [OF assms] assms by auto

theorem source_integers_are_exact_witness:
  "real (unat (50 :: u64)) = number_value ''0.5e2''"
proof -
  have d: "decodeSourceValue decode_any ''0.5e2'' = Some (AnyNumber ''0.5e2'')"
    by (simp add: decodeSourceValue_def string_run json_run value_run)
  have "parseSourceInteger ''0.5e2'' = Some 50"
    by (simp add: parseSourceInteger_def d number_run json_run ParseInt64_def all_digits_def digits_value_def)
  with source_integers_are_exact [OF d] show ?thesis by simp
qed

text \<open>The suffixes of a memory size, in the order of the powers of 1024 they stand for.\<close>

definition is_suffix :: "char \<Rightarrow> nat \<Rightarrow> bool" where
  "is_suffix c j \<longleftrightarrow> j < 6 \<and> (c = ''kmgtpe'' ! j \<or> c = ''KMGTPE'' ! j)"

lemma is_suffix_cases:
  "is_suffix c j \<longleftrightarrow>
     j = 0 \<and> c \<in> {CHR ''k'', CHR ''K''} \<or> j = 1 \<and> c \<in> {CHR ''m'', CHR ''M''} \<or> j = 2 \<and> c \<in> {CHR ''g'', CHR ''G''}
     \<or> j = 3 \<and> c \<in> {CHR ''t'', CHR ''T''} \<or> j = 4 \<and> c \<in> {CHR ''p'', CHR ''P''} \<or> j = 5 \<and> c \<in> {CHR ''e'', CHR ''E''}"
proof (cases "j < 6")
  case True
  then consider "j = 0" | "j = 1" | "j = 2" | "j = 3" | "j = 4" | "j = 5" by fastforce
  then show ?thesis by cases (simp_all add: is_suffix_def)
qed (auto simp: is_suffix_def)

lemma memory_shift_of_suffix: "is_suffix c j \<Longrightarrow> memory_shift c = Some (10 * (j + 1))"
  unfolding is_suffix_cases by (elim disjE conjE; elim insertE emptyE; simp add: memory_shift_def)

lemma suffix_of_memory_shift: "memory_shift c = Some k \<Longrightarrow> \<exists>j. is_suffix c j"
  unfolding is_suffix_cases by (simp add: memory_shift_def ex_disj_distrib split: if_splits; elim disjE; simp)

lemma memory_shift_suffix: "memory_shift c = Some k \<longleftrightarrow> (\<exists>j. is_suffix c j \<and> k = 10 * (j + 1))"
  using memory_shift_of_suffix [of c] suffix_of_memory_shift [of c k] by (metis option.inject)

lemma power_1024: "(1024 :: real) ^ (j + 1) = 2 ^ (10 * (j + 1))"
  by (simp add: power_mult power_add)

lemma parseMemorySize_snoc:
  assumes "TrimSpace s = num @ [c]"
  shows "parseMemorySize s = (if num = [] then None else
    (case memory_shift c of None \<Rightarrow> None | Some k \<Rightarrow> parseScaledNonNegative (TrimSpace num) (f64_pow2 k)))"
  using assms by (simp add: parseMemorySize_def Suc_le_eq not_less split: option.split)

lemma parse_scaled_exact:
  assumes "parseScaledNonNegative t (f64_pow2 k) = Some v"
  shows "\<exists>x. ParseFloat t = Some x \<and> 0 \<le> f64_real x \<and> f64_real v = f64_real x * 2 ^ k"
proof -
  obtain x where x: "ParseFloat t = Some x" "\<not> IsNaN x" "\<not> IsInf x" "\<not> f64_negative x"
    "v = f64_mult x (f64_pow2 k)" "\<not> IsNaN v" "\<not> IsInf v"
    using assms by (auto simp: parseScaledNonNegative_def Let_def split: option.splits if_splits)
  obtain a m e where a: "x = Fin a m e" using x(2,3) by (cases x) (auto simp: IsNaN_def)
  obtain b n f where b: "v = Fin b n f" using x(6,7) by (cases v) (auto simp: IsNaN_def)
  have "f64_mult (Fin a m e) (f64_pow2 k) = Fin b n f" using x(5) unfolding a b by (rule sym)
  then have "f64_real v = f64_real x * 2 ^ k"
    using f64_mult_pow2 ParseFloat_normal [OF x(1)] unfolding a b by blast
  moreover have "0 \<le> f64_real x" using x(4) by (auto simp: a)
  ultimately show ?thesis using x(1) by blast
qed

lemma parse_scaled_accepts:
  assumes "ParseFloat t = Some x" "\<not> IsNaN x" "\<not> IsInf x" "0 \<le> f64_real x" "f64_real x * 2 ^ k < 2 ^ 1023"
  shows "\<exists>v. parseScaledNonNegative t (f64_pow2 k) = Some v"
proof -
  obtain a m e where a: "x = Fin a m e" using assms(2,3) by (cases x) (auto simp: IsNaN_def)
  have sign: "\<not> (a \<and> m \<noteq> 0)"
  proof
    assume "a \<and> m \<noteq> 0"
    then have "f64_real x < 0" by (simp add: a)
    with assms(4) show False by simp
  qed
  then have "real m * 2 powi e * 2 ^ k < 2 ^ 1023" using assms(5) by (cases "m = 0") (auto simp: a)
  from f64_mult_pow2_finite [OF this, of a] obtain b n f where "f64_mult x (f64_pow2 k) = Fin b n f" by (auto simp: a)
  with assms(1) sign show ?thesis by (simp add: parseScaledNonNegative_def a IsNaN_def)
qed

text \<open>
  C10. A memory size is the number before its suffix times the power of 1024 the suffix stands for,
  \<open>k\<close> for the first to \<open>e\<close> for the sixth in either case, with no rounding beyond that of reading the
  number: every accepted text has such a suffix and a number that is not negative, every such text
  below \<open>2^1023\<close> bytes is accepted, and one of decimal digits up to \<open>2^53\<close> is exact to the byte.
\<close>

theorem memory_size_is_exact:
  assumes "TrimSpace s = num @ [c]"
  shows "(\<forall>v. parseMemorySize s = Some v \<longrightarrow> (\<exists>j x. is_suffix c j \<and> ParseFloat (TrimSpace num) = Some x
            \<and> 0 \<le> f64_real x \<and> f64_real v = f64_real x * 1024 ^ (j + 1)))
    \<and> (\<forall>j x. is_suffix c j \<and> num \<noteq> [] \<and> ParseFloat (TrimSpace num) = Some x \<and> \<not> IsNaN x \<and> \<not> IsInf x
            \<and> 0 \<le> f64_real x \<and> f64_real x * 1024 ^ (j + 1) < 2 ^ 1023 \<longrightarrow> parseMemorySize s \<noteq> None)
    \<and> (\<forall>j n. is_suffix c j \<and> num = digits_of n \<and> n \<le> 2 ^ 53 \<longrightarrow>
            (\<exists>v. parseMemorySize s = Some v \<and> f64_real v = real n * 1024 ^ (j + 1)))"
proof (intro conjI allI impI)
  note p = parseMemorySize_snoc [OF assms]
  {
    fix v assume "parseMemorySize s = Some v"
    then obtain k where "memory_shift c = Some k" "parseScaledNonNegative (TrimSpace num) (f64_pow2 k) = Some v"
      by (auto simp: p split: if_splits option.splits)
    moreover from this(1) obtain j where "is_suffix c j" "k = 10 * (j + 1)" using memory_shift_suffix by blast
    ultimately show "\<exists>j x. is_suffix c j \<and> ParseFloat (TrimSpace num) = Some x
        \<and> 0 \<le> f64_real x \<and> f64_real v = f64_real x * 1024 ^ (j + 1)"
      using parse_scaled_exact unfolding power_1024 by metis
  next
    fix j x assume h: "is_suffix c j \<and> num \<noteq> [] \<and> ParseFloat (TrimSpace num) = Some x \<and> \<not> IsNaN x \<and> \<not> IsInf x
        \<and> 0 \<le> f64_real x \<and> f64_real x * 1024 ^ (j + 1) < 2 ^ 1023"
    then have "memory_shift c = Some (10 * (j + 1))" using memory_shift_suffix by blast
    with h parse_scaled_accepts [of "TrimSpace num" x "10 * (j + 1)"] show "parseMemorySize s \<noteq> None"
      unfolding power_1024 by (auto simp: p)
  next
    fix j n assume h: "is_suffix c j \<and> num = digits_of n \<and> n \<le> 2 ^ 53"
    then have k: "memory_shift c = Some (10 * (j + 1))" using memory_shift_suffix by blast
    have d: "list_all is_digit num" "num \<noteq> []" "digits_value num = n"
      using h digits_of_value [of n] by (simp_all add: all_digits_def)
    have t: "TrimSpace num = num" using digits_of_plain [of n] h by (auto simp: plain_word_def list_all_iff intro!: TrimSpace_plain)
    obtain m e where f: "f64_of_nat n = Fin False m e" "f64_real (f64_of_nat n) = real n"
      using f64_of_nat_exact [of n] h by blast
    have x: "ParseFloat (TrimSpace num) = Some (f64_of_nat n)"
      unfolding t using ParseFloat_digits [OF d(1,2)] d(3) h by simp
    have "real n * 2 ^ (10 * (j + 1)) < 2 ^ 1023"
    proof -
      have "real n \<le> 2 ^ 53" using h by (metis of_nat_le_iff of_nat_numeral of_nat_power)
      moreover have "(2 :: real) ^ (10 * (j + 1)) \<le> 2 ^ 60" using h by (intro power_increasing) (auto simp: is_suffix_def)
      ultimately have "real n * 2 ^ (10 * (j + 1)) \<le> 2 ^ 53 * 2 ^ 60" by (intro mult_mono) auto
      also have "\<dots> < (2 :: real) ^ 1023" unfolding power_add [symmetric] by (intro power_strict_increasing) auto
      finally show ?thesis .
    qed
    then obtain v where v: "parseScaledNonNegative (TrimSpace num) (f64_pow2 (10 * (j + 1))) = Some v"
      using parse_scaled_accepts [OF x, of "10 * (j + 1)"] f by (auto simp: IsNaN_def)
    with parse_scaled_exact [OF v] x f(2) d(2) k show "\<exists>v. parseMemorySize s = Some v \<and> f64_real v = real n * 1024 ^ (j + 1)"
      unfolding power_1024 by (auto simp: p)
  }
qed

lemmas float_run =
  ParseFloat_def special_float_def readFloat_def strip_sign_def lower_def literal_exponent_def
  mantissa_zero_def push_digit_def hex_digit_value_def digit_value_def byte_of_def is_hex_letter_def
  literal_value_def round_ratio_def leading_bit_def scaled_def half_even_def min_exp_def max_exp_def

lemma parse_two_and_half: "ParseFloat ''2.5'' = Some (Fin False 5629499534213120 (- 51))"
proof -
  have r: "readFloat ''2.5'' = Some \<lparr>lit_neg = False, lit_hex = False, lit_mantissa = 25, lit_exp = - 1\<rparr>"
    by (simp add: float_run json_run)
  have "round_ratio False 25 10 = Fin False 5629499534213120 (- 51)"
    by (simp add: round_ratio_def leading_bit_def scaled_def half_even_def min_exp_def max_exp_def)
  then show ?thesis
    by (simp add: ParseFloat_def special_float_def strip_sign_def lower_def byte_code_def r literal_value_def)
qed

lemma trim_two_and_half: "TrimSpace ''2.5k'' = ''2.5k''" "TrimSpace ''2.5'' = ''2.5''"
  by (simp_all add: string_run json_run)

lemma parse_two_and_half_k:
  "parseMemorySize ''2.5k'' = Some (f64_mult (Fin False 5629499534213120 (- 51)) (f64_pow2 10))"
  by (simp add: parseMemorySize_def trim_two_and_half memory_shift_def parseScaledNonNegative_def
      parse_two_and_half IsNaN_def f64_pow2_def round_ratio_def leading_bit_def scaled_def
      half_even_def min_exp_def max_exp_def)

theorem memory_size_is_exact_witness:
  "(\<exists>v x. parseMemorySize ''2.5k'' = Some v \<and> ParseFloat ''2.5'' = Some x \<and> f64_real v = f64_real x * 1024)
   \<and> (\<exists>v. parseMemorySize ''3g'' = Some v \<and> f64_real v = 3221225472)"
proof
  have t: "TrimSpace ''2.5k'' = ''2.5'' @ ''k''" by (simp add: trim_two_and_half)
  have "memory_shift (CHR ''k'') = Some 10" by (simp add: memory_shift_def)
  then have j: "j = 0" if "is_suffix (CHR ''k'') j" for j using that memory_shift_suffix [of "CHR ''k''" "10 * (j + 1)"] by auto
  from conjunct1 [OF memory_size_is_exact [OF t]] parse_two_and_half_k obtain v i x where
    v: "parseMemorySize ''2.5k'' = Some v" "is_suffix (CHR ''k'') i" "ParseFloat (TrimSpace ''2.5'') = Some x"
    "f64_real v = f64_real x * 1024 ^ (i + 1)" by blast
  with j [OF v(2)]
  show "\<exists>v x. parseMemorySize ''2.5k'' = Some v \<and> ParseFloat ''2.5'' = Some x \<and> f64_real v = f64_real x * 1024"
    by (auto simp: trim_two_and_half)
next
  have t: "TrimSpace ''3g'' = ''3'' @ ''g''" by (simp add: string_run json_run)
  have "is_suffix (CHR ''g'') 2" by (simp add: is_suffix_def)
  moreover have "''3'' = digits_of 3" by code_simp
  ultimately show "\<exists>v. parseMemorySize ''3g'' = Some v \<and> f64_real v = 3221225472"
    using memory_size_is_exact [OF t] by fastforce
qed

text \<open>
  C11. No field of a component's values is lost or counted twice: each distinct name becomes one
  counter, gauge, ignored value or invalid value, for the three components the exporter knows;
  the values of any other component count as one ignored value.
\<close>

theorem component_fields_are_accounted:
  "accounted (normalize_component c vs n) =
     accounted n + (if c \<in> {''azstorage'', ''libfuse'', ''file_cache''} then length (alist_keys vs) else 1)"
  by (simp add: normalize_component_def normalizeAzStorage_accounted normalizeLibfuse_accounted
      normalizeFileCache_accounted)

text \<open>
  C12. A record is normalized to exactly the metrics \<open>docs/metrics.md\<close> documents for it: the
  counters and gauges it shows, under their names, units and attributes and in order, are those the
  document's tables give for the fields of its aggregate snapshots and for its memory usage, no
  field less and none more, and its time is its time stamp; all of it depends on the record's object
  only as a map, whatever the order of its members.
\<close>

theorem documented_fields_become_their_metrics:
  assumes "NormalizeRecord r = Inr n"
  shows "\<exists>fs. Record_Decode r = Inr (Some fs)
    \<and> shown_counts n = documented_counts (alist_map fs)
    \<and> shown_levels n = documented_levels (alist_map fs)
    \<and> shown_time n = Option.bind (Option.bind (alist_map fs ''Timestamp'') (decodeSourceValue decode_string)) ParseRFC3339"
  using assms normalize_fields_documented by (auto simp: NormalizeRecord_def split: sum.splits option.splits)

definition documented_record :: source_record where
  "documented_record = (sample_record [])\<lparr>Raw := ''{'' @ quoted ''BlobfuseStats'' @ '':['' @ sample_message ''5'' @ ''],''
     @ quoted ''MemoryUsage'' @ '':'' @ quoted ''2.5k'' @ ''}''\<rparr>"

lemma documented_record_decodes:
  "Record_Decode documented_record = Inr (Some [(''BlobfuseStats'', ''['' @ sample_message ''5'' @ '']''),
     (''MemoryUsage'', quoted ''2.5k'')])"
  by (simp add: Record_Decode_def documented_record_def sample_record_def sample_message_def json_run value_run)

theorem documented_fields_become_their_metrics_witness:
  "\<exists>n. NormalizeRecord documented_record = Inr n
     \<and> shown_counts n = [(Some (''azure.blobfuse.storage.io'', ''By'', [(''azure.blobfuse.io.direction'', ''read'')]), 5)]
     \<and> map fst (shown_levels n) = [Some (''process.memory.virtual'', ''By'', [])]"
proof -
  obtain n where n: "NormalizeRecord documented_record = Inr n" by (simp add: NormalizeRecord_def documented_record_decodes)
  let ?m = "alist_map [(''BlobfuseStats'', ''['' @ sample_message ''5'' @ '']''), (''MemoryUsage'', quoted ''2.5k'')]"
  have "decodeSourceValue decode_string (quoted ''2.5k'') = Some ''2.5k''"
    by (simp add: decodeSourceValue_def string_run json_run value_run)
  then have m: "formatted_level parseMemorySize (quoted ''2.5k'') \<noteq> None"
    by (simp add: formatted_level_def parse_two_and_half_k)
  have "snapshot (sample_message ''5'') = Some (''azstorage'', alist_map [(''Bytes Downloaded'', ''5'')])"
    by (simp only: snapshot_def sample_message_fields option.case) (simp add: alist_map_def sample_component sample_object [simplified])
  then have s: "snapshots ?m = [(''azstorage'', alist_map [(''Bytes Downloaded'', ''5'')])]"
    by (simp add: snapshots_def alist_map_def sample_messages [simplified])
  have "documented_counts ?m = [(Some (''azure.blobfuse.storage.io'', ''By'', [(''azure.blobfuse.io.direction'', ''read'')]), 5)]"
    unfolding documented_counts_def s
    by (simp add: counts_of_def documented_counters_def documented_operations_def alist_map_def parse_five)
  moreover have "map fst (documented_levels ?m) = [Some (''process.memory.virtual'', ''By'', [])]"
    unfolding documented_levels_def s using m
    by (auto simp: levels_of_def documented_gauges_def alist_map_def of_option_def)
  ultimately show ?thesis
    using documented_fields_become_their_metrics [OF n] n by (simp add: documented_record_decodes)
qed

section \<open>Metric state\<close>

text \<open>
  The books balance: over any sequence of live records, a series that has a baseline ends at
  its first baseline plus every increment reported for it less every drop reported as a reset.
\<close>

theorem counters_balance:
  assumes "apply_all RecordModeLive ns st = (st', rs)" and "counterBaselines st s \<noteq> None"
  shows "baseline st' s = baseline st s + sum_list (map (increased s) rs) - sum_list (map (dropped s) rs)"
  using apply_all_balance [OF assms] .

theorem counters_balance_witness:
  "\<exists>st' rs. apply_all RecordModeLive [sample_normalized 9, sample_normalized 5, sample_normalized 7]
       (NewState\<lparr>counterBaselines := [storage_read \<mapsto> 5]\<rparr>) = (st', rs)
     \<and> baseline st' storage_read = 5 + (4 + 0 + 2) - (0 + 4 + 0)"
proof -
  let ?st = "NewState\<lparr>counterBaselines := [storage_read \<mapsto> 5]\<rparr>"
  obtain st' rs where r: "apply_all RecordModeLive
      [sample_normalized 9, sample_normalized 5, sample_normalized 7] ?st = (st', rs)" by force
  have "sum_list (map (increased storage_read) rs) = 4 + 0 + 2"
    "sum_list (map (dropped storage_read) rs) = 0 + 4 + 0"
    using r by (auto simp: Apply_def sample_normalized_def zero_normalized_def apply_counter_def
        NewState_def empty_result_def increased_def dropped_def)
  with counters_balance [OF r, of storage_read] r show ?thesis
    by (auto simp: baseline_def)
qed

text \<open>
  A baseline record reports neither increments nor resets, and whatever the mode the new
  baselines are the record's values in order; so nothing counted before the cutover is exported.
\<close>

theorem baseline_records_are_silent:
  "(case Apply RecordModeBaseline n st of
      (st', res) \<Rightarrow> CounterIncrements res = [] \<and> CounterResets res = [])
   \<and> counterBaselines (fst (Apply mode n st)) =
       foldl (\<lambda>m c. m(counter_series c \<mapsto> counter_count c)) (counterBaselines st) (Counters n)"
proof -
  obtain st' res where a: "Apply RecordModeBaseline n st = (st', res)" by force
  obtain st1 res1 where b: "Apply mode n st = (st1, res1)" by force
  show ?thesis using Apply_baseline_silent [OF a] Apply_baselines [OF b] by (simp add: a b)
qed

text \<open>
  A reported increment is never zero, a reported reset is a strict decrease, and both concern
  a series the record had a counter for.
\<close>

theorem reported_changes_are_real:
  "case Apply mode n st of (st', res) \<Rightarrow>
     list_all (\<lambda>i. 0 < Delta i \<and> inc_series i \<in> counter_series ` set (Counters n)) (CounterIncrements res)
     \<and> list_all (\<lambda>r. Current r < Previous r \<and> reset_series r \<in> counter_series ` set (Counters n))
         (CounterResets res)"
proof -
  obtain st' res where a: "Apply mode n st = (st', res)" by force
  show ?thesis using Apply_result_ok [OF a] by (simp add: a result_ok_def list_all_iff)
qed

text \<open>
  C13. Two different series are never described by the same metric name and attributes, so no two
  counters of the source are mixed in one exported time series.
\<close>

theorem distinct_series_stay_distinct:
  assumes "DescribeSeries s = Inr (d, as)" and "DescribeSeries t = Inr (d', as')" and "s \<noteq> t"
  shows "(Name d, as) \<noteq> (Name d', as')"
  using DescribeSeries_distinct [OF assms(1,2)] assms(3) by auto

theorem distinct_series_stay_distinct_witness:
  "\<exists>d as d' as'. DescribeSeries storage_read = Inr (d, as)
     \<and> DescribeSeries (storage_read\<lparr>Direction := DirectionWrite\<rparr>) = Inr (d', as') \<and> as \<noteq> as'"
proof -
  obtain d as where d: "DescribeSeries storage_read = Inr (d, as)" "Name d = ''azure.blobfuse.storage.io''"
    by (simp add: storage_read_def describe_simps)
  obtain d' as' where d': "DescribeSeries (storage_read\<lparr>Direction := DirectionWrite\<rparr>) = Inr (d', as')"
      "Name d' = ''azure.blobfuse.storage.io''"
    by (simp add: storage_read_def describe_simps)
  have "storage_read \<noteq> storage_read\<lparr>Direction := DirectionWrite\<rparr>"
    by (simp add: storage_read_def zero_series_def)
  from distinct_series_stay_distinct [OF d(1) d'(1) this] d d' show ?thesis by auto
qed

text \<open>
  Each processed record is counted exactly once, as accepted, ignored or invalid; the handler
  fails exactly when the record does not normalize, and then the metric state is untouched.
\<close>

theorem every_record_is_counted_once:
  "case Process mode r (p, obs) of (err, p', obs') \<Rightarrow>
     records_counted (processor_Stats p') = records_counted (processor_Stats p) + 1
     \<and> (err = (case NormalizeRecord r of Inl e \<Rightarrow> Some e | Inr n \<Rightarrow> None))
     \<and> proc_state p' = (case NormalizeRecord r of
          Inl e \<Rightarrow> proc_state p | Inr n \<Rightarrow> fst (Apply mode n (proc_state p)))"
proof (cases rule: Process_cases [of r mode p obs])
  case (rejected e)
  then show ?thesis by (simp add: recordStats_counts rejected_record_def processor_Stats_def)
next
  case (applied n st' res)
  then show ?thesis by (simp add: recordStats_counts processor_Stats_def)
qed

text \<open>
  C14. After any run of records the recorder observes every gauge the state holds once, with its
  value, in whatever order the map is visited, and drops none; once the gauges are cleared it
  observes none, and the counter baselines are kept.
\<close>

theorem gauges_are_observed_until_cleared:
  assumes "NewOTelRecorder meter (Some st0) None = Inr rec"
    and "NewProcessor (Some NewState) None = Inr p0"
    and "process_all mode rs (p0, w) = (p, w')"
    and "enumerates order (gauges (proc_state p))"
  shows "observeGauges order (proc_state p) rec
      = (rec, map (gauge_point (state_Gauges (proc_state p))) order)
    \<and> (case ClearGauges order (proc_state p) of (st', removed) \<Rightarrow>
         observeGauges [] st' rec = (rec, []) \<and> enumerates [] (state_Gauges st')
         \<and> removed = order \<and> CounterBaselines st' = CounterBaselines (proc_state p))"
proof -
  have "proc_state p0 = NewState" using assms(2) by (auto simp: NewProcessor_def)
  then have "gauges_ok (proc_state p)" using process_all_gauges_ok [OF assms(3)] by simp
  then have "observeGauges order (proc_state p) rec
      = (rec, map (gauge_point (gauges (proc_state p))) order)"
    using NewOTelRecorder_ok [OF assms(1)] assms(4)
    by (intro observeGauges_described) (auto simp: enumerates_def)
  then show ?thesis
    using ClearGauges_run [OF assms(4)]
    by (simp add: state_Gauges_def CounterBaselines_def observeGauges_def)
qed

definition memory_record :: source_record where
  "memory_record = (sample_record [])\<lparr>Raw := ''{'' @ quoted ''MemoryUsage'' @ '':'' @ quoted ''2.5k'' @ ''}''\<rparr>"

definition memory_series :: series where
  "memory_series = zero_series\<lparr>Metric := MetricMemoryVirtual\<rparr>"

lemma memory_normalizes:
  "\<exists>n v. NormalizeRecord memory_record = Inr n \<and> Counters n = []
     \<and> Gauges n = [\<lparr>gauge_series = memory_series, gauge_level = v\<rparr>]"
proof -
  have d: "Record_Decode memory_record = Inr (Some [(''MemoryUsage'', quoted ''2.5k'')])"
    by (simp add: Record_Decode_def memory_record_def sample_record_def json_run value_run)
  have s: "decodeSourceValue decode_string (quoted ''2.5k'') = Some ''2.5k''"
    by (simp add: decodeSourceValue_def string_run json_run value_run)
  obtain v where "parseMemorySize ''2.5k'' = Some v"
    using parse_two_and_half_k by blast
  then show ?thesis
    by (simp add: NormalizeRecord_def d normalize_fields_def fields_run isKnownTopLevelField_def
        normalizeTimestamp_def normalizeBlobfuseStats_def normalizeUnsupportedArray_def
        normalizeUnsupportedString_def normalizeMemory_def s append_gauge_def memory_series_def)
qed

theorem gauges_are_observed_until_cleared_witness:
  "\<exists>rec (p :: unit processor).
     NewOTelRecorder (Some (\<lambda>d. None)) (Some NewState) None = Inr rec
     \<and> dom (gauges (proc_state p)) = {memory_series}
     \<and> observeGauges [memory_series] (proc_state p) rec
         = (rec, [gauge_point (state_Gauges (proc_state p)) memory_series])"
proof -
  obtain rec where rec: "NewOTelRecorder (Some (\<lambda>d. None)) (Some NewState) None = Inr rec"
    by (simp add: NewOTelRecorder_def representativeSeries_def add_instrument_def DescribeSeries_def
        descriptorWithoutAttributes_def zero_series_def empty_recorder_def)
  define p0 :: "unit processor" where "p0 = \<lparr>proc_state = NewState, proc_observer = None, stats = zero_stats\<rparr>"
  have n: "NewProcessor (Some NewState) None = Inr p0" by (simp add: NewProcessor_def p0_def)
  obtain nr v where nr: "NormalizeRecord memory_record = Inr nr" "Counters nr = []"
    "Gauges nr = [\<lparr>gauge_series = memory_series, gauge_level = v\<rparr>]"
    using memory_normalizes by blast
  obtain p w' where p: "process_all RecordModeLive [memory_record] (p0, ()) = (p, w')"
    by (metis surj_pair)
  have g: "gauges (proc_state p) = [memory_series \<mapsto> v]"
    using p nr by (auto simp: Process_def p0_def Apply_def apply_gauge_def NewState_def Let_def)
  have "enumerates [memory_series] (gauges (proc_state p))" by (simp add: g enumerates_def)
  from gauges_are_observed_until_cleared [OF rec n p this] rec g show ?thesis
    by (intro exI [of _ rec] exI [of _ p]) simp
qed

end
