(* ===== verification/Identity_Properties.thy ===== *)
theory Identity_Properties
  imports Identity Decoder_Properties
begin

text \<open>
  The properties of the process identity: how it is parsed and verified, and what the instance ID
  and the process metrics derived from it are.
\<close>

lemmas procfs_run =
  TrimSpace_def trim_left.simps trim_left_rev.simps space_width_def space_width_rev_def
  ascii_space_def space_runes2_def space_runes3_def Fields.simps ParseInt64_def ParseUint64_def
  all_digits_def digits_value_def digit_value_def

text \<open>
  C15. The command name of a process, which it chooses itself and which may hold parentheses,
  blanks and digits, cannot disturb the parse: a \<open>stat\<close> line is read back as the fields the
  kernel printed after it.
\<close>

theorem command_name_cannot_disturb:
  assumes "0 < pid" and "pid < 2 ^ 63" and "list_all plain_word fs" and "fs \<noteq> []"
    and "CHR '')'' \<notin> set (concat fs)"
  shows "parseProcessStat (stat_line pid comm fs) pid = stat_fields fs"
  using parseProcessStat_line [OF assms] .

definition sample_fields :: "bytes list" where
  "sample_fields = [''S''] @ replicate 10 ''0'' @ [''7'', ''8''] @ replicate 6 ''0'' @ [''42'', ''0'', ''3'']"

lemma sample_fields_plain: "list_all plain_word sample_fields"
  by (auto simp: sample_fields_def plain_word_def plain_def byte_code_def list_all_iff)

lemma sample_stat:
  "stat_fields sample_fields = Inr \<lparr>UserTicks = 7, SystemTicks = 8, statStartTicks = 42, ResidentPages = 3\<rparr>"
  by (simp add: stat_fields_def sample_fields_def residentPagesIndexAfterCommand_def
      userTimeIndexAfterCommand_def systemTimeIndexAfterCommand_def startTimeIndexAfterCommand_def
      procfs_run json_run nth_append)

lemma sample_line:
  "parseProcessStat (stat_line 9 comm sample_fields) 9
     = Inr \<lparr>UserTicks = 7, SystemTicks = 8, statStartTicks = 42, ResidentPages = 3\<rparr>"
  by (subst parseProcessStat_line [OF _ _ sample_fields_plain])
    (simp_all only: sample_stat, simp_all add: sample_fields_def)

theorem command_name_cannot_disturb_witness:
  "\<exists>stat. parseProcessStat (stat_line 9 ''a) S 1 (b'' sample_fields) 9 = Inr stat \<and> statStartTicks stat = 42"
proof -
  have "CHR '')'' \<notin> set (concat sample_fields)" "sample_fields \<noteq> []"
    by (simp_all add: sample_fields_def)
  from command_name_cannot_disturb [OF _ _ sample_fields_plain this(2) this(1), of 9 "''a) S 1 (b''"]
  show ?thesis by (simp add: sample_stat)
qed



text \<open>
  An identity that was read is consistent: the two reads of the process's \<open>stat\<close> that
  bracket the others parse to the same start ticks, which are the identity's; the PID is the one
  asked for and the boot ID is canonical.
\<close>

theorem identity_is_consistent:
  assumes "ReadProcessIdentity sysconf read pid = Inr i"
  shows "0 < pid \<and> PID i = pid \<and> isCanonicalBootID (BootID i)
    \<and> readStartTicks ''/proc'' (read 0) pid = Inr (StartTicks i)
    \<and> readStartTicks ''/proc'' (read 3) pid = Inr (StartTicks i)"
proof -
  obtain ticks where t: "identity_reader_read
      \<lparr>procRoot = ''/proc'', clockTicks = word_of_int ticks, readFile = Some read\<rparr> pid = Inr i"
    using assms by (auto simp: ReadProcessIdentity_def split: sum.splits if_splits)
  then have "0 < pid" "read_identity ''/proc'' (word_of_int ticks) read pid = Inr i"
    by (auto simp: identity_reader_read_def split: if_splits)
  moreover have "readBootID proc rd = Inr b \<Longrightarrow> isCanonicalBootID b" for proc rd b
    by (auto simp: readBootID_def Let_def split: sum.splits if_splits)
  ultimately show ?thesis
    by (auto simp: read_identity_def split: sum.splits if_splits)
qed

definition sample_identity :: process_identity where
  "sample_identity = \<lparr>BootID = ''00000000-0000-0000-0000-000000000000'', PID = 9, StartTicks = 42,
     CreationTime = (100, 0)\<rparr>"

definition sample_files :: read_file where
  "sample_files k path =
     (if path = ''/proc/9/stat'' then Inr (stat_line 9 ''x'' sample_fields)
      else if path = ''/proc/stat'' then Inr ''btime 99''
      else Inr ''00000000-0000-0000-0000-000000000000'')"

lemma sample_identity_read: "ReadProcessIdentity (Inr 42) sample_files 9 = Inr sample_identity"
proof -
  have itoa: "Itoa 9 = ''9''"
    by (simp add: Itoa_def digits_of.simps [of 9] byte_of_def byte_code_def char_of_def bit_Suc_0_iff)
  have s: "readStartTicks ''/proc'' (sample_files k) 9 = Inr 42" for k
    by (simp add: readStartTicks_def sample_files_def itoa parseProcessStartTicks_def sample_line)
  have b: "readBootID ''/proc'' (sample_files k) = Inr ''00000000-0000-0000-0000-000000000000''" for k
    by (simp add: readBootID_def sample_files_def procfs_run json_run lower_def isCanonicalBootID_def
        boot_id_char_def byte_of_def)
  have t: "readBootTime ''/proc'' (sample_files k) = Inr 99" for k
    by (simp add: readBootTime_def sample_files_def find_btime.simps next_line_def drop_cr_def
        max_token_def btime_fields_def procfs_run json_run)
  show ?thesis
    by (simp add: ReadProcessIdentity_def identity_reader_read_def read_identity_def s b t
        processCreationTime_def Let_def sample_identity_def time_Unix_def wrap64_def unixToInternal_def)
qed

theorem identity_is_consistent_witness:
  "\<exists>i. ReadProcessIdentity (Inr 42) sample_files 9 = Inr i \<and> PID i = 9
     \<and> readStartTicks ''/proc'' (sample_files 3) 9 = Inr (StartTicks i)"
  using identity_is_consistent [OF sample_identity_read] sample_identity_read by blast

text \<open>
  C17. The instance ID is a 64-digit digest of exactly the session: it is the same for two
  observations of one session, and two observations with canonical boot IDs have the same digest
  input only if they are the same session, so different sessions differ before hashing.
\<close>

theorem instance_id_identifies_the_session:
  assumes "isCanonicalBootID (BootID a)" and "isCanonicalBootID (BootID b)" and "0 < PID a" and "0 < PID b"
  shows "(SameSession a b \<longleftrightarrow> instance_payload a = instance_payload b)
    \<and> (SameSession a b \<longrightarrow> InstanceID a = InstanceID b) \<and> length (InstanceID a) = 64"
proof -
  have "SameSession a b \<Longrightarrow> instance_payload a = instance_payload b"
    by (simp add: SameSession_def instance_payload_def)
  with instance_payload_inj [OF _ assms] show ?thesis
    by (auto simp: InstanceID_def length_sha256)
qed

theorem instance_id_identifies_the_session_witness:
  "instance_payload sample_identity \<noteq> instance_payload (sample_identity\<lparr>StartTicks := 43\<rparr>)"
proof -
  have "isCanonicalBootID (BootID sample_identity)"
    by (simp add: sample_identity_def isCanonicalBootID_def boot_id_char_def is_digit_def byte_code_def)
  with instance_id_identifies_the_session [of sample_identity "sample_identity\<lparr>StartTicks := 43\<rparr>"]
  show ?thesis by (simp add: sample_identity_def SameSession_def)
qed

text \<open>
  C18. The resident memory that is reported is the page count times the page size without
  wrapping, and it is read for the session that was asked for.
\<close>

theorem process_memory_is_exact:
  assumes "parseProcessStat data (PID i) = Inr stat"
    and "metrics_reader_read \<lparr>mProcRoot = proc, mClockTicks = clk, mPageSize = page,
          mReadFile = Some (\<lambda>path. Inr data)\<rparr> i = Inr m"
  shows "MemoryUsageBytes m = int (unat (ResidentPages stat)) * int (unat page)
    \<and> MemoryUsageBytes m < 2 ^ 63 \<and> statStartTicks stat = StartTicks i"
proof -
  let ?rd = "\<lparr>mProcRoot = proc, mClockTicks = clk, mPageSize = page, mReadFile = Some (\<lambda>path. Inr data)\<rparr>"
  have m: "metrics_of_stat ?rd i stat = Inr m" and page: "mPageSize ?rd \<noteq> 0"
    using assms by (auto simp: metrics_reader_read_def split: if_splits)
  have "statStartTicks stat = StartTicks i"
    using m by (auto simp: metrics_of_stat_def split: if_splits)
  with metrics_of_stat_memory [OF m page] show ?thesis by simp
qed

theorem process_memory_is_exact_witness:
  "\<exists>m. metrics_reader_read \<lparr>mProcRoot = ''/proc'', mClockTicks = 100, mPageSize = 4096,
        mReadFile = Some (\<lambda>path. Inr (stat_line 9 ''x'' sample_fields))\<rparr> sample_identity = Inr m
     \<and> MemoryUsageBytes m = 12288"
proof -
  let ?rd = "\<lparr>mProcRoot = ''/proc'', mClockTicks = 100, mPageSize = 4096,
        mReadFile = Some (\<lambda>path. Inr (stat_line 9 ''x'' sample_fields))\<rparr>"
  have s: "parseProcessStat (stat_line 9 ''x'' sample_fields) (PID sample_identity)
      = Inr \<lparr>UserTicks = 7, SystemTicks = 8, statStartTicks = 42, ResidentPages = 3\<rparr>"
    by (simp add: sample_identity_def sample_line)
  have "\<exists>m. metrics_reader_read ?rd sample_identity = Inr m"
    using s by (simp add: metrics_reader_read_def sample_identity_def metrics_of_stat_def)
  then obtain m where m: "metrics_reader_read ?rd sample_identity = Inr m" ..
  from process_memory_is_exact [OF s m] m show ?thesis by simp
qed

text \<open>
  Verifying the identity again succeeds exactly when a live process with the same boot ID,
  PID and start ticks is found; every failure says that the session has ended.
\<close>

theorem verification_detects_session_end:
  "case verifyProcessIdentity expected (Some look) of
     None \<Rightarrow> (\<exists>current. look (PID expected) = Inr current \<and> SameSession expected current)
   | Some e \<Rightarrow> errors_is ErrSourceSessionEnded e
       \<and> \<not> (\<exists>current. look (PID expected) = Inr current \<and> SameSession expected current)"
  by (auto simp: verifyProcessIdentity_def split: sum.splits)

section \<open>The boot time and long lines\<close>

lemma next_line_append:
  assumes "CHR 0x0A \<notin> set l"
  shows "next_line (l @ CHR 0x0A # rest) =
    (if max_token \<le> length l then LongLine else Line (drop_cr l) rest)"
proof -
  have "takeWhile (\<lambda>c. c \<noteq> CHR 0x0A) (l @ CHR 0x0A # rest) = l"
    using assms by (induction l) auto
  then show ?thesis by (simp add: next_line_def)
qed

definition line_before_btime :: "bytes \<Rightarrow> bool" where
  "line_before_btime l \<longleftrightarrow> CHR 0x0A \<notin> set l \<and> length l < max_token
     \<and> (Fields (drop_cr l) = [] \<or> hd (Fields (drop_cr l)) \<noteq> ''btime'')"

text \<open>
  C19. A line of 64 KiB or more in \<open>/proc/stat\<close> before the \<open>btime\<close> line, such as the kernel's
  list of interrupt counts on a large host, makes the boot time unreadable: the scanner stops with
  an error although the field is there.
\<close>

theorem long_line_hides_boot_time:
  assumes "list_all line_before_btime ls" and "CHR 0x0A \<notin> set long" and "max_token \<le> length long"
  shows "readBootTime proc (\<lambda>path. Inr (concat (map (\<lambda>l. l @ [CHR 0x0A]) ls) @ long @ CHR 0x0A # rest))
    = Inl (Wrap ''read host boot time'' [Text ''bufio.Scanner: token too long''])"
proof -
  have "find_btime (concat (map (\<lambda>l. l @ [CHR 0x0A]) ls) @ long @ CHR 0x0A # rest)
    = Inl (Wrap ''read host boot time'' [Text ''bufio.Scanner: token too long''])"
    using assms(1)
  proof (induction ls)
    case Nil
    show ?case using assms(2,3) by (subst find_btime.simps) (simp add: next_line_append)
  next
    case (Cons l ls)
    let ?tail = "concat (map (\<lambda>l. l @ [CHR 0x0A]) ls) @ long @ CHR 0x0A # rest"
    have "next_line (l @ CHR 0x0A # ?tail) = Line (drop_cr l) ?tail"
      using Cons.prems by (subst next_line_append) (auto simp: line_before_btime_def)
    then have "find_btime (l @ CHR 0x0A # ?tail) = find_btime ?tail"
      using Cons.prems by (subst find_btime.simps) (auto simp: line_before_btime_def)
    with Cons show ?case by simp
  qed
  then show ?thesis by (simp add: readBootTime_def)
qed

theorem long_line_hides_boot_time_witness:
  "readBootTime ''/proc'' (\<lambda>path. Inr (concat (map (\<lambda>l. l @ [CHR 0x0A]) [''cpu 1''])
      @ replicate max_token (CHR ''1'') @ CHR 0x0A # ''btime 99''))
    = Inl (Wrap ''read host boot time'' [Text ''bufio.Scanner: token too long''])"
  by (rule long_line_hides_boot_time)
    (auto simp: line_before_btime_def max_token_def drop_cr_def procfs_run json_run)

end
