(* ===== verification/Directory.thy ===== *)
theory Directory
  imports Identity "HOL-Library.Multiset"
begin

text \<open>
  \<open>internal/source/directory_linux.go\<close> and \<open>scan_linux.go\<close>: the report directory, the
  validated opening of one report generation and the scan for all of them.  The kernel's
  answers (\<open>openat\<close>, \<open>fstat\<close>, \<open>getdents\<close>) are parameters, indexed by the position of the call
  where a loop makes several.  Besides its result every operation returns the descriptors it
  opened and closed, in order, so that ownership can be stated: \<open>live\<close> is the multiset of
  descriptors a evs leaves open.
\<close>

section \<open>Descriptors\<close>

datatype fd_event = FdOpen nat | FdClose nat

fun live_from :: "nat multiset \<Rightarrow> fd_event list \<Rightarrow> nat multiset" where
  "live_from m [] = m"
| "live_from m (FdOpen d # es) = live_from (add_mset d m) es"
| "live_from m (FdClose d # es) = live_from (m - {#d#}) es"

definition live :: "fd_event list \<Rightarrow> nat multiset" where
  "live es = live_from {#} es"

lemma live_from_append [simp]: "live_from m (es @ fs) = live_from (live_from m es) fs"
proof (induction es arbitrary: m)
  case (Cons e es)
  then show ?case by (cases e) auto
qed simp

section \<open>Report files\<close>

record generation_id =
  Device :: u64
  Inode :: u64

record report_file =
  rf_file :: "nat option"
  Generation :: generation_id
  Size :: int
  ModificationTime :: go_time

text \<open>
  Closing is idempotent: the file is forgotten after the first close, whatever the kernel
  answered to it.
\<close>

definition report_Close ::
    "error option \<Rightarrow> report_file option \<Rightarrow> error option \<times> report_file option \<times> fd_event list" where
  "report_Close closed_answer r =
     (case r of
        None \<Rightarrow> (None, None, [])
      | Some rf \<Rightarrow>
          (case rf_file rf of
             None \<Rightarrow> (None, Some rf, [])
           | Some fd \<Rightarrow> (closed_answer, Some (rf\<lparr>rf_file := None\<rparr>), [FdClose fd])))"

definition close_events :: "report_file option \<Rightarrow> fd_event list" where
  "close_events r = snd (snd (report_Close None r))"

text \<open>\<open>ReadAt\<close> on the open file; \<open>pread\<close> answers with the bytes read and an error.\<close>

definition report_ReadAt ::
    "(nat \<Rightarrow> nat \<Rightarrow> bytes \<times> error option) \<Rightarrow> report_file option \<Rightarrow> nat \<Rightarrow> nat
      \<Rightarrow> bytes \<times> error option" where
  "report_ReadAt pread r len offset =
     (case r of
        None \<Rightarrow> ([], Some (Sentinel Os_ErrClosed))
      | Some rf \<Rightarrow>
          if rf_file rf = None then ([], Some (Sentinel Os_ErrClosed))
          else (case pread len offset of (bs, e) \<Rightarrow> (take len bs, e)))"

section \<open>Validation\<close>

record os_stat =
  st_mode :: u32
  st_uid :: u32
  st_dev :: u64
  st_ino :: u64
  st_size :: int
  st_mtime :: "int \<times> nat"

definition S_IFMT :: u32 where "S_IFMT = 0xF000"
definition S_IFDIR :: u32 where "S_IFDIR = 0x4000"
definition S_IFREG :: u32 where "S_IFREG = 0x8000"
definition group_other_mask :: u32 where "group_other_mask = 0x3F"

unbundle bit_operations_syntax

definition unsafe_source :: "string \<Rightarrow> error" where
  "unsafe_source m = Wrap m [Sentinel ErrUnsafeSource]"

definition validateDirectoryStat :: "os_stat \<Rightarrow> u32 \<Rightarrow> bool \<Rightarrow> error option" where
  "validateDirectoryStat stat expectedUID allow =
     (if st_mode stat AND S_IFMT \<noteq> S_IFDIR
      then Some (unsafe_source ''report directory descriptor is not a directory'')
      else if allow then None
      else if st_uid stat \<noteq> expectedUID
      then Some (unsafe_source ''report directory owner does not match the exporter'')
      else if st_mode stat AND group_other_mask \<noteq> 0
      then Some (unsafe_source ''report directory grants group or other access'')
      else None)"

definition validateReportStat :: "os_stat \<Rightarrow> u32 \<Rightarrow> bool \<Rightarrow> error option" where
  "validateReportStat stat expectedUID allow =
     (if st_mode stat AND S_IFMT \<noteq> S_IFREG
      then Some (unsafe_source ''report descriptor is not a regular file'')
      else if allow then None
      else if st_uid stat \<noteq> expectedUID
      then Some (unsafe_source ''report owner does not match the exporter'')
      else if st_mode stat AND group_other_mask \<noteq> 0
      then Some (unsafe_source ''report grants group or other access'')
      else None)"

section \<open>Names and paths\<close>

definition reportName :: "int \<Rightarrow> int \<Rightarrow> error + string" where
  "reportName pid rotation =
     (if pid \<le> 0 then Inl (Text ''pid must be positive'')
      else if rotation < 0 \<or> 9 < rotation
      then Inl (Text ''report rotation must be between 0 and 9'')
      else Inr (''monitor_'' @ Itoa pid @ (if 0 < rotation then ''_'' @ Itoa rotation else [])
             @ ''.json''))"

text \<open>\<open>strings.Split(s, "/")\<close>.\<close>

fun split_slash :: "string \<Rightarrow> string list" where
  "split_slash [] = [[]]"
| "split_slash (c # cs) =
     (case split_slash cs of
        [] \<Rightarrow> [[c]]
      | w # ws \<Rightarrow> if c = CHR ''/'' then [] # w # ws else (c # w) # ws)"

fun join_slash :: "string list \<Rightarrow> string" where
  "join_slash [] = []"
| "join_slash [w] = w"
| "join_slash (w # v # ws) = w @ CHR ''/'' # join_slash (v # ws)"

definition IsAbs :: "string \<Rightarrow> bool" where
  "IsAbs p \<longleftrightarrow> p \<noteq> [] \<and> hd p = CHR ''/''"

text \<open>\<open>filepath.Clean\<close> of an absolute path, element by element; the result is built in reverse.\<close>

fun clean_elements :: "string list \<Rightarrow> string list \<Rightarrow> string list" where
  "clean_elements [] acc = rev acc"
| "clean_elements (w # ws) acc =
     (if w = [] \<or> w = ''.'' then clean_elements ws acc
      else if w = ''..'' then clean_elements ws (tl acc)
      else clean_elements ws (w # acc))"

definition CleanAbs :: "string \<Rightarrow> string" where
  "CleanAbs p = CHR ''/'' # join_slash (clean_elements (split_slash p) [])"

definition TrimPrefixSlash :: "string \<Rightarrow> string" where
  "TrimPrefixSlash p = (if p \<noteq> [] \<and> hd p = CHR ''/'' then tl p else p)"

section \<open>Opening the directory\<close>

text \<open>
  \<open>openDirectoryNoFollow\<close>: each component is opened relative to the descriptor of the one
  before, which is closed afterwards whether or not the open succeeded.  \<open>openat i fd name\<close> is
  the kernel's answer for component \<open>i\<close>; every call passes \<open>O_NOFOLLOW\<close>.
\<close>

fun open_components ::
    "(nat \<Rightarrow> nat \<Rightarrow> string \<Rightarrow> error + nat) \<Rightarrow> nat \<Rightarrow> nat \<Rightarrow> string list
      \<Rightarrow> (error + nat) \<times> fd_event list" where
  "open_components openat i fd [] = (Inr fd, [])"
| "open_components openat i fd (w # ws) =
     (if w = [] then open_components openat (i + 1) fd ws
      else (case openat i fd w of
              Inl e \<Rightarrow> (Inl (Wrap (''open report directory component '' @ Itoa (int i + 1)) [e]), [FdClose fd])
            | Inr next_fd \<Rightarrow>
                (case open_components openat (i + 1) next_fd ws of
                   (res, evs) \<Rightarrow> (res, FdOpen next_fd # FdClose fd # evs))))"

definition openDirectoryNoFollow ::
    "(error + nat) \<Rightarrow> (nat \<Rightarrow> nat \<Rightarrow> string \<Rightarrow> error + nat) \<Rightarrow> string
      \<Rightarrow> (error + nat) \<times> fd_event list" where
  "openDirectoryNoFollow opened_root openat path =
     (case opened_root of
        Inl e \<Rightarrow> (Inl (Wrap ''open report directory root'' [e]), [])
      | Inr fd \<Rightarrow>
          (case open_components openat 0 fd (split_slash (TrimPrefixSlash path)) of
             (res, evs) \<Rightarrow> (res, FdOpen fd # evs)))"

record report_directory =
  dir_fd :: "nat option"
  ownerUID :: u32
  allowInsecure :: bool

record directory_answers =
  ans_root :: "error + nat"
  ans_openat :: "nat \<Rightarrow> nat \<Rightarrow> string \<Rightarrow> error + nat"
  ans_euid :: u32
  ans_fstat :: "error + os_stat"

definition OpenReportDirectory ::
    "directory_answers \<Rightarrow> string \<Rightarrow> bool \<Rightarrow> (error + report_directory) \<times> fd_event list" where
  "OpenReportDirectory os path allow =
     (if \<not> IsAbs path then (Inl (unsafe_source ''report directory must be absolute''), [])
      else (case openDirectoryNoFollow (ans_root os) (ans_openat os) (CleanAbs path) of
              (Inl e, evs) \<Rightarrow> (Inl e, evs)
            | (Inr fd, evs) \<Rightarrow>
                (case ans_fstat os of
                   Inl e \<Rightarrow> (Inl (Wrap ''inspect report directory descriptor'' [e]), evs @ [FdClose fd])
                 | Inr stat \<Rightarrow>
                     (case validateDirectoryStat stat (ans_euid os) allow of
                        Some e \<Rightarrow> (Inl e, evs @ [FdClose fd])
                      | None \<Rightarrow> (Inr \<lparr>dir_fd = Some fd, ownerUID = ans_euid os,
                                     allowInsecure = allow\<rparr>, evs)))))"

definition directory_Close ::
    "error option \<Rightarrow> report_directory option \<Rightarrow> error option \<times> report_directory option \<times> fd_event list" where
  "directory_Close closed_answer dir =
     (case dir of
        None \<Rightarrow> (None, None, [])
      | Some d \<Rightarrow>
          (case dir_fd d of
             None \<Rightarrow> (None, Some d, [])
           | Some fd \<Rightarrow> (closed_answer, Some (d\<lparr>dir_fd := None\<rparr>), [FdClose fd])))"

section \<open>Opening a report\<close>

definition incomplete_identity :: "process_identity \<Rightarrow> bool" where
  "incomplete_identity i \<longleftrightarrow> PID i \<le> 0 \<or> IsZero (CreationTime i)"

definition stale_generation :: "int \<Rightarrow> error" where
  "stale_generation rotation =
     Wrap (''generation '' @ Itoa rotation @ '' is not newer than the process'')
       [Sentinel ErrStaleGeneration]"

text \<open>
  \<open>unix.Openat(dirfd, name, flags, 0)\<close>: the kernel answers by the directory's descriptor, the name
  and the flags.
\<close>

datatype open_flag = O_RDONLY | O_CLOEXEC | O_NOFOLLOW | O_NONBLOCK

type_synonym openat_answer = "nat \<Rightarrow> string \<Rightarrow> open_flag list \<Rightarrow> error + nat"

definition report_flags :: "open_flag list" where
  "report_flags = [O_RDONLY, O_CLOEXEC, O_NOFOLLOW, O_NONBLOCK]"

definition open_validated ::
    "(error + nat) \<Rightarrow> (error + os_stat) \<Rightarrow> report_directory \<Rightarrow> process_identity \<Rightarrow> int
      \<Rightarrow> (error + report_file) \<times> fd_event list" where
  "open_validated opened fstat dir identity rotation =
     (case opened of
        Inl e \<Rightarrow> (Inl (Wrap (''open report generation '' @ Itoa rotation) [e]), [])
      | Inr fd \<Rightarrow>
          (case fstat of
             Inl e \<Rightarrow> (Inl (Wrap (''inspect report generation '' @ Itoa rotation) [e]),
                       [FdOpen fd, FdClose fd])
           | Inr stat \<Rightarrow>
               (case validateReportStat stat (ownerUID dir) (allowInsecure dir) of
                  Some e \<Rightarrow> (Inl e, [FdOpen fd, FdClose fd])
                | None \<Rightarrow>
                    (let modificationTime = time_Unix (fst (st_mtime stat)) (snd (st_mtime stat))
                     in if \<not> After modificationTime (CreationTime identity)
                        then (Inl (stale_generation rotation), [FdOpen fd, FdClose fd])
                        else (Inr \<lparr>rf_file = Some fd,
                                   Generation = \<lparr>Device = st_dev stat, Inode = st_ino stat\<rparr>,
                                   Size = st_size stat, ModificationTime = modificationTime\<rparr>,
                              [FdOpen fd])))))"

definition OpenReport ::
    "openat_answer \<Rightarrow> (error + os_stat) \<Rightarrow> report_directory option \<Rightarrow> process_identity \<Rightarrow> int
      \<Rightarrow> (error + report_file) \<times> fd_event list" where
  "OpenReport openat fstat dir identity rotation =
     (case dir of
        None \<Rightarrow> (Inl (Sentinel Os_ErrClosed), [])
      | Some d \<Rightarrow>
          if incomplete_identity identity
          then (Inl (unsafe_source ''process identity is incomplete''), [])
          else (case reportName (PID identity) rotation of
                  Inl e \<Rightarrow> (Inl e, [])
                | Inr name \<Rightarrow>
                    (case dir_fd d of
                       None \<Rightarrow> (Inl (Sentinel Os_ErrClosed), [])
                     | Some fd \<Rightarrow> open_validated (openat fd name report_flags) fstat d identity rotation)))"

section \<open>Scanning\<close>

record discovered_generation =
  Rotation :: int
  Report :: "report_file option"

text \<open>The map from the ten expected names to their rotation.\<close>

fun expected_names_from :: "int \<Rightarrow> int list \<Rightarrow> (string \<times> int) list \<Rightarrow> error + (string \<times> int) list" where
  "expected_names_from pid [] acc = Inr acc"
| "expected_names_from pid (rotation # rs) acc =
     (case reportName pid rotation of
        Inl e \<Rightarrow> Inl e
      | Inr name \<Rightarrow> expected_names_from pid rs (acc @ [(name, rotation)]))"

definition expectedReportNames :: "int \<Rightarrow> error + (string \<times> int) list" where
  "expectedReportNames pid = expected_names_from pid [0, 1, 2, 3, 4, 5, 6, 7, 8, 9] []"

definition closeDiscovered :: "discovered_generation list \<Rightarrow> fd_event list" where
  "closeDiscovered ds = concat (map (\<lambda>d. close_events (Report d)) ds)"

definition readEntryNames ::
    "(error + nat) \<Rightarrow> (error + string list) \<Rightarrow> report_directory \<Rightarrow> (error + string list) \<times> fd_event list" where
  "readEntryNames opened listing dir =
     (if dir_fd dir = None then (Inl (Sentinel Os_ErrClosed), [])
      else (case opened of
              Inl e \<Rightarrow> (Inl (Wrap ''duplicate report directory descriptor'' [e]), [])
            | Inr fd \<Rightarrow>
                (case listing of
                   Inl e \<Rightarrow> (Inl (Wrap ''enumerate report directory'' [e]), [FdOpen fd, FdClose fd])
                 | Inr names \<Rightarrow> (Inr names, [FdOpen fd, FdClose fd]))))"

type_synonym report_answers = "nat \<Rightarrow> openat_answer \<times> (error + os_stat)"

text \<open>
  The loop over the directory's entries.  \<open>seen\<close> is the map from a generation to its index in
  the discovered list; \<open>k\<close> is the position of the entry, by which the kernel answers.
\<close>

fun scan_entries ::
    "report_answers \<Rightarrow> report_directory \<Rightarrow> process_identity \<Rightarrow> (string \<rightharpoonup> int) \<Rightarrow> nat \<Rightarrow> string list
      \<Rightarrow> discovered_generation list \<Rightarrow> (generation_id \<rightharpoonup> nat)
      \<Rightarrow> (error + discovered_generation list) \<times> fd_event list" where
  "scan_entries ans dir identity expected k [] found seen = (Inr found, [])"
| "scan_entries ans dir identity expected k (name # names) found seen =
     (case expected name of
        None \<Rightarrow> scan_entries ans dir identity expected (k + 1) names found seen
      | Some rotation \<Rightarrow>
          (case OpenReport (fst (ans k)) (snd (ans k)) (Some dir) identity rotation of
             (Inl e, evs) \<Rightarrow>
               if errors_is Os_ErrNotExist e then
                 (case scan_entries ans dir identity expected (k + 1) names found seen of
                    (res, evs') \<Rightarrow> (res, evs @ evs'))
               else (Inl (Wrap (''scan report generation '' @ Itoa rotation) [e]),
                     evs @ closeDiscovered found)
           | (Inr report, evs) \<Rightarrow>
               (case seen (Generation report) of
                  Some existing \<Rightarrow>
                    (let found' = (if Rotation (found ! existing) < rotation
                                   then found[existing := (found ! existing)\<lparr>Rotation := rotation\<rparr>]
                                   else found)
                     in case scan_entries ans dir identity expected (k + 1) names found' seen of
                          (res, evs') \<Rightarrow> (res, evs @ close_events (Some report) @ evs'))
                | None \<Rightarrow>
                    (case scan_entries ans dir identity expected (k + 1) names
                            (found @ [\<lparr>Rotation = rotation, Report = Some report\<rparr>])
                            (seen(Generation report \<mapsto> length found)) of
                       (res, evs') \<Rightarrow> (res, evs @ evs')))))"

record scan_answers =
  scan_dup :: "error + nat"
  scan_listing :: "error + string list"
  scan_reports :: report_answers

definition ScanReports ::
    "scan_answers \<Rightarrow> report_directory option \<Rightarrow> process_identity
      \<Rightarrow> (error + discovered_generation list) \<times> fd_event list" where
  "ScanReports os dir identity =
     (case dir of
        None \<Rightarrow> (Inl (Sentinel Os_ErrClosed), [])
      | Some d \<Rightarrow>
          if incomplete_identity identity
          then (Inl (unsafe_source ''process identity is incomplete''), [])
          else (case readEntryNames (scan_dup os) (scan_listing os) d of
                  (Inl e, evs) \<Rightarrow> (Inl e, evs)
                | (Inr names, evs) \<Rightarrow>
                    (case expectedReportNames (PID identity) of
                       Inl e \<Rightarrow> (Inl e, evs)
                     | Inr expected \<Rightarrow>
                         (case scan_entries (scan_reports os) d identity (alist_map expected) 0 names
                                 [] Map.empty of
                            (res, evs') \<Rightarrow> (res, evs @ evs')))))"

section \<open>Descriptors are never leaked\<close>

definition report_fds :: "report_file option \<Rightarrow> nat multiset" where
  "report_fds r = (case Option.bind r rf_file of None \<Rightarrow> {#} | Some fd \<Rightarrow> {#fd#})"

definition owned :: "discovered_generation list \<Rightarrow> nat multiset" where
  "owned ds = sum_list (map (\<lambda>d. report_fds (Report d)) ds)"

lemma owned_simps [simp]:
  "owned [] = {#}" "owned (d # ds) = report_fds (Report d) + owned ds"
  "owned (ds @ es) = owned ds + owned es"
  by (simp_all add: owned_def)

lemma live_close_events [simp]: "live_from (report_fds r + m) (close_events r) = m"
  by (cases r) (auto simp: close_events_def report_Close_def report_fds_def split: option.splits)

lemma live_closeDiscovered: "live_from (owned ds + m) (closeDiscovered ds) = m"
proof (induction ds arbitrary: m)
  case (Cons d ds)
  have "live_from (report_fds (Report d) + (owned ds + m)) (close_events (Report d)) = owned ds + m"
    by (rule live_close_events)
  with Cons show ?case by (simp add: closeDiscovered_def add.assoc)
qed (simp add: closeDiscovered_def)

text \<open>
  What an operation does with descriptors: it turns those of the state before into those of the
  state after, whatever else is open.
\<close>

definition fd_flow :: "nat multiset \<Rightarrow> fd_event list \<Rightarrow> nat multiset \<Rightarrow> bool" where
  "fd_flow before evs after \<longleftrightarrow> (\<forall>m. live_from (before + m) evs = after + m)"

lemma fd_flow_Nil [simp]: "fd_flow a [] a"
  by (simp add: fd_flow_def)

lemma fd_flow_append [intro?]: "fd_flow a es b \<Longrightarrow> fd_flow b fs c \<Longrightarrow> fd_flow a (es @ fs) c"
  by (simp add: fd_flow_def)

lemma fd_flow_frame: "fd_flow a es b \<Longrightarrow> fd_flow (a + f) es (b + f)"
  by (simp add: fd_flow_def add.assoc)

lemma fd_flow_live: "fd_flow {#} evs m \<Longrightarrow> live evs = m"
  unfolding fd_flow_def live_def by (metis add.right_neutral)

lemma fd_flow_close_report [simp]: "fd_flow (report_fds r) (close_events r) {#}"
  by (simp add: fd_flow_def)

lemma fd_flow_closeDiscovered [simp]: "fd_flow (owned ds) (closeDiscovered ds) {#}"
  by (simp add: fd_flow_def live_closeDiscovered)

lemma OpenReport_fds:
  "OpenReport opened fstat dir i rotation = (res, evs) \<Longrightarrow>
     live_from m evs = m + (case res of Inl e \<Rightarrow> {#} | Inr rf \<Rightarrow> report_fds (Some rf))"
  by (auto simp: OpenReport_def open_validated_def Let_def report_fds_def
      split: option.splits if_splits sum.splits)

lemma owned_update:
  "i < length ds \<Longrightarrow> owned (ds[i := (ds ! i)\<lparr>Rotation := r\<rparr>]) = owned ds"
  by (induction ds arbitrary: i) (auto split: nat.splits)

definition seen_ok :: "discovered_generation list \<Rightarrow> (generation_id \<rightharpoonup> nat) \<Rightarrow> bool" where
  "seen_ok found seen \<longleftrightarrow>
     (\<forall>d \<in> set found. Report d \<noteq> None)
     \<and> distinct (map (\<lambda>d. Generation (the (Report d))) found)
     \<and> (\<forall>g i. seen g = Some i \<longleftrightarrow> i < length found \<and> Generation (the (Report (found ! i))) = g)"

lemma seen_ok_empty [simp]: "seen_ok [] Map.empty"
  by (simp add: seen_ok_def)

lemma seen_ok_snoc:
  assumes ok: "seen_ok found seen" and new: "seen (Generation rf) = None"
  shows "seen_ok (found @ [\<lparr>Rotation = r, Report = Some rf\<rparr>]) (seen(Generation rf \<mapsto> length found))"
proof -
  have fresh: "Generation rf \<notin> (\<lambda>d. Generation (the (Report d))) ` set found"
  proof
    assume "Generation rf \<in> (\<lambda>d. Generation (the (Report d))) ` set found"
    then obtain d where d: "d \<in> set found" "Generation (the (Report d)) = Generation rf" by auto
    then obtain i where "i < length found" "found ! i = d" by (auto simp: in_set_conv_nth)
    with d ok have "seen (Generation rf) = Some i" by (simp add: seen_ok_def)
    with new show False by simp
  qed
  have "(seen(Generation rf \<mapsto> length found)) g = Some i \<longleftrightarrow>
      i < length (found @ [\<lparr>Rotation = r, Report = Some rf\<rparr>])
      \<and> Generation (the (Report ((found @ [\<lparr>Rotation = r, Report = Some rf\<rparr>]) ! i))) = g" for g i
  proof (cases "i < length found")
    case True
    with fresh have "Generation (the (Report (found ! i))) \<noteq> Generation rf"
      by (metis image_eqI nth_mem)
    with True ok show ?thesis by (auto simp: seen_ok_def nth_append)
  next
    case False
    with ok show ?thesis by (auto simp: seen_ok_def nth_append)
  qed
  with ok fresh show ?thesis by (auto simp: seen_ok_def)
qed

lemma seen_ok_update:
  assumes "seen_ok found seen" "i < length found"
  shows "seen_ok (found[i := (found ! i)\<lparr>Rotation := r\<rparr>]) seen"
proof -
  have m: "map (\<lambda>d. Generation (the (Report d))) (found[i := (found ! i)\<lparr>Rotation := r\<rparr>])
      = map (\<lambda>d. Generation (the (Report d))) found"
    using assms(2) by (simp add: map_update list_update_same_conv)
  have n: "Generation (the (Report (found[i := (found ! i)\<lparr>Rotation := r\<rparr>] ! j)))
      = Generation (the (Report (found ! j)))" for j
    using assms(2) by (cases "j = i") auto
  have "Report d \<noteq> None" if "d \<in> set (found[i := (found ! i)\<lparr>Rotation := r\<rparr>])" for d
    using that assms set_update_subset_insert by (fastforce simp: seen_ok_def)
  with assms(1) m n show ?thesis by (simp add: seen_ok_def)
qed

text \<open>What one scan leaves open is what its result owns, and each generation is found once.\<close>

lemma scan_entries_ok:
  "scan_entries ans dir i expected k names found seen = (res, evs) \<Longrightarrow> seen_ok found seen \<Longrightarrow>
     live_from (owned found + m) evs = m + (case res of Inl e \<Rightarrow> {#} | Inr ds \<Rightarrow> owned ds)
     \<and> (case res of Inl e \<Rightarrow> True | Inr ds \<Rightarrow> \<exists>seen'. seen_ok ds seen')"
proof (induction names arbitrary: k found seen res evs m)
  case Nil
  then show ?case by (auto simp: add.commute)
next
  case (Cons name names)
  show ?case
  proof (cases "expected name")
    case None
    with Cons show ?thesis by auto
  next
    case (Some rotation)
    obtain o_res o_evs where op: "OpenReport (fst (ans k)) (snd (ans k)) (Some dir) i rotation = (o_res, o_evs)"
      by force
    note fds = OpenReport_fds [OF op]
    show ?thesis
    proof (cases o_res)
      case (Inl e)
      then have keep: "live_from (owned found + m) o_evs = owned found + m" using fds by simp
      show ?thesis
      proof (cases "errors_is Os_ErrNotExist e")
        case True
        obtain r' evs' where rest: "scan_entries ans dir i expected (k + 1) names found seen = (r', evs')"
          by force
        with Cons.prems Some op Inl True have "res = r'" "evs = o_evs @ evs'" by auto
        with Cons.IH [OF rest Cons.prems(2)] keep show ?thesis by simp
      next
        case False
        with Cons.prems Some op Inl
        have "res = Inl (Wrap (''scan report generation '' @ Itoa rotation) [e])"
          "evs = o_evs @ closeDiscovered found" by auto
        with keep live_closeDiscovered show ?thesis by simp
      qed
    next
      case (Inr report)
      then have got: "live_from (owned found + m) o_evs = report_fds (Some report) + (owned found + m)"
        using fds by (simp add: add.commute)
      show ?thesis
      proof (cases "seen (Generation report)")
        case existing: (Some j)
        then have j: "j < length found" using Cons.prems(2) by (auto simp: seen_ok_def)
        define found' where "found' = (if Rotation (found ! j) < rotation
          then found[j := (found ! j)\<lparr>Rotation := rotation\<rparr>] else found)"
        have ok': "seen_ok found' seen" and own': "owned found' = owned found"
          using seen_ok_update [OF Cons.prems(2) j] Cons.prems(2) owned_update [OF j]
          by (simp_all add: found'_def)
        obtain r' evs' where rest: "scan_entries ans dir i expected (k + 1) names found' seen = (r', evs')"
          by force
        with Cons.prems Some op Inr existing
        have "res = r'" "evs = o_evs @ close_events (Some report) @ evs'"
          by (auto simp: found'_def Let_def split: if_splits)
        with Cons.IH [OF rest ok'] got own' show ?thesis by simp
      next
        case new: None
        let ?found = "found @ [\<lparr>Rotation = rotation, Report = Some report\<rparr>]"
        obtain r' evs' where rest: "scan_entries ans dir i expected (k + 1) names ?found
            (seen(Generation report \<mapsto> length found)) = (r', evs')" by force
        with Cons.prems Some op Inr new have "res = r'" "evs = o_evs @ evs'" by auto
        moreover have eq: "owned ?found + m = report_fds (Some report) + (owned found + m)"
          by (simp add: ac_simps)
        moreover note Cons.IH [OF rest seen_ok_snoc [OF Cons.prems(2) new], of m, unfolded eq]
        ultimately show ?thesis using got by simp
      qed
    qed
  qed
qed

lemma readEntryNames_fds:
  "readEntryNames opened listing dir = (res, evs) \<Longrightarrow> live_from m evs = m"
  by (auto simp: readEntryNames_def split: if_splits sum.splits)

lemma ScanReports_ok:
  assumes "ScanReports os dir i = (res, evs)"
  shows "fd_flow {#} evs (case res of Inl e \<Rightarrow> {#} | Inr ds \<Rightarrow> owned ds)
    \<and> (case res of Inl e \<Rightarrow> True | Inr ds \<Rightarrow> \<exists>seen. seen_ok ds seen)"
proof (cases "\<exists>d names expected evs0. dir = Some d \<and> \<not> incomplete_identity i
    \<and> readEntryNames (scan_dup os) (scan_listing os) d = (Inr names, evs0)
    \<and> expectedReportNames (PID i) = Inr expected")
  case True
  then obtain d names expected evs0 where c: "dir = Some d" "\<not> incomplete_identity i"
    "readEntryNames (scan_dup os) (scan_listing os) d = (Inr names, evs0)"
    "expectedReportNames (PID i) = Inr expected" by blast
  obtain r' evs' where sc: "scan_entries (scan_reports os) d i (alist_map expected) 0 names
      [] Map.empty = (r', evs')" by force
  with assms c have "res = r'" "evs = evs0 @ evs'" by (auto simp: ScanReports_def)
  with scan_entries_ok [OF sc seen_ok_empty] readEntryNames_fds [OF c(3)]
  show ?thesis by (simp add: fd_flow_def add.commute)
next
  case False
  with assms show ?thesis
    by (auto simp: ScanReports_def fd_flow_def split: option.splits if_splits prod.splits sum.splits
        dest: readEntryNames_fds)
qed

section \<open>The walk to the directory\<close>

lemma open_components_fds:
  "open_components openat k fd ws = (res, evs) \<Longrightarrow>
     live_from (add_mset fd m) evs = m + (case res of Inl e \<Rightarrow> {#} | Inr fd' \<Rightarrow> {#fd'#})"
proof (induction openat k fd ws arbitrary: res evs m rule: open_components.induct)
  case (2 openat k fd w ws)
  show ?case
  proof (cases "w = []")
    case True
    with 2 show ?thesis by simp
  next
    case False
    show ?thesis
    proof (cases "openat k fd w")
      case (Inl e)
      with "2.prems" False show ?thesis by auto
    next
      case (Inr nfd)
      obtain r' evs' where rest: "open_components openat (k + 1) nfd ws = (r', evs')" by force
      with "2.prems" False Inr have "res = r'" "evs = FdOpen nfd # FdClose fd # evs'" by auto
      with "2.IH"(2) [OF False Inr rest, of m] show ?thesis by simp
    qed
  qed
qed auto

lemma OpenReportDirectory_fds:
  assumes "OpenReportDirectory os path allow = (res, evs)"
  shows "fd_flow {#} evs (case res of Inl e \<Rightarrow> {#} | Inr dir \<Rightarrow> {#the (dir_fd dir)#})"
proof -
  have walk: "openDirectoryNoFollow r oa p = (w, evs0) \<Longrightarrow>
      live_from m evs0 = m + (case w of Inl e \<Rightarrow> {#} | Inr fd \<Rightarrow> {#fd#})" for r oa p w evs0 m
    using open_components_fds [of oa 0 _ _ w _ m]
    by (auto simp: openDirectoryNoFollow_def split: sum.splits prod.splits)
  have "live_from m evs = m + (case res of Inl e \<Rightarrow> {#} | Inr dir \<Rightarrow> {#the (dir_fd dir)#})" for m
    using assms
    by (auto simp: OpenReportDirectory_def split: if_splits prod.splits sum.splits option.splits
        dest!: walk [where m = m])
  then show ?thesis by (simp add: fd_flow_def add.commute)
qed

text \<open>No component the walk opens is empty, a dot or a double dot.\<close>

definition plain_component :: "string \<Rightarrow> bool" where
  "plain_component w \<longleftrightarrow> w \<noteq> [] \<and> w \<noteq> ''.'' \<and> w \<noteq> ''..''"

lemma clean_elements_plain:
  "list_all plain_component acc \<Longrightarrow> list_all plain_component (clean_elements ws acc)"
proof (induction ws acc rule: clean_elements.induct)
  case (1 acc)
  then show ?case by (simp add: list_all_iff)
next
  case (2 w ws acc)
  have tl: "list_all plain_component (tl acc)" using "2.prems" by (cases acc) simp_all
  consider "w = [] \<or> w = ''.''" | "\<not> (w = [] \<or> w = ''.'')" "w = ''..''" | "plain_component w"
    unfolding plain_component_def by blast
  then show ?case
  proof cases
    case 1
    then show ?thesis using "2.IH"(1) "2.prems" by simp
  next
    case 2
    then show ?thesis using "2.IH"(2) tl by simp
  next
    case 3
    then show ?thesis using "2.IH"(3) "2.prems" by (simp add: plain_component_def)
  qed
qed

lemma split_slash_nonempty: "split_slash s \<noteq> []"
  by (induction s) (auto split: list.splits)

lemma split_slash_no_slash: "w \<in> set (split_slash s) \<Longrightarrow> CHR ''/'' \<notin> set w"
proof (induction s arbitrary: w)
  case (Cons c cs)
  obtain v vs where "split_slash cs = v # vs" using split_slash_nonempty by (meson neq_Nil_conv)
  with Cons show ?case by (auto split: if_splits)
qed simp

lemma split_slash_word: "CHR ''/'' \<notin> set w \<Longrightarrow> split_slash w = [w]"
  by (induction w) auto

lemma split_slash_append:
  "CHR ''/'' \<notin> set w \<Longrightarrow> split_slash (w @ CHR ''/'' # s) = w # split_slash s"
proof (induction w)
  case Nil
  show ?case using split_slash_nonempty [of s] by (auto split: list.splits)
qed auto

lemma split_join_slash:
  "ws \<noteq> [] \<Longrightarrow> \<forall>w \<in> set ws. CHR ''/'' \<notin> set w \<Longrightarrow> split_slash (join_slash ws) = ws"
  by (induction ws rule: join_slash.induct) (auto simp: split_slash_word split_slash_append)

lemma clean_elements_subset: "set (clean_elements ws acc) \<subseteq> set ws \<union> set acc"
proof (induction ws acc rule: clean_elements.induct)
  case (2 w ws acc)
  have tl: "set (tl acc) \<subseteq> set acc" by (cases acc) auto
  show ?case
  proof (cases "w = [] \<or> w = ''.''")
    case True
    then show ?thesis using "2.IH"(1) by auto
  next
    case False
    then show ?thesis using "2.IH"(2,3) tl by (cases "w = ''..''") auto
  qed
qed simp

text \<open>The components of the cleaned path are plain, and hold no slash.\<close>

lemma clean_components:
  "w \<in> set (split_slash (TrimPrefixSlash (CleanAbs p))) \<Longrightarrow>
     w = [] \<or> (plain_component w \<and> CHR ''/'' \<notin> set w)"
proof -
  let ?ws = "clean_elements (split_slash p) []"
  have plain: "list_all plain_component ?ws" by (rule clean_elements_plain) simp
  have slash: "\<forall>w \<in> set ?ws. CHR ''/'' \<notin> set w"
    using clean_elements_subset [of "split_slash p" "[]"] split_slash_no_slash by auto
  assume "w \<in> set (split_slash (TrimPrefixSlash (CleanAbs p)))"
  then have "w \<in> set (split_slash (join_slash ?ws))"
    by (simp add: TrimPrefixSlash_def CleanAbs_def)
  moreover have "split_slash (join_slash ?ws) = (if ?ws = [] then [[]] else ?ws)"
    using split_join_slash slash by auto
  ultimately show ?thesis using plain slash by (auto simp: list_all_iff split: if_splits)
qed

lemma open_components_agree:
  "(\<And>k fd w. w \<in> set ws \<Longrightarrow> w \<noteq> [] \<Longrightarrow> openat k fd w = openat' k fd w) \<Longrightarrow>
     open_components openat k fd ws = open_components openat' k fd ws"
  by (induction ws arbitrary: k fd) (auto split: sum.splits)

section \<open>Names\<close>

lemma reportName_inj:
  assumes "reportName p r = Inr n" "reportName p' r' = Inr n"
  shows "p = p' \<and> r = r'"
proof -
  let ?suffix = "\<lambda>r. (if 0 < (r::int) then ''_'' @ Itoa r else []) @ ''.json''"
  have pos: "0 < p" "0 < p'" "0 \<le> r" "r \<le> 9" "0 \<le> r'" "r' \<le> 9"
    and eq: "Itoa p @ ?suffix r = Itoa p' @ ?suffix r'"
    using assms by (auto simp: reportName_def split: if_splits)
  have nd: "\<not> is_digit (CHR ''_'')" "\<not> is_digit (CHR ''.'')"
    by (simp_all add: is_digit_def byte_code_def)
  have digs: "list_all is_digit (Itoa i)" if "0 < i" for i
    using digits_of_value [of "nat i"] that by (simp add: Itoa_pos all_digits_def)
  have tw: "takeWhile is_digit (Itoa i @ ?suffix q) = Itoa i" "dropWhile is_digit (Itoa i @ ?suffix q) = ?suffix q"
    if "0 < i" for i q
    using digs [OF that] nd
    by (auto simp: takeWhile_append2 dropWhile_append2 list_all_iff split: if_splits)
  have "Itoa p = Itoa p'" "?suffix r = ?suffix r'" using tw pos eq by metis+
  then have "p = p'" using Itoa_inj pos by blast
  moreover have "r = r'"
  proof (cases "0 < r"; cases "0 < r'")
    assume "0 < r" "0 < r'"
    with \<open>?suffix r = ?suffix r'\<close> show ?thesis using Itoa_inj by simp
  next
    assume "\<not> 0 < r" "\<not> 0 < r'"
    with pos show ?thesis by simp
  qed (use \<open>?suffix r = ?suffix r'\<close> in auto)
  ultimately show ?thesis by simp
qed

section \<open>Only trusted reports are discovered\<close>

text \<open>What the checks of \<open>OpenReport\<close> establish of the descriptor's metadata.\<close>

definition trusted_report :: "report_directory \<Rightarrow> process_identity \<Rightarrow> os_stat \<Rightarrow> report_file \<Rightarrow> bool" where
  "trusted_report dir identity stat rf \<longleftrightarrow>
     st_mode stat AND S_IFMT = S_IFREG
     \<and> (\<not> allowInsecure dir \<longrightarrow> st_uid stat = ownerUID dir \<and> st_mode stat AND group_other_mask = 0)
     \<and> ModificationTime rf = time_Unix (fst (st_mtime stat)) (snd (st_mtime stat))
     \<and> After (ModificationTime rf) (CreationTime identity)
     \<and> Generation rf = \<lparr>Device = st_dev stat, Inode = st_ino stat\<rparr> \<and> rf_file rf \<noteq> None"

text \<open>
  A report's descriptor is the kernel's answer for one of the process's ten names, taken relative to
  the directory's descriptor, without following a link and without blocking.
\<close>

definition opened_as :: "openat_answer \<Rightarrow> report_directory \<Rightarrow> process_identity \<Rightarrow> report_file \<Rightarrow> bool" where
  "opened_as openat dir identity rf \<longleftrightarrow>
     (\<exists>dirfd rotation name fd. dir_fd dir = Some dirfd \<and> reportName (PID identity) rotation = Inr name
        \<and> openat dirfd name [O_RDONLY, O_CLOEXEC, O_NOFOLLOW, O_NONBLOCK] = Inr fd \<and> rf_file rf = Some fd)"

lemma reportName_range: "reportName pid rotation = Inr name \<Longrightarrow> 0 \<le> rotation \<and> rotation \<le> 9"
  by (auto simp: reportName_def split: if_splits)

lemma OpenReport_trusted:
  "OpenReport openat fstat dir i rotation = (Inr rf, evs) \<Longrightarrow>
     \<exists>d stat. dir = Some d \<and> fstat = Inr stat \<and> trusted_report d i stat rf \<and> 0 \<le> rotation \<and> rotation \<le> 9
       \<and> opened_as openat d i rf"
  by (auto simp: OpenReport_def open_validated_def Let_def trusted_report_def validateReportStat_def
      opened_as_def report_flags_def split: option.splits if_splits sum.splits dest: reportName_range) blast+

definition trusted_generation :: "scan_answers \<Rightarrow> report_directory \<Rightarrow> process_identity \<Rightarrow> discovered_generation \<Rightarrow> bool" where
  "trusted_generation os dir i d \<longleftrightarrow>
     (\<exists>k stat. snd (scan_reports os k) = Inr stat \<and> trusted_report dir i stat (the (Report d))
        \<and> opened_as (fst (scan_reports os k)) dir i (the (Report d)))
     \<and> Report d \<noteq> None \<and> 0 \<le> Rotation d \<and> Rotation d \<le> 9"

lemma scan_entries_trusted:
  "scan_entries (scan_reports os) dir i expected k names found seen = (Inr ds, evs) \<Longrightarrow>
     list_all (trusted_generation os dir i) found \<Longrightarrow> seen_ok found seen \<Longrightarrow>
     list_all (trusted_generation os dir i) ds"
proof (induction names arbitrary: k found seen evs)
  case (Cons name names)
  show ?case
  proof (cases "expected name")
    case None
    with Cons show ?thesis by auto
  next
    case (Some rotation)
    obtain o_res o_evs where op: "OpenReport (fst (scan_reports os k)) (snd (scan_reports os k)) (Some dir) i rotation = (o_res, o_evs)"
      by force
    show ?thesis
    proof (cases o_res)
      case (Inl e)
      with Cons Some op show ?thesis by (auto split: prod.splits if_splits)
    next
      case (Inr rf)
      obtain stat where t: "snd (scan_reports os k) = Inr stat" "trusted_report dir i stat rf"
        "0 \<le> rotation" "rotation \<le> 9" "opened_as (fst (scan_reports os k)) dir i rf"
        using OpenReport_trusted op Inr by blast
      show ?thesis
      proof (cases "seen (Generation rf)")
        case None
        have "trusted_generation os dir i \<lparr>Rotation = rotation, Report = Some rf\<rparr>"
          using t by (auto simp: trusted_generation_def)
        with Cons None Some op Inr seen_ok_snoc [OF Cons.prems(3) None] show ?thesis
          by (fastforce split: prod.splits)
      next
        case existing: (Some j)
        then have j: "j < length found" using Cons.prems(3) by (auto simp: seen_ok_def)
        have upd: "list_all (trusted_generation os dir i) (found[j := (found ! j)\<lparr>Rotation := rotation\<rparr>])"
          using Cons.prems(2) j t
          by (auto simp: list_all_iff trusted_generation_def dest!: set_update_subset_insert [THEN subsetD])
        show ?thesis
          using Cons existing Some op Inr upd seen_ok_update [OF Cons.prems(3) j]
          by (fastforce simp: Let_def split: prod.splits if_splits)
      qed
    qed
  qed
qed simp

section \<open>The names a scan recognises\<close>

lemma expected_names_from_map:
  "0 < pid \<Longrightarrow> list_all (\<lambda>r. 0 \<le> r \<and> r \<le> 9) rs \<Longrightarrow>
     expected_names_from pid rs acc = Inr (acc @ map (\<lambda>r. (projr (reportName pid r), r)) rs)"
  by (induction rs arbitrary: acc) (auto simp: reportName_def)

lemma expectedReportNames_iff:
  assumes "expectedReportNames pid = Inr expected"
  shows "alist_map expected name = Some r \<longleftrightarrow> reportName pid r = Inr name"
proof -
  have pos: "0 < pid"
    using assms by (cases "0 < pid") (auto simp: expectedReportNames_def reportName_def)
  define rs where "rs = ([0, 1, 2, 3, 4, 5, 6, 7, 8, 9] :: int list)"
  have rs: "r \<in> set rs \<longleftrightarrow> 0 \<le> r \<and> r \<le> 9" "distinct rs" for r
    by (simp_all add: rs_def, presburger)
  let ?name = "\<lambda>r. projr (reportName pid r)"
  have e: "expected = map (\<lambda>r. (?name r, r)) rs"
    using assms expected_names_from_map [OF pos, of rs "[]"] rs(1)
    by (simp add: expectedReportNames_def rs_def [symmetric] list_all_iff)
  have ok: "reportName pid r = Inr (?name r)" if "r \<in> set rs" for r
    using that pos by (auto simp: reportName_def rs)
  have "inj_on ?name (set rs)"
    using reportName_inj ok by (intro inj_onI) metis
  then have "distinct (map fst expected)"
    using rs(2) by (simp add: e comp_def distinct_map)
  then have "alist_map expected name = Some r \<longleftrightarrow> (name, r) \<in> set expected"
    by (simp add: alist_map_def map_of_eq_Some_iff rev_map [symmetric])
  also have "\<dots> \<longleftrightarrow> r \<in> set rs \<and> name = ?name r" by (auto simp: e)
  also have "\<dots> \<longleftrightarrow> reportName pid r = Inr name"
    using ok pos by (auto simp: reportName_def rs split: if_splits)
  finally show ?thesis .
qed

end
