(* ===== verification/Reader.thy ===== *)
theory Reader
  imports Directory Decoder_Lossless "HOL-Library.Sublist"
begin

text \<open>
  \<open>internal/source/reader_linux.go\<close>: one generation's reader, which keeps its decoder and
  descriptor across appends and rotation, and \<open>drain\<close>, which applies every complete record.
  The handler is a transformer of the caller's state that may fail.  Each time the loop needs
  the file it consumes one \<open>file_view\<close>, the kernel's answers to \<open>fstat\<close> and \<open>pread\<close> at that
  moment; a drain that needs more views than it is given has not returned, and its model is
  \<open>None\<close>.
\<close>

record generation_watermark =
  wm_Generation :: generation_id
  wm_CommittedOffset :: nat
  LastFingerprint :: bytes
  HasFingerprint :: bool
  wm_Closed :: bool

record drain_result =
  dr_records :: nat
  dr_bytes :: nat
  dr_closed :: bool

definition zero_drain :: drain_result where
  "zero_drain = \<lparr>dr_records = 0, dr_bytes = 0, dr_closed = False\<rparr>"

record generation_reader =
  report :: "report_file option"
  rd_decoder :: decoder
  rotation :: int
  lastFingerprint :: bytes
  hasLastFingerprint :: bool

definition generationReadBufferBytes :: nat where
  "generationReadBufferBytes = 65536"

definition zero_fingerprint :: bytes where
  "zero_fingerprint = replicate 32 (CHR 0x00)"

definition newGenerationReader :: "discovered_generation \<Rightarrow> nat \<Rightarrow> error + generation_reader" where
  "newGenerationReader g max_bytes =
     (if Report g = None then Inl (Text ''report generation is missing its descriptor'')
      else (case NewDecoder max_bytes of
              Inl e \<Rightarrow> Inl e
            | Inr d \<Rightarrow> Inr \<lparr>report = Report g, rd_decoder = d, rotation = Rotation g,
                           lastFingerprint = zero_fingerprint, hasLastFingerprint = False\<rparr>))"

section \<open>Draining\<close>

record file_view =
  view_size :: "error + nat"
  view_read :: "nat \<Rightarrow> nat \<Rightarrow> bytes \<times> error option"

type_synonym 'h record_apply = "source_record \<Rightarrow> 'h \<Rightarrow> error option \<times> 'h"

text \<open>Why the loop over complete records stops.\<close>

datatype record_stop = StreamClosed | NeedMore | Stopped error

text \<open>
  The cases of the loop that do not touch the file: a record is applied and committed until
  the decoder is closed, needs more bytes or fails, or the handler or the commit fails.
\<close>

function take_records ::
    "'h record_apply \<Rightarrow> generation_reader \<Rightarrow> drain_result \<Rightarrow> 'h
      \<Rightarrow> record_stop \<times> generation_reader \<times> drain_result \<times> 'h" where
  "take_records apply_record rd res h =
     (case Next (rd_decoder rd) of
        (Inr r, d1) \<Rightarrow>
          (case apply_record r h of
             (Some e, h') \<Rightarrow> (Stopped e, rd\<lparr>rd_decoder := d1\<rparr>, res, h')
           | (None, h') \<Rightarrow>
               (case Commit d1 r of
                  (Some e, d2) \<Rightarrow>
                    (Stopped (Wrap ''commit report record'' [e]), rd\<lparr>rd_decoder := d2\<rparr>, res, h')
                | (None, d2) \<Rightarrow>
                    take_records apply_record
                      (rd\<lparr>rd_decoder := d2, lastFingerprint := Fingerprint r, hasLastFingerprint := True\<rparr>)
                      (res\<lparr>dr_records := dr_records res + 1\<rparr>) h'))
      | (Inl e, d1) \<Rightarrow>
          if errors_is ErrClosed e
          then (StreamClosed, rd\<lparr>rd_decoder := d1\<rparr>, res\<lparr>dr_closed := True\<rparr>, h)
          else if \<not> errors_is ErrNeedMore e then (Stopped e, rd\<lparr>rd_decoder := d1\<rparr>, res, h)
          else (NeedMore, rd\<lparr>rd_decoder := d1\<rparr>, res, h))"
  by pat_completeness auto
termination
  by (relation "measure (\<lambda>(f, rd, res, h). length (buffer (rd_decoder rd))
        + (case pending (rd_decoder rd) of None \<Rightarrow> 0 | Some _ \<Rightarrow> 1))")
    (auto dest: Next_Commit_shrinks dest!: sym [of "(_, _)"])

declare take_records.simps [simp del]

definition currentSize :: "file_view \<Rightarrow> generation_reader \<Rightarrow> error + nat" where
  "currentSize view rd =
     (case Option.bind (report rd) rf_file of
        None \<Rightarrow> Inl (Sentinel Os_ErrClosed)
      | Some fd \<Rightarrow>
          (case view_size view of
             Inl e \<Rightarrow> Inl (Wrap ''inspect report generation descriptor'' [e])
           | Inr n \<Rightarrow> Inr n))"

definition generation_truncated :: "nat \<Rightarrow> nat \<Rightarrow> error" where
  "generation_truncated sz off =
     Wrap (''size '' @ digits_of sz @ '' is before read offset '' @ digits_of off)
       [Sentinel ErrGenerationTruncated]"

text \<open>One read: nothing to read, bytes that were appended, or an error.\<close>

datatype read_step = CaughtUp | Appended generation_reader nat | ReadFailed error generation_reader

definition read_more :: "file_view \<Rightarrow> generation_reader \<Rightarrow> read_step" where
  "read_more view rd =
     (case currentSize view rd of
        Inl e \<Rightarrow> ReadFailed e rd
      | Inr sz \<Rightarrow>
          (let off = ReadOffset (rd_decoder rd)
           in if sz < off then ReadFailed (generation_truncated sz off) rd
              else if sz = off then CaughtUp
              else (case report_ReadAt (view_read view) (report rd)
                           (min (sz - off) generationReadBufferBytes) off of
                      (bs, err) \<Rightarrow>
                        if bs \<noteq> [] then
                          (case decoder_append (rd_decoder rd) off bs of
                             (Some e, d) \<Rightarrow> ReadFailed e (rd\<lparr>rd_decoder := d\<rparr>)
                           | (None, d) \<Rightarrow> Appended (rd\<lparr>rd_decoder := d\<rparr>) (length bs))
                        else (case err of
                                Some e \<Rightarrow>
                                  if errors_is Io_EOF e
                                  then ReadFailed (Wrap ''read report generation'' [Sentinel Io_ErrUnexpectedEOF]) rd
                                  else ReadFailed (Wrap ''read report generation'' [e]) rd
                              | None \<Rightarrow>
                                  ReadFailed (Wrap ''read report generation'' [Sentinel Io_ErrUnexpectedEOF]) rd))))"

fun drain_loop ::
    "'h record_apply \<Rightarrow> file_view list \<Rightarrow> generation_reader \<Rightarrow> drain_result \<Rightarrow> 'h
      \<Rightarrow> (error option \<times> generation_reader \<times> drain_result \<times> 'h) option" where
  "drain_loop f views rd res h =
     (case take_records f rd res h of
        (StreamClosed, rd', res', h') \<Rightarrow> Some (None, rd', res', h')
      | (Stopped e, rd', res', h') \<Rightarrow> Some (Some e, rd', res', h')
      | (NeedMore, rd', res', h') \<Rightarrow>
          (case views of
             [] \<Rightarrow> None
           | view # rest \<Rightarrow>
               (case read_more view rd' of
                  CaughtUp \<Rightarrow> Some (None, rd', res', h')
                | ReadFailed e rd'' \<Rightarrow> Some (Some e, rd'', res', h')
                | Appended rd'' n \<Rightarrow>
                    drain_loop f rest rd'' (res'\<lparr>dr_bytes := dr_bytes res' + n\<rparr>) h')))"

declare drain_loop.simps [simp del]

definition drain ::
    "'h record_apply option \<Rightarrow> file_view list \<Rightarrow> generation_reader option \<Rightarrow> 'h
      \<Rightarrow> (error option \<times> generation_reader option \<times> drain_result \<times> 'h) option" where
  "drain f views rd h =
     (case rd of
        None \<Rightarrow> Some (Some (Sentinel Os_ErrClosed), None, zero_drain, h)
      | Some r \<Rightarrow>
          if report r = None then Some (Some (Sentinel Os_ErrClosed), Some r, zero_drain, h)
          else (case f of
                  None \<Rightarrow> Some (Some (Text ''record handler is required''), Some r, zero_drain, h)
                | Some g \<Rightarrow>
                    map_option (\<lambda>(e, r', res, h'). (e, Some r', res, h'))
                      (drain_loop g views r zero_drain h)))"

definition watermark :: "generation_reader \<Rightarrow> generation_watermark" where
  "watermark rd =
     \<lparr>wm_Generation = Generation (the (report rd)), wm_CommittedOffset = CommittedOffset (rd_decoder rd),
      LastFingerprint = lastFingerprint rd, HasFingerprint = hasLastFingerprint rd,
      wm_Closed = Closed (rd_decoder rd)\<rparr>"

definition reader_close :: "error option \<Rightarrow> generation_reader \<Rightarrow> error option \<times> generation_reader \<times> fd_event list" where
  "reader_close closed_answer rd =
     (case report_Close closed_answer (report rd) of
        (e, r, evs) \<Rightarrow> (e, rd\<lparr>report := r\<rparr>, evs))"

section \<open>What a drain applies\<close>

text \<open>
  What a handler did to its state: it accepted these records in this order, and may have refused
  others in between.
\<close>

inductive handled :: "'h record_apply \<Rightarrow> source_record list \<Rightarrow> 'h \<Rightarrow> 'h \<Rightarrow> bool" for f where
  handled_none: "handled f [] h h"
| handled_accept: "f r h = (None, h1) \<Longrightarrow> handled f rs h1 h2 \<Longrightarrow> handled f (r # rs) h h2"
| handled_refuse: "f r h = (Some e, h1) \<Longrightarrow> handled f rs h1 h2 \<Longrightarrow> handled f rs h h2"

declare handled_none [simp, intro]

lemma handled_append: "handled f rs h h1 \<Longrightarrow> handled f rs' h1 h2 \<Longrightarrow> handled f (rs @ rs') h h2"
  by (induction rule: handled.induct) (auto intro: handled_accept handled_refuse)

text \<open>The handler with a log of the records it accepted.\<close>

definition logged :: "'h record_apply \<Rightarrow> ('h \<times> source_record list) record_apply" where
  "logged f r w = (case w of (h, applied) \<Rightarrow>
     (case f r h of (None, h') \<Rightarrow> (None, (h', applied @ [r])) | (Some e, h') \<Rightarrow> (Some e, (h', applied))))"

lemma handled_logged: "handled (logged f) rs w w' \<Longrightarrow> snd w' = snd w @ rs"
  by (induction rule: handled.induct) (auto simp: logged_def split: prod.splits option.splits)

text \<open>
  The reader's invariant for the bytes \<open>s\<close> it has read and the records its handler accepted:
  the decoder accounts for exactly them.
\<close>

definition reader_inv :: "generation_reader \<Rightarrow> bytes \<Rightarrow> source_record list \<Rightarrow> bool" where
  "reader_inv rd s applied \<longleftrightarrow> accounts (rd_decoder rd) s applied"

lemma NewReader_inv: "newGenerationReader g m = Inr rd \<Longrightarrow> reader_inv rd [] []"
  using accounts_new by (auto simp: newGenerationReader_def reader_inv_def split: if_splits sum.splits)

lemma take_records_inv:
  assumes "take_records f rd res h = (stop, rd', res', h')" and "reader_inv rd s applied"
  shows "\<exists>rs. handled f rs h h' \<and> reader_inv rd' s (applied @ rs)
    \<and> dr_records res' = dr_records res + length rs \<and> dr_bytes res' = dr_bytes res"
  using assms
proof (induction f rd res h arbitrary: applied rule: take_records.induct)
  case (1 f rd res h)
  obtain nx d1 where nx: "Next (rd_decoder rd) = (nx, d1)" by force
  have acc: "accounts d1 s applied"
    using Next_accounts [OF _ nx] "1.prems"(2) by (simp add: reader_inv_def)
  show ?case
  proof (cases nx)
    case (Inl e)
    with "1.prems"(1) nx acc show ?thesis
      by (intro exI [of _ "[]"], subst (asm) take_records.simps) (auto simp: reader_inv_def split: if_splits)
  next
    case (Inr r)
    obtain fe h1 where f: "f r h = (fe, h1)" by force
    show ?thesis
    proof (cases fe)
      case (Some e)
      with "1.prems"(1) nx Inr f have "h' = h1" "rd' = rd\<lparr>rd_decoder := d1\<rparr>" "res' = res"
        by (subst (asm) take_records.simps, simp)+
      with acc f Some show ?thesis
        by (intro exI [of _ "[]"]) (auto simp: reader_inv_def intro: handled_refuse)
    next
      case None
      have t: "decoder_tracks (rd_decoder rd) s"
        using "1.prems"(2) by (simp add: reader_inv_def accounts_def)
      have p: "pending d1 = Some r" using Next_record(3) [OF t] nx Inr by simp
      have t1: "decoder_tracks d1 s" using acc by (simp add: accounts_def)
      obtain d2 where c: "Commit d1 r = (None, d2)" using Commit_tracks [OF t1 p] by blast
      have acc2: "accounts d2 s (applied @ [r])" by (rule Commit_accounts [OF acc p c])
      let ?rd = "rd\<lparr>rd_decoder := d2, lastFingerprint := Fingerprint r, hasLastFingerprint := True\<rparr>"
      have rec: "take_records f ?rd (res\<lparr>dr_records := dr_records res + 1\<rparr>) h1 = (stop, rd', res', h')"
        using "1.prems"(1) nx Inr c f None by (subst (asm) take_records.simps) simp
      from "1.IH" [OF nx [symmetric] Inr f [symmetric] None c [symmetric] refl rec, of "applied @ [r]"] acc2
      obtain rs where "handled f rs h1 h'" "reader_inv rd' s (applied @ r # rs)"
        "dr_records res' = dr_records res + 1 + length rs" "dr_bytes res' = dr_bytes res"
        by (auto simp: reader_inv_def)
      with f None show ?thesis by (intro exI [of _ "r # rs"]) (auto intro: handled_accept)
    qed
  qed
qed

text \<open>A drain moves the decoder only: it keeps the report and its place among the rotations.\<close>

definition same_report :: "generation_reader \<Rightarrow> generation_reader \<Rightarrow> bool" where
  "same_report rd rd' \<longleftrightarrow> report rd' = report rd \<and> rotation rd' = rotation rd"

lemma same_report_refl [simp]: "same_report rd rd"
  by (simp add: same_report_def)

lemma take_records_report:
  "take_records f rd res h = (stop, rd', res', h') \<Longrightarrow> same_report rd rd'"
proof (induction f rd res h rule: take_records.induct)
  case (1 f rd res h)
  show ?case
  proof (cases "\<exists>r d1 h1 d2. Next (rd_decoder rd) = (Inr r, d1) \<and> f r h = (None, h1) \<and> Commit d1 r = (None, d2)")
    case True
    then obtain r d1 h1 d2 where n: "Next (rd_decoder rd) = (Inr r, d1)" and f: "f r h = (None, h1)"
      and c: "Commit d1 r = (None, d2)" by blast
    with "1.prems" have "take_records f
        (rd\<lparr>rd_decoder := d2, lastFingerprint := Fingerprint r, hasLastFingerprint := True\<rparr>)
        (res\<lparr>dr_records := dr_records res + 1\<rparr>) h1 = (stop, rd', res', h')"
      by (subst (asm) take_records.simps) simp
    from "1.IH" [OF n [symmetric] refl f [symmetric] refl c [symmetric] refl this]
    show ?thesis by (simp add: same_report_def)
  next
    case False
    with "1.prems" show ?thesis
      by (subst (asm) take_records.simps)
        (auto simp: same_report_def split: prod.splits sum.splits option.splits if_splits)
  qed
qed

section \<open>A drain reads a prefix of the file\<close>

text \<open>
  The kernel's reads of a file whose contents are, or will be, \<open>c\<close>: they may be short, but hold
  the file's bytes at the offset asked for.
\<close>

definition honest :: "bytes \<Rightarrow> file_view \<Rightarrow> bool" where
  "honest c view \<longleftrightarrow> (\<forall>n off. \<exists>k. fst (view_read view n off) = take k (drop off c))"

lemma chunk_prefix:
  "prefix s c \<Longrightarrow> prefix (s @ take n (drop (length s) c)) c"
  by (auto simp: prefix_def) (metis append_assoc append_take_drop_id)

lemma read_more_ok:
  assumes "read_more view rd = Appended rd' n"
  obtains bs k where "decoder_append (rd_decoder rd) (ReadOffset (rd_decoder rd)) bs = (None, rd_decoder rd')"
    "n = length bs" "bs \<noteq> []" "report rd' = report rd"
    "bs = take k (fst (view_read view k (ReadOffset (rd_decoder rd))))"
proof -
  let ?off = "ReadOffset (rd_decoder rd)"
  obtain sz where sz: "currentSize view rd = Inr sz"
    using assms by (auto simp: read_more_def split: sum.splits)
  obtain bs err where rd: "report_ReadAt (view_read view) (report rd)
      (min (sz - ?off) generationReadBufferBytes) ?off = (bs, err)" by force
  obtain e d where ap: "decoder_append (rd_decoder rd) ?off bs = (e, d)" by force
  from assms sz rd ap have "bs \<noteq> []" "e = None" "rd' = rd\<lparr>rd_decoder := d\<rparr>" "n = length bs"
    by (auto simp: read_more_def Let_def split: if_splits option.splits)
  moreover from this rd have "bs = take (min (sz - ?off) generationReadBufferBytes)
      (fst (view_read view (min (sz - ?off) generationReadBufferBytes) ?off))"
    by (auto simp: report_ReadAt_def split: option.splits if_splits prod.splits)
  ultimately show ?thesis using ap by (intro that [of bs]) auto
qed

lemma read_more_report:
  "read_more view rd = Appended rd' n \<Longrightarrow> same_report rd rd'"
  "read_more view rd = ReadFailed e rd' \<Longrightarrow> same_report rd rd' \<and> rd_decoder rd' = rd_decoder rd"
  by (auto simp: read_more_def Let_def same_report_def
      split: sum.splits if_splits prod.splits option.splits dest: decoder.append_refused)

text \<open>The cases of one turn of the drain loop.\<close>

lemma drain_loop_cases:
  assumes "drain_loop f views rd res h = Some (e, rd', res', h')"
    and "take_records f rd res h = (stop, rd1, res1, h1)"
  obtains (stop) "rd' = rd1" "res' = res1" "h' = h1"
    | (failed) view rest err where "views = view # rest" "read_more view rd1 = ReadFailed err rd'"
        "res' = res1" "h' = h1"
    | (more) view rest rd2 n where "views = view # rest" "read_more view rd1 = Appended rd2 n"
        "drain_loop f rest rd2 (res1\<lparr>dr_bytes := dr_bytes res1 + n\<rparr>) h1 = Some (e, rd', res', h')"
  using assms
  by (subst (asm) drain_loop.simps) (auto split: record_stop.splits read_step.splits list.splits)

lemma drain_loop_report:
  "drain_loop f views rd res h = Some (e, rd', res', h') \<Longrightarrow> same_report rd rd'"
proof (induction views arbitrary: rd res h)
  case Nil
  obtain stop rd1 res1 h1 where t: "take_records f rd res h = (stop, rd1, res1, h1)" by (metis surj_pair)
  from Nil t show ?case
    by (cases rule: drain_loop_cases) (use take_records_report [OF t] in simp_all)
next
  case (Cons view views)
  obtain stop rd1 res1 h1 where t: "take_records f rd res h = (stop, rd1, res1, h1)" by (metis surj_pair)
  from Cons.prems t show ?case
  proof (cases rule: drain_loop_cases)
    case (failed v rest err)
    with take_records_report [OF t] read_more_report(2) [OF failed(2)] show ?thesis
      by (simp add: same_report_def)
  next
    case (more v rest rd2 n)
    with take_records_report [OF t] read_more_report(1) [OF more(2)] Cons.IH show ?thesis
      by (fastforce simp: same_report_def)
  qed (use take_records_report [OF t] in simp)
qed

lemma drain_loop_inv:
  assumes "drain_loop f views rd res h = Some (e, rd', res', h')" and "reader_inv rd s applied"
  shows "\<exists>bs rs. handled f rs h h' \<and> reader_inv rd' (s @ bs) (applied @ rs)
    \<and> (prefix s c \<and> (\<forall>v \<in> set views. honest c v) \<longrightarrow> prefix (s @ bs) c)
    \<and> dr_records res' = dr_records res + length rs \<and> dr_bytes res' = dr_bytes res + length bs"
  using assms
proof (induction views arbitrary: rd res h applied s)
  case Nil
  obtain stop rd1 res1 h1 where t: "take_records f rd res h = (stop, rd1, res1, h1)" by (metis surj_pair)
  from Nil.prems(1) t have "rd' = rd1" "res' = res1" "h' = h1" by (cases rule: drain_loop_cases; simp)+
  with take_records_inv [OF t Nil.prems(2)] show ?case
    by (intro exI [where x = "[]" and P = "\<lambda>bs. \<exists>rs. Q bs rs" for Q]) auto
next
  case (Cons view views)
  obtain stop rd1 res1 h1 where t: "take_records f rd res h = (stop, rd1, res1, h1)" by (metis surj_pair)
  from take_records_inv [OF t Cons.prems(2)] obtain rs1 where i: "handled f rs1 h h1"
    "reader_inv rd1 s (applied @ rs1)" "dr_records res1 = dr_records res + length rs1"
    "dr_bytes res1 = dr_bytes res" by blast
  from Cons.prems(1) t show ?case
  proof (cases rule: drain_loop_cases)
    case stop
    with i show ?thesis
      by (intro exI [where x = "[]" and P = "\<lambda>bs. \<exists>rs. Q bs rs" for Q]) auto
  next
    case (failed v rest err)
    with i read_more_report(2) [OF failed(2)] show ?thesis
      by (intro exI [where x = "[]" and P = "\<lambda>bs. \<exists>rs. Q bs rs" for Q]) (auto simp: reader_inv_def)
  next
    case (more v rest rd2 n)
    obtain bs k where bs: "decoder_append (rd_decoder rd1) (ReadOffset (rd_decoder rd1)) bs = (None, rd_decoder rd2)"
      "n = length bs" "bs = take k (fst (view_read v k (ReadOffset (rd_decoder rd1))))"
      using read_more_ok [OF more(2)] by metis
    have off: "ReadOffset (rd_decoder rd1) = length s"
      using i decoder.tracks_offset by (auto simp: reader_inv_def accounts_def)
    have honest: "prefix s c \<Longrightarrow> honest c v \<Longrightarrow> prefix (s @ bs) c"
    proof -
      assume "prefix s c" "honest c v"
      then obtain j where "fst (view_read v k (length s)) = take j (drop (length s) c)"
        unfolding honest_def by blast
      then have "bs = take k (take j (drop (length s) c))" by (simp add: bs(3) off)
      with chunk_prefix [OF \<open>prefix s c\<close>, of "min k j"] show "prefix (s @ bs) c" by simp
    qed
    have "reader_inv rd2 (s @ bs) (applied @ rs1)"
      using append_accounts [OF _ bs(1)] i by (simp add: reader_inv_def)
    moreover have "drain_loop f views rd2 (res1\<lparr>dr_bytes := dr_bytes res1 + n\<rparr>) h1 = Some (e, rd', res', h')"
      using more(1,3) by simp
    ultimately obtain bs' rs where "handled f rs h1 h'"
      "reader_inv rd' ((s @ bs) @ bs') ((applied @ rs1) @ rs)"
      "prefix (s @ bs) c \<and> (\<forall>v \<in> set views. honest c v) \<longrightarrow> prefix ((s @ bs) @ bs') c"
      "dr_records res' = dr_records res1 + length rs" "dr_bytes res' = dr_bytes res1 + n + length bs'"
      using Cons.IH by fastforce
    then show ?thesis
      using bs(2) i honest more(1)
      by (intro exI [of _ "bs @ bs'"] exI [of _ "rs1 @ rs"]) (auto intro: handled_append)
  qed
qed

section \<open>A drain decodes the file\<close>

text \<open>The kernel's view of a regular file with these contents.\<close>

definition file_at :: "bytes \<Rightarrow> file_view" where
  "file_at c = \<lparr>view_size = Inr (length c), view_read = (\<lambda>len off. (take len (drop off c), None))\<rparr>"

text \<open>The handler that accepts every record.\<close>

definition collect :: "source_record list record_apply" where
  "collect r rs = (None, rs @ [r])"

lemma Next_errors:
  assumes "Next d = (Inl e, d')"
  shows "e = Sentinel ErrClosed \<or> e = Sentinel ErrNeedMore
    \<or> (\<not> errors_is ErrClosed e \<and> \<not> errors_is ErrNeedMore e)"
proof -
  have inv: "\<not> errors_is ErrClosed (invalid_framing m) \<and> \<not> errors_is ErrNeedMore (invalid_framing m)" for m
    by (simp add: invalid_framing_def)
  have dec: "decodeObject d i = Inl e \<Longrightarrow> e = Sentinel ErrNeedMore
      \<or> (\<not> errors_is ErrClosed e \<and> \<not> errors_is ErrNeedMore e)" for d i e
    by (auto simp: decodeObject_def Let_def inv split: read_result.splits if_splits)
  have rec: "nextRecord d = (Inl e, d') \<Longrightarrow> e = Sentinel ErrClosed \<or> e = Sentinel ErrNeedMore
      \<or> (\<not> errors_is ErrClosed e \<and> \<not> errors_is ErrNeedMore e)" for d e d'
    using dec inv by (auto simp: nextRecord_def Let_def split: if_splits sum.splits)
  have bracket: "consumeOpeningBracket d = (Some e, d') \<Longrightarrow> e = Sentinel ErrNeedMore
      \<or> (\<not> errors_is ErrClosed e \<and> \<not> errors_is ErrNeedMore e)" for d e d'
    using inv by (auto simp: consumeOpeningBracket_def Let_def split: if_splits)
  show ?thesis
    using assms rec bracket
    by (auto simp: Next_def split: option.splits if_splits prod.splits)
qed

lemma take_records_pump:
  assumes "take_records collect rd res h = (stop, rd', res', h')" "\<forall>e. stop \<noteq> Stopped e"
  shows "\<exists>rs e. pump (rd_decoder rd) = (rs, e, rd_decoder rd') \<and> h' = h @ rs \<and> report rd' = report rd
    \<and> (stop = StreamClosed \<and> e = Sentinel ErrClosed \<or> stop = NeedMore \<and> e = Sentinel ErrNeedMore)"
  using assms
proof (induction "collect" rd res h rule: take_records.induct)
  case (1 rd res h)
  obtain nx d1 where nx: "Next (rd_decoder rd) = (nx, d1)" by force
  show ?case
  proof (cases nx)
    case (Inl e)
    then have "Next (rd_decoder rd) = (Inl e, d1)" using nx by simp
    from Next_errors [OF this] "1.prems" nx Inl show ?thesis
      by (subst (asm) take_records.simps) (auto simp: pump_err split: if_splits)
  next
    case (Inr r)
    have c: "collect r h = (None, h @ [r])" by (simp add: collect_def)
    obtain co d2 where co: "Commit d1 r = (co, d2)" by force
    show ?thesis
    proof (cases co)
      case (Some e)
      with "1.prems" nx Inr co show ?thesis
        by (subst (asm) take_records.simps) (auto simp: c)
    next
      case None
      then have co': "Commit d1 r = (None, d2)" using co by simp
      let ?rd = "rd\<lparr>rd_decoder := d2, lastFingerprint := Fingerprint r, hasLastFingerprint := True\<rparr>"
      have "take_records collect ?rd (res\<lparr>dr_records := dr_records res + 1\<rparr>) (h @ [r]) = (stop, rd', res', h')"
        using "1.prems"(1) nx Inr co' by (subst (asm) take_records.simps) (simp add: c)
      from "1.hyps" [OF nx [symmetric] Inr c [symmetric] refl co' [symmetric] refl this "1.prems"(2)]
      obtain rs e where "pump d2 = (rs, e, rd_decoder rd')" "h' = (h @ [r]) @ rs" "report rd' = report rd"
        "stop = StreamClosed \<and> e = Sentinel ErrClosed \<or> stop = NeedMore \<and> e = Sentinel ErrNeedMore"
        by auto
      moreover have "pump (rd_decoder rd) = (case pump d2 of (rs, e, d3) \<Rightarrow> (r # rs, e, d3))"
        using nx Inr co' by (intro pump_record) simp_all
      ultimately show ?thesis by auto
    qed
  qed
qed

text \<open>The loop started again where it halted has nothing to do.\<close>

lemma pump_halted:
  assumes "quiescent d" "pump d = (rs, e, d')" "halts_ok e"
  shows "quiescent d' \<and> pump d' = ([], e, d')"
proof -
  have q: "quiescent d'"
    using pump_quiescent [OF _ _ assms(2,3)] assms(1) by (simp add: quiescent_def)
  show ?thesis
  proof (cases "closed d")
    case True
    with assms have "Next d = (Inl (Sentinel ErrClosed), d)" by (simp add: Next_def quiescent_def)
    with assms(2) q show ?thesis by (simp add: pump_err)
  next
    case False
    have "with_more d [] = d" by (simp add: with_more_def)
    with pump_with_more [of d "[]"] False assms
    have tf: "then_feed (rs, e, d') [] = Some (rs, e, d')" by (simp add: quiescent_def)
    then have fc: "feed_chunk d' [] = ([], e, d')"
      using assms(3) by (auto simp: then_feed_def outcome_def split: option.splits if_splits)
    show ?thesis
    proof (cases "closed d'")
      case True
      then have "Next d' = (Inl (Sentinel ErrClosed), d')" using q by (simp add: Next_def quiescent_def)
      moreover have "e = Sentinel ErrClosed"
        using fc True q by (simp add: quiescent_def feed_closed isWhitespace_Nil)
      ultimately show ?thesis using q by (simp add: pump_err)
    next
      case False
      then show ?thesis using fc q feed_open [of d' "[]"] by (simp add: quiescent_def with_more_def)
    qed
  qed
qed

text \<open>
  How far a reader is: its decoder, run to a halt, would complete the records of the bytes \<open>s\<close>
  that were read.
\<close>

definition on_course :: "decoder \<Rightarrow> bytes \<Rightarrow> decoder \<Rightarrow> source_record list \<Rightarrow> bool" where
  "on_course d0 s d rs \<longleftrightarrow> quiescent d0 \<and> quiescent d \<and> decoder_tracks d s
     \<and> outcome (feed_chunk d0 s) = map_option (\<lambda>(rs', e, d'). (rs @ rs', e, d')) (outcome (pump d))"

lemma on_course_halted:
  assumes "on_course d0 s d rs" "pump d = (rs', e, d')" "halts_ok e"
  shows "feed_chunk d0 s = (rs @ rs', e, d') \<and> on_course d0 s d' (rs @ rs')"
proof -
  have "feed_chunk d0 s = (rs @ rs', e, d')"
    using assms by (auto simp: on_course_def outcome_def split: if_splits)
  moreover have "decoder_tracks d' s"
  proof -
    have "decoder_tracks d s \<Longrightarrow> pump d = (rs', e, d') \<Longrightarrow> decoder_tracks d' s"
    proof (induction d arbitrary: rs' rule: pump.induct)
      case (1 d)
      obtain nx d1 where nx: "Next d = (nx, d1)" by force
      then have t1: "decoder_tracks d1 s" using Next_tracks "1.prems"(1) by blast
      show ?case
      proof (cases nx)
        case (Inl x)
        with nx "1.prems" t1 show ?thesis by (simp add: pump_err)
      next
        case (Inr r)
        have "pending d1 = Some r" using Next_record(3) [OF "1.prems"(1)] nx Inr by simp
        then obtain d2 where c: "Commit d1 r = (None, d2)" "decoder_tracks d2 s"
          using Commit_tracks [OF t1] by blast
        obtain rs2 d3 where p: "pump d2 = (rs2, e, d3)" "d3 = d'"
          using "1.prems"(2) pump_record [of d r d1 d2] nx Inr c by (auto split: prod.splits)
        from "1.IH" [OF nx [symmetric] Inr c(1) [symmetric] refl c(2)] p show ?thesis by simp
      qed
    qed
    then show ?thesis using assms by (simp add: on_course_def)
  qed
  ultimately show ?thesis
    using pump_halted [OF _ assms(2,3)] assms(1,3) by (simp add: on_course_def)
qed

lemma on_course_append:
  assumes "on_course d0 s d rs" "pump d = ([], Sentinel ErrNeedMore, d)"
    and "decoder_append d (ReadOffset d) bs = (None, d')"
  shows "on_course d0 (s @ bs) d' rs"
proof -
  have q: "quiescent d" "quiescent d0" using assms(1) by (simp_all add: on_course_def)
  have op: "\<not> closed d"
  proof
    assume "closed d"
    with q have "Next d = (Inl (Sentinel ErrClosed), d)" by (simp add: Next_def quiescent_def)
    with assms(2) show False by (simp add: pump_err)
  qed
  have d': "d' = with_more d bs" using assms(3) op decoder_append_ok [OF assms(3)] by simp
  have f: "feed_chunk d0 s = (rs, Sentinel ErrNeedMore, d)"
    using on_course_halted [OF assms(1,2)] by simp
  have "outcome (feed_chunk d0 (s @ bs)) = then_feed (rs, Sentinel ErrNeedMore, d) bs"
    using feed_chunk_append [OF q(2)] f by metis
  also have "\<dots> = map_option (\<lambda>(rs', e, d'). (rs @ rs', e, d')) (outcome (pump d'))"
    using op q by (simp add: then_feed_def feed_open quiescent_def d' map_option_case split: option.splits)
  finally have "outcome (feed_chunk d0 (s @ bs))
      = map_option (\<lambda>(rs', e, d'). (rs @ rs', e, d')) (outcome (pump d'))" .
  moreover have "decoder_tracks d' (s @ bs)"
    using decoder.append_tracks [OF _ assms(3)] assms(1) by (simp add: on_course_def)
  moreover have "quiescent d'" using q op by (simp add: d' quiescent_def with_more_def)
  ultimately show ?thesis using q by (simp add: on_course_def)
qed

section \<open>Draining a growing file\<close>

definition report_open :: "generation_reader \<Rightarrow> bool" where
  "report_open rd \<longleftrightarrow> Option.bind (report rd) rf_file \<noteq> None"

lemma read_file_at:
  assumes "report_open rd" "decoder_tracks (rd_decoder rd) s" "prefix s c"
  shows "read_more (file_at c) rd =
    (if s = c then CaughtUp
     else (let bs = take (min (length c - length s) generationReadBufferBytes) (drop (length s) c)
           in case decoder_append (rd_decoder rd) (ReadOffset (rd_decoder rd)) bs of
                (Some e, d) \<Rightarrow> ReadFailed e (rd\<lparr>rd_decoder := d\<rparr>)
              | (None, d) \<Rightarrow> Appended (rd\<lparr>rd_decoder := d\<rparr>) (length bs)))"
proof -
  have off: "ReadOffset (rd_decoder rd) = length s" using decoder.tracks_offset assms(2) by blast
  obtain t where c: "c = s @ t" using assms(3) by (auto simp: prefix_def)
  have sz: "currentSize (file_at c) rd = Inr (length c)"
    using assms(1) by (auto simp: report_open_def currentSize_def file_at_def split: option.splits)
  obtain rf where rf: "report rd = Some rf" "rf_file rf \<noteq> None"
    using assms(1) by (auto simp: report_open_def bind_eq_Some_conv)
  have ra: "report_ReadAt (view_read (file_at c)) (report rd) n (length s) = (take n t, None)" for n
    using rf by (simp add: report_ReadAt_def file_at_def c)
  show ?thesis
    by (simp add: read_more_def sz [unfolded c] off Let_def ra [unfolded c] c generationReadBufferBytes_def)
qed

lemma drain_loop_course:
  assumes "drain_loop collect (map file_at cs) rd res h = Some (None, rd', res', h')"
    and "report_open rd" "on_course d0 s (rd_decoder rd) h" "prefix s c"
    and "\<forall>v \<in> set cs. prefix v c" "\<forall>v \<in> set cs. prefix s v"
    and "sorted_wrt prefix cs"
  shows "\<exists>s' e. prefix s' c \<and> prefix s s' \<and> on_course d0 s' (rd_decoder rd') h' \<and> report_open rd'
    \<and> feed_chunk d0 s' = (h', e, rd_decoder rd') \<and> pump (rd_decoder rd') = ([], e, rd_decoder rd')
    \<and> (e = Sentinel ErrClosed \<or> e = Sentinel ErrNeedMore \<and> s' \<in> set cs)"
  using assms
proof (induction cs arbitrary: rd res h s)
  case Nil
  obtain stop rd1 res1 h1 where t: "take_records collect rd res h = (stop, rd1, res1, h1)"
    by (metis surj_pair)
  from Nil.prems(1) t have eq: "rd' = rd1" "h' = h1" "stop = StreamClosed"
    by (subst (asm) drain_loop.simps, auto split: record_stop.splits)+
  then have "\<forall>e. stop \<noteq> Stopped e" by simp
  from take_records_pump [OF t this] eq obtain rs where p:
    "pump (rd_decoder rd) = (rs, Sentinel ErrClosed, rd_decoder rd')" "h' = h @ rs" "report rd' = report rd"
    by auto
  moreover have "pump (rd_decoder rd') = ([], Sentinel ErrClosed, rd_decoder rd')"
    using pump_halted [OF _ p(1)] Nil.prems(3) by (simp add: on_course_def)
  ultimately show ?case
    using on_course_halted [OF Nil.prems(3) p(1)] p Nil.prems
    by (intro exI [of _ s]) (auto simp: report_open_def)
next
  case (Cons v cs)
  obtain stop rd1 res1 h1 where t: "take_records collect rd res h = (stop, rd1, res1, h1)"
    by (metis surj_pair)
  have ns: "\<forall>e. stop \<noteq> Stopped e"
    using Cons.prems(1) t by (subst (asm) drain_loop.simps) auto
  from take_records_pump [OF t this] obtain rs e where p:
    "pump (rd_decoder rd) = (rs, e, rd_decoder rd1)" "h1 = h @ rs" "report rd1 = report rd"
    "stop = StreamClosed \<and> e = Sentinel ErrClosed \<or> stop = NeedMore \<and> e = Sentinel ErrNeedMore" by auto
  have halt: "halts_ok e" using p(4) by auto
  note oc = on_course_halted [OF Cons.prems(3) p(1) halt]
  have ro: "report_open rd1" using Cons.prems(2) p(3) by (simp add: report_open_def)
  have hp: "pump (rd_decoder rd1) = ([], e, rd_decoder rd1)"
    using pump_halted [OF _ p(1) halt] Cons.prems(3) by (simp add: on_course_def)
  show ?case
  proof (cases "stop = StreamClosed")
    case True
    with Cons.prems(1) t have "rd' = rd1" "h' = h1" by (subst (asm) drain_loop.simps, simp)+
    with oc p ro hp True Cons.prems show ?thesis by (intro exI [of _ s]) auto
  next
    case False
    then have nm: "stop = NeedMore" "e = Sentinel ErrNeedMore" using p(4) by auto
    have tr: "decoder_tracks (rd_decoder rd1) s" using oc by (simp add: on_course_def)
    have sv: "prefix s v" using Cons.prems(6) by simp
    show ?thesis
    proof (cases "s = v")
      case True
      with Cons.prems(1) t nm read_file_at [OF ro tr sv] have "rd' = rd1" "h' = h1"
        by (subst (asm) drain_loop.simps, simp)+
      with oc p ro hp nm True Cons.prems show ?thesis by (intro exI [of _ s]) auto
    next
      case ne: False
      define bs where "bs = take (min (length v - length s) generationReadBufferBytes) (drop (length s) v)"
      obtain ae d2 where ap: "decoder_append (rd_decoder rd1) (ReadOffset (rd_decoder rd1)) bs = (ae, d2)"
        by force
      have ok: "ae = None"
        using Cons.prems(1) t nm read_file_at [OF ro tr sv] ne ap
        by (subst (asm) drain_loop.simps) (auto simp: bs_def [symmetric] split: option.splits)
      let ?rd = "rd1\<lparr>rd_decoder := d2\<rparr>"
      have run: "drain_loop collect (map file_at cs) ?rd (res1\<lparr>dr_bytes := dr_bytes res1 + length bs\<rparr>) h1
          = Some (None, rd', res', h')"
        using Cons.prems(1) t nm read_file_at [OF ro tr sv] ne ap ok
        by (subst (asm) drain_loop.simps) (simp add: bs_def [symmetric])
      have oc2: "on_course d0 (s @ bs) d2 h1"
        using on_course_append [OF _ hp [unfolded nm], of d0 s h1 bs d2] oc p(2) ap ok by simp
      have pv: "prefix (s @ bs) v" unfolding bs_def by (rule chunk_prefix [OF sv])
      have "prefix v c" using Cons.prems(5) by simp
      then have pc: "prefix (s @ bs) c" using pv by (rule prefix_order.trans [rotated])
      have pcs: "\<forall>w \<in> set cs. prefix (s @ bs) w"
        using Cons.prems(7) pv prefix_order.trans by fastforce
      from Cons.IH [OF run _ _ pc _ pcs] ro oc2 Cons.prems(5,7) obtain s' e' where
        "prefix s' c" "prefix (s @ bs) s'" "on_course d0 s' (rd_decoder rd') h'" "report_open rd'"
        "feed_chunk d0 s' = (h', e', rd_decoder rd')"
        "pump (rd_decoder rd') = ([], e', rd_decoder rd')"
        "e' = Sentinel ErrClosed \<or> e' = Sentinel ErrNeedMore \<and> s' \<in> set cs"
        by (auto simp: report_open_def)
      then show ?thesis by (intro exI [of _ s'] exI [of _ e']) (auto dest: append_prefixD)
    qed
  qed
qed

text \<open>Drains one after the other, whether they succeed or fail, with their handler.\<close>

fun drain_many ::
    "'h record_apply \<Rightarrow> file_view list list \<Rightarrow> generation_reader \<Rightarrow> 'h \<Rightarrow> (generation_reader \<times> 'h) option" where
  "drain_many f [] rd h = Some (rd, h)"
| "drain_many f (views # vss) rd h =
     (case drain (Some f) views (Some rd) h of
        Some (_, Some rd', _, h') \<Rightarrow> drain_many f vss rd' h'
      | _ \<Rightarrow> None)"

lemma drain_inv:
  assumes "drain (Some f) views (Some rd) h = Some (e, rdo, res, h')"
  shows "\<exists>rd'. rdo = Some rd' \<and> same_report rd rd'
    \<and> (\<forall>s applied. reader_inv rd s applied \<longrightarrow>
        (\<exists>bs rs. handled f rs h h' \<and> reader_inv rd' (s @ bs) (applied @ rs)
           \<and> (prefix s c \<and> (\<forall>v \<in> set views. honest c v) \<longrightarrow> prefix (s @ bs) c)
           \<and> dr_records res = length rs \<and> dr_bytes res = length bs))"
proof (cases "report rd = None")
  case True
  with assms show ?thesis
    by (auto simp: drain_def zero_drain_def intro!: exI [where x = "[]" and P = "\<lambda>bs. \<exists>rs. Q bs rs" for Q])
next
  case False
  with assms obtain rd' where d: "drain_loop f views rd zero_drain h = Some (e, rd', res, h')" "rdo = Some rd'"
    by (auto simp: drain_def)
  have "\<exists>bs rs. handled f rs h h' \<and> reader_inv rd' (s @ bs) (applied @ rs)
           \<and> (prefix s c \<and> (\<forall>v \<in> set views. honest c v) \<longrightarrow> prefix (s @ bs) c)
           \<and> dr_records res = length rs \<and> dr_bytes res = length bs"
    if "reader_inv rd s applied" for s applied
    using drain_loop_inv [OF d(1) that, of c] by (simp add: zero_drain_def)
  with d drain_loop_report [OF d(1)] show ?thesis by blast
qed

lemma drain_many_inv:
  assumes "drain_many f vss rd h = Some (rd', h')"
    and "reader_inv rd s applied" "prefix s c" "\<forall>vs \<in> set vss. \<forall>v \<in> set vs. honest c v"
  shows "\<exists>s' rs. handled f rs h h' \<and> reader_inv rd' s' (applied @ rs) \<and> prefix s' c"
  using assms
proof (induction vss arbitrary: rd h applied s)
  case Nil
  then show ?case by (intro exI [of _ s] exI [of _ "[]"]) simp
next
  case (Cons views vss)
  obtain e rdo res h1 where d: "drain (Some f) views (Some rd) h = Some (e, rdo, res, h1)"
    using Cons.prems(1) by (auto split: option.splits)
  from drain_inv [OF d, of c] Cons.prems(2-4) obtain rd1 bs rs where
    one: "rdo = Some rd1" "handled f rs h h1" "reader_inv rd1 (s @ bs) (applied @ rs)" "prefix (s @ bs) c"
    by fastforce
  with Cons.prems(1) d have "drain_many f vss rd1 h1 = Some (rd', h')" by simp
  from Cons.IH [OF this one(3,4)] Cons.prems(4) obtain s' rs' where
    "handled f rs' h1 h'" "reader_inv rd' s' ((applied @ rs) @ rs')" "prefix s' c" by auto
  with one(2) show ?case by (intro exI [of _ s'] exI [of _ "rs @ rs'"]) (auto intro: handled_append)
qed

text \<open>Several drains of one reader; each is given the contents of the file at its reads.\<close>

fun drain_all :: "bytes list list \<Rightarrow> generation_reader \<Rightarrow> source_record list
    \<Rightarrow> (generation_reader \<times> source_record list) option" where
  "drain_all [] rd h = Some (rd, h)"
| "drain_all (cs # css) rd h =
     (case drain (Some collect) (map file_at cs) (Some rd) h of
        Some (None, Some rd', res, h') \<Rightarrow> drain_all css rd' h'
      | _ \<Rightarrow> None)"

lemma drain_open:
  "report_open rd \<Longrightarrow> drain (Some f) views (Some rd) h =
     map_option (\<lambda>(e, r', res, h'). (e, Some r', res, h')) (drain_loop f views rd zero_drain h)"
  by (auto simp: drain_def report_open_def)

text \<open>A reader whose array has closed applies nothing more and reads nothing more.\<close>

lemma pump_closed_Next:
  assumes "pump d = ([], Sentinel ErrClosed, d)"
  shows "Next d = (Inl (Sentinel ErrClosed), d)"
proof (cases "Next d")
  case (Pair nx d1)
  show ?thesis
  proof (cases nx)
    case (Inl e)
    with Pair assms show ?thesis by (simp add: pump_err)
  next
    case (Inr r)
    obtain co d2 where co: "Commit d1 r = (co, d2)" by force
    show ?thesis
    proof (cases co)
      case None
      with assms Pair Inr co show ?thesis by (auto simp: pump_record split: prod.splits)
    next
      case (Some e)
      have "e = Sentinel ErrInvalidCommit"
        using co Some by (auto simp: Commit_def Let_def split: option.splits if_splits)
      with assms Pair Inr co Some show ?thesis by (simp add: pump.simps [of d])
    qed
  qed
qed

lemma drain_all_closed:
  assumes "report_open rd" "pump (rd_decoder rd) = ([], Sentinel ErrClosed, rd_decoder rd)"
  shows "drain_all css rd h = Some (rd, h)"
proof (induction css)
  case (Cons cs css)
  have "take_records collect rd zero_drain h = (StreamClosed, rd, zero_drain\<lparr>dr_closed := True\<rparr>, h)"
    using pump_closed_Next [OF assms(2)] by (subst take_records.simps) simp
  then have "drain_loop collect (map file_at cs) rd zero_drain h
      = Some (None, rd, zero_drain\<lparr>dr_closed := True\<rparr>, h)"
    by (subst drain_loop.simps) simp
  with Cons show ?case by (simp add: drain_open [OF assms(1)])
qed simp

lemma drain_all_course:
  assumes "drain_all css rd h = Some (rd', h')" "css \<noteq> []"
    and "report_open rd" "on_course d0 s (rd_decoder rd) h" "prefix s c"
    and "\<forall>v \<in> set (concat css). prefix v c \<and> prefix s v" "sorted_wrt prefix (concat css)"
    and "\<forall>cs \<in> set css. cs \<noteq> []"
  shows "\<exists>s' e. prefix s' c \<and> feed_chunk d0 s' = (h', e, rd_decoder rd')
    \<and> (e = Sentinel ErrClosed \<or> e = Sentinel ErrNeedMore \<and> s' \<in> set (last css))"
  using assms
proof (induction css arbitrary: rd h s)
  case (Cons cs css)
  obtain res rd1 h1 where d: "drain_loop collect (map file_at cs) rd zero_drain h = Some (None, rd1, res, h1)"
    "drain_all css rd1 h1 = Some (rd', h')"
    using Cons.prems(1) by (auto simp: drain_open [OF Cons.prems(3)] split: option.splits)
  obtain s1 e where s1: "prefix s1 c" "prefix s s1" "on_course d0 s1 (rd_decoder rd1) h1" "report_open rd1"
    "feed_chunk d0 s1 = (h1, e, rd_decoder rd1)"
    "pump (rd_decoder rd1) = ([], e, rd_decoder rd1)"
    "e = Sentinel ErrClosed \<or> e = Sentinel ErrNeedMore \<and> s1 \<in> set cs"
    using drain_loop_course [OF d(1) Cons.prems(3,4,5)] Cons.prems(6,7)
    by (auto simp: sorted_wrt_append)
  show ?case
  proof (cases "css = []")
    case True
    with d(2) s1 show ?thesis by (intro exI [of _ s1] exI [of _ e]) auto
  next
    case False
    show ?thesis
    proof (cases "e = Sentinel ErrClosed")
      case closed: True
      have "drain_all css rd1 h1 = Some (rd1, h1)"
        using drain_all_closed [OF s1(4)] s1(6) closed by simp
      with d(2) s1 closed show ?thesis by (intro exI [of _ s1]) auto
    next
      case more: False
      then have "s1 \<in> set cs" using s1(7) by simp
      then have "\<forall>v \<in> set (concat css). prefix v c \<and> prefix s1 v"
        using Cons.prems(6,7) by (auto simp: sorted_wrt_append)
      from Cons.IH [OF d(2) False s1(4,3,1) this] Cons.prems(7,8) False show ?thesis
        by (auto simp: sorted_wrt_append)
    qed
  qed
qed simp

section \<open>A drain returns\<close>

text \<open>Whatever the handler does, the decoder keeps tracking the bytes that were read.\<close>

lemma take_records_tracks:
  assumes "take_records f rd res h = (stop, rd', res', h')" "decoder_tracks (rd_decoder rd) s"
  shows "decoder_tracks (rd_decoder rd') s \<and> report rd' = report rd"
  using assms
proof (induction f rd res h rule: take_records.induct)
  case (1 f rd res h)
  obtain nx d1 where nx: "Next (rd_decoder rd) = (nx, d1)" by force
  then have t1: "decoder_tracks d1 s" using Next_tracks "1.prems"(2) by blast
  show ?case
  proof (cases nx)
    case (Inl e)
    with "1.prems"(1) nx t1 show ?thesis
      by (subst (asm) take_records.simps) (auto split: if_splits)
  next
    case (Inr r)
    have p: "pending d1 = Some r" using Next_record(3) [OF "1.prems"(2)] nx Inr by simp
    obtain d2 where c: "Commit d1 r = (None, d2)" "decoder_tracks d2 s"
      using Commit_tracks [OF t1 p] by blast
    obtain fe h1 where f: "f r h = (fe, h1)" by force
    show ?thesis
    proof (cases fe)
      case (Some e)
      with "1.prems"(1) nx Inr f t1 show ?thesis by (subst (asm) take_records.simps) auto
    next
      case None
      let ?rd = "rd\<lparr>rd_decoder := d2, lastFingerprint := Fingerprint r, hasLastFingerprint := True\<rparr>"
      have "take_records f ?rd (res\<lparr>dr_records := dr_records res + 1\<rparr>) h1 = (stop, rd', res', h')"
        using "1.prems"(1) nx Inr f None c by (subst (asm) take_records.simps) simp
      from "1.IH" [OF nx [symmetric] Inr f [symmetric] None c(1) [symmetric] refl this] c(2)
      show ?thesis by simp
    qed
  qed
qed

text \<open>Each view that does not end the loop hands over at least one byte of the file.\<close>

lemma drain_loop_returns:
  assumes "report_open rd" "decoder_tracks (rd_decoder rd) s" "prefix s c"
    and "length c - length s < n"
  shows "drain_loop f (replicate n (file_at c)) rd res h \<noteq> None"
  using assms
proof (induction n arbitrary: rd res h s)
  case (Suc n)
  obtain stop rd1 res1 h1 where t: "take_records f rd res h = (stop, rd1, res1, h1)"
    by (metis surj_pair)
  have tr: "decoder_tracks (rd_decoder rd1) s" and rp: "report rd1 = report rd"
    using take_records_tracks [OF t Suc.prems(2)] by simp_all
  have ro: "report_open rd1" using Suc.prems(1) rp by (simp add: report_open_def)
  note more = read_file_at [OF ro tr Suc.prems(3)]
  show ?case
  proof (cases "stop = NeedMore \<and> s \<noteq> c")
    case False
    with t more show ?thesis by (subst drain_loop.simps) (auto split: record_stop.splits)
  next
    case True
    define bs where "bs = take (min (length c - length s) generationReadBufferBytes) (drop (length s) c)"
    have len: "0 < length bs"
      using True Suc.prems(3) by (auto simp: bs_def prefix_def generationReadBufferBytes_def)
    obtain ae d2 where ap: "decoder_append (rd_decoder rd1) (ReadOffset (rd_decoder rd1)) bs = (ae, d2)"
      by force
    show ?thesis
    proof (cases ae)
      case (Some e)
      with True t more ap show ?thesis
        by (subst drain_loop.simps) (simp add: bs_def [symmetric])
    next
      case None
      have "decoder_tracks d2 (s @ bs)" using decoder.append_tracks [OF tr] ap None by simp
      moreover have pc: "prefix (s @ bs) c" unfolding bs_def by (rule chunk_prefix [OF Suc.prems(3)])
      moreover have "length c - length (s @ bs) < n"
        using len Suc.prems(4) prefix_length_le [OF pc] unfolding length_append by linarith
      ultimately have "drain_loop f (replicate n (file_at c)) (rd1\<lparr>rd_decoder := d2\<rparr>)
          (res1\<lparr>dr_bytes := dr_bytes res1 + length bs\<rparr>) h1 \<noteq> None"
        using ro by (intro Suc.IH [of _ "s @ bs"]) (simp_all add: report_open_def)
      with True t more ap None show ?thesis
        by (subst drain_loop.simps) (simp add: bs_def [symmetric])
    qed
  qed
qed simp

section \<open>A file that shrank\<close>

lemma read_more_truncated:
  assumes "report_open rd" "decoder_tracks (rd_decoder rd) s" "length c < length s"
  shows "read_more (file_at c) rd = ReadFailed (generation_truncated (length c) (length s)) rd"
proof -
  have off: "ReadOffset (rd_decoder rd) = length s" using decoder.tracks_offset assms(2) by blast
  have "currentSize (file_at c) rd = Inr (length c)"
    using assms(1) by (auto simp: report_open_def currentSize_def file_at_def split: option.splits)
  with off assms(3) show ?thesis by (simp add: read_more_def Let_def)
qed

text \<open>What a reader's invariant says of the report: the accepted records tile it.\<close>

lemma reader_inv_report:
  assumes "reader_inv rd s applied" "prefix s c"
  shows "if opened (rd_decoder rd)
    then report_prefix (take (CommittedOffset (rd_decoder rd)) c) applied (Closed (rd_decoder rd))
    else CommittedOffset (rd_decoder rd) = 0 \<and> applied = []"
proof -
  from assms(1) have a: "accounts (rd_decoder rd) s applied" by (simp add: reader_inv_def)
  then have "decoder_tracks (rd_decoder rd) s" by (simp add: accounts_def)
  then have "CommittedOffset (rd_decoder rd) \<le> length s"
    by (auto simp: decoder_tracks_def CommittedOffset_def)
  then have "take (CommittedOffset (rd_decoder rd)) s = take (CommittedOffset (rd_decoder rd)) c"
    using assms(2) by (auto simp: prefix_def)
  with a show ?thesis by (auto simp: accounts_def CommittedOffset_def Closed_def)
qed

end
