(* ===== verification/Reader_Properties.thy ===== *)
theory Reader_Properties
  imports Reader Identity_Properties
begin

text \<open>
  The properties of the report directory, the scan and the generation reader: what may be opened,
  that no descriptor is lost, and that drains hand exactly the records of the file to the handler.
\<close>

text \<open>The equations that run a drain on a closed input.\<close>

lemmas reader_run =
  drain_def drain_loop.simps take_records.simps read_more_def currentSize_def file_at_def
  report_ReadAt_def zero_drain_def generationReadBufferBytes_def newGenerationReader_def
  generation_truncated_def

definition sample_generation :: discovered_generation where
  "sample_generation = \<lparr>Rotation = 0, Report = Some
     \<lparr>rf_file = Some 7, Generation = \<lparr>Device = 1, Inode = 2\<rparr>, Size = 0, ModificationTime = (0, 0)\<rparr>\<rparr>"

lemma sample_reader:
  obtains rd where "newGenerationReader sample_generation 64 = Inr rd" "report_open rd"
proof -
  obtain d where d: "NewDecoder 64 = Inr d" by (simp add: NewDecoder_def)
  show ?thesis
  proof (rule that)
    show "newGenerationReader sample_generation 64 = Inr
      \<lparr>report = Report sample_generation, rd_decoder = d, rotation = 0,
        lastFingerprint = zero_fingerprint, hasLastFingerprint = False\<rparr>"
      by (simp add: d newGenerationReader_def sample_generation_def)
  qed (simp add: sample_generation_def report_open_def)
qed

text \<open>
  C20. However a report grows and however its drains are scheduled, the records the handler was
  given are exactly the records of the report decoded in one piece: of everything the last drain
  saw, or up to the closing bracket.
\<close>

theorem drains_deliver_the_report:
  assumes "newGenerationReader g m = Inr rd" and "report_open rd"
    and "drain_all css rd [] = Some (rd', applied)"
    and "css \<noteq> []" and "\<forall>cs \<in> set css. cs \<noteq> []"
    and "sorted_wrt prefix (concat css)" and "\<forall>v \<in> set (concat css). prefix v c"
  shows "\<exists>s e. prefix s c \<and> feed_chunk (rd_decoder rd) s = (applied, e, rd_decoder rd')
    \<and> (e = Sentinel ErrClosed \<or> e = Sentinel ErrNeedMore \<and> s \<in> set (last css))"
proof -
  obtain d where d: "NewDecoder m = Inr d" "rd_decoder rd = d"
    using assms(1) by (auto simp: newGenerationReader_def split: if_splits sum.splits)
  have op: "\<not> closed d" using d(1) by (auto simp: NewDecoder_def split: if_splits)
  have q: "quiescent d" using NewDecoder_quiescent [OF d(1)] .
  have "on_course d [] d []"
    using q NewDecoder_tracks [OF d(1)] feed_open [of d "[]"] op d(2)
    by (auto simp: on_course_def quiescent_def with_more_def outcome_def
        split: prod.splits)
  with drain_all_course [OF assms(3,4,2), of d "[]" c] assms(5-7) d show ?thesis by simp
qed

theorem drains_deliver_the_report_witness:
  "\<exists>rd rd' applied s e. newGenerationReader sample_generation 64 = Inr rd
     \<and> drain_all [[''[{},'', ''[{},''], [''[{},{}]'']] rd [] = Some (rd', applied)
     \<and> map Raw applied = [''{}'', ''{}'']
     \<and> prefix s ''[{},{}]'' \<and> feed_chunk (rd_decoder rd) s = (applied, e, rd_decoder rd')"
proof -
  let ?css = "[[''[{},'', ''[{},''], [''[{},{}]'']]"
  obtain rd where rd: "newGenerationReader sample_generation 64 = Inr rd" "report_open rd"
    by (rule sample_reader)
  have "\<exists>rd' applied. drain_all ?css rd [] = Some (rd', applied) \<and> map Raw applied = [''{}'', ''{}'']"
    using rd(1) by (auto simp: sample_generation_def collect_def reader_run decoder_run json_run
        split: if_splits)
  then obtain rd' applied where d: "drain_all ?css rd [] = Some (rd', applied)"
    "map Raw applied = [''{}'', ''{}'']" by (elim exE conjE) (rule that)
  from drains_deliver_the_report [OF rd d(1), of "''[{},{}]''"] rd(1) d show ?thesis by auto
qed

text \<open>A handler that fails on its first call only.\<close>

definition refuse_first :: "bool record_apply" where
  "refuse_first r fails = (if fails then (Some (Text ''no''), False) else (None, False))"

text \<open>
  C21. Whatever the kernel returns of a report with contents \<open>c\<close> (short reads, errors) and
  whenever the handler fails, the records it accepted over any number of drains are the first
  records of \<open>c\<close>, in order, each once: they tile the report up to the committed offset.
\<close>

theorem failed_drains_lose_nothing:
  assumes "newGenerationReader g m = Inr rd"
    and "drain_many (logged f) vss rd (h, []) = Some (rd', h', applied)"
    and "\<forall>vs \<in> set vss. \<forall>v \<in> set vs. honest c v"
  shows "if opened (rd_decoder rd')
    then report_prefix (take (CommittedOffset (rd_decoder rd')) c) applied (Closed (rd_decoder rd'))
    else CommittedOffset (rd_decoder rd') = 0 \<and> applied = []"
proof -
  obtain s rs where "handled (logged f) rs (h, []) (h', applied)" "reader_inv rd' s rs" "prefix s c"
    using drain_many_inv [OF assms(2) NewReader_inv [OF assms(1)] _ assms(3)] by auto
  then have "reader_inv rd' s applied" "prefix s c" using handled_logged by fastforce+
  then show ?thesis by (rule reader_inv_report)
qed

theorem failed_drains_lose_nothing_witness:
  "\<exists>rd rd' h applied. newGenerationReader sample_generation 64 = Inr rd
     \<and> drain_many (logged refuse_first) [[file_at ''[{},''], [file_at ''[{},'']] rd (True, [])
         = Some (rd', h, applied)
     \<and> report_prefix (take (CommittedOffset (rd_decoder rd')) ''[{},'') applied False \<and> length applied = 1"
proof -
  let ?vss = "[[file_at ''[{},''], [file_at ''[{},'']]"
  obtain rd where rd: "newGenerationReader sample_generation 64 = Inr rd" by (rule sample_reader)
  have "\<exists>rd' applied. drain_many (logged refuse_first) ?vss rd (True, []) = Some (rd', False, applied)
      \<and> opened (rd_decoder rd') \<and> \<not> closed (rd_decoder rd') \<and> length applied = 1"
    using rd by (auto simp: sample_generation_def logged_def refuse_first_def reader_run decoder_run json_run
        split: if_splits)
  then obtain rd' applied where d: "drain_many (logged refuse_first) ?vss rd (True, []) = Some (rd', False, applied)"
    "opened (rd_decoder rd')" "\<not> closed (rd_decoder rd')" "length applied = 1" by blast
  have "\<forall>vs \<in> set ?vss. \<forall>v \<in> set vs. honest ''[{},'' v" by (auto simp: honest_def file_at_def)
  from failed_drains_lose_nothing [OF rd d(1) this] rd d show ?thesis by (auto simp: Closed_def)
qed

text \<open>
  C22. A drain of a report that stands still returns, whatever its handler does: one view more
  than there are unread bytes is enough.
\<close>

theorem drain_returns:
  assumes "report_open rd" and "decoder_tracks (rd_decoder rd) s" and "prefix s c"
    and "length c - length s < n"
  shows "\<exists>e rd' res h'. drain (Some f) (replicate n (file_at c)) (Some rd) h = Some (e, Some rd', res, h')"
  using drain_loop_returns [OF assms, of f zero_drain h] by (auto simp: drain_open [OF assms(1)])

theorem drain_returns_witness:
  "\<exists>rd e rd' res h'. newGenerationReader sample_generation 64 = Inr rd
     \<and> drain (Some collect) (replicate 6 (file_at ''[{},'')) (Some rd) [] = Some (e, Some rd', res, h')"
proof -
  obtain rd where rd: "newGenerationReader sample_generation 64 = Inr rd" "report_open rd"
    by (rule sample_reader)
  obtain d where "NewDecoder 64 = Inr d" by (simp add: NewDecoder_def)
  with rd(1) have "decoder_tracks (rd_decoder rd) []"
    using NewDecoder_tracks by (auto simp: newGenerationReader_def sample_generation_def)
  from drain_returns [OF rd(2) this, of "''[{},''" 6 collect "[]"] rd(1) show ?thesis by auto
qed

text \<open>
  C23. A scan returns only reports it can trust: each was opened under one of the process's ten names
  relative to the directory's descriptor, without following a link, as a regular file of the
  directory's owner without group or other access (unless insecure sources are allowed), was
  modified strictly after the process was created, and is identified by its device and inode.
\<close>

theorem scanned_reports_are_trusted:
  assumes "ScanReports os (Some dir) i = (Inr ds, evs)"
  shows "list_all (trusted_generation os dir i) ds"
proof -
  obtain expected names evs' where
    "scan_entries (scan_reports os) dir i (alist_map expected) 0 names [] Map.empty = (Inr ds, evs')"
    using assms by (auto simp: ScanReports_def split: if_splits sum.splits prod.splits)
  from scan_entries_trusted [OF this] show ?thesis by simp
qed

definition sample_directory :: report_directory where
  "sample_directory = \<lparr>dir_fd = Some 3, ownerUID = 5, allowInsecure = False\<rparr>"

text \<open>A directory holding the current report, a rotated one, and a hard link to it.\<close>

definition sample_scan :: scan_answers where
  "sample_scan = \<lparr>scan_dup = Inr 4,
     scan_listing = Inr [''monitor_9.json'', ''notes.txt'', ''monitor_9_1.json'', ''monitor_9_2.json''],
     scan_reports = (\<lambda>k. (\<lambda>dirfd name flags. Inr (10 + k),
       Inr \<lparr>st_mode = 0x8180, st_uid = 5, st_dev = 1, st_ino = (if k = 0 then 20 else 21), st_size = 0,
            st_mtime = (101, 0)\<rparr>))\<rparr>"

lemma sample_scan_result:
  "ScanReports sample_scan (Some sample_directory) sample_identity =
     (Inr [\<lparr>Rotation = 0, Report = Some \<lparr>rf_file = Some 10, Generation = \<lparr>Device = 1, Inode = 20\<rparr>,
              Size = 0, ModificationTime = (101, 0)\<rparr>\<rparr>,
           \<lparr>Rotation = 2, Report = Some \<lparr>rf_file = Some 12, Generation = \<lparr>Device = 1, Inode = 21\<rparr>,
              Size = 0, ModificationTime = (101, 0)\<rparr>\<rparr>],
      [FdOpen 4, FdClose 4, FdOpen 10, FdOpen 12, FdOpen 13, FdClose 13])"
  by code_simp

theorem scanned_reports_are_trusted_witness:
  "\<exists>ds evs. ScanReports sample_scan (Some sample_directory) sample_identity = (Inr ds, evs)
     \<and> length ds = 2 \<and> list_all (trusted_generation sample_scan sample_directory sample_identity) ds"
  using scanned_reports_are_trusted [OF sample_scan_result] sample_scan_result by simp

text \<open>
  C24. A scan loses no descriptor and finds each generation once: what it leaves open is exactly
  what the reports it returns own, nothing when it fails, and hard links or a rename during the
  scan never yield one device and inode twice.
\<close>

theorem scan_owns_its_descriptors:
  assumes "ScanReports os dir i = (res, evs)"
  shows "live evs = (case res of Inl e \<Rightarrow> {#} | Inr ds \<Rightarrow> owned ds)
    \<and> (case res of Inl e \<Rightarrow> True
        | Inr ds \<Rightarrow> distinct (map (\<lambda>d. Generation (the (Report d))) ds))"
  using ScanReports_ok [OF assms] fd_flow_live by (cases res) (fastforce simp: seen_ok_def)+

theorem scan_owns_its_descriptors_witness:
  "\<exists>ds evs. ScanReports sample_scan (Some sample_directory) sample_identity = (Inr ds, evs)
     \<and> live evs = {#10, 12#}"
  using scan_owns_its_descriptors [OF sample_scan_result] sample_scan_result
  by (simp add: report_fds_def add_mset_commute)

text \<open>
  A scan recognises exactly the ten report names of the monitored process: an entry is taken
  as rotation \<open>r\<close> if and only if it is the name of rotation \<open>r\<close>, so names of other processes and
  other rotations are never confused.
\<close>

theorem expected_names_are_exact:
  assumes "expectedReportNames pid = Inr expected"
  shows "alist_map expected name = Some r \<longleftrightarrow> reportName pid r = Inr name"
  using expectedReportNames_iff [OF assms] .

theorem expected_names_are_exact_witness:
  "\<exists>expected. expectedReportNames 9 = Inr expected \<and> alist_map expected ''monitor_9_3.json'' = Some 3
     \<and> alist_map expected ''monitor_93.json'' \<noteq> Some 3"
proof -
  have "\<exists>expected. expectedReportNames 9 = Inr expected"
    by (simp add: expectedReportNames_def reportName_def)
  then obtain expected where e: "expectedReportNames 9 = Inr expected" by blast
  have "reportName 9 3 = Inr ''monitor_9_3.json''" by code_simp
  with expected_names_are_exact [OF e] e show ?thesis by auto
qed

text \<open>
  C25. Opening the report directory keeps exactly the validated descriptor, and none when it
  fails; the walk to it asks the kernel only for plain names without a slash, each relative to the
  descriptor before, so what the kernel would answer to a dot, a double dot or a whole path is
  irrelevant.
\<close>

theorem directory_walk_is_safe:
  assumes "OpenReportDirectory os path allow = (res, evs)"
    and "\<And>k fd w. plain_component w \<Longrightarrow> CHR ''/'' \<notin> set w \<Longrightarrow> ans_openat os' k fd w = ans_openat os k fd w"
    and "ans_root os' = ans_root os" and "ans_euid os' = ans_euid os" and "ans_fstat os' = ans_fstat os"
  shows "OpenReportDirectory os' path allow = (res, evs)
    \<and> live evs = (case res of Inl e \<Rightarrow> {#} | Inr dir \<Rightarrow> {#the (dir_fd dir)#})
    \<and> (case res of Inl e \<Rightarrow> True
        | Inr dir \<Rightarrow> \<exists>stat. ans_fstat os = Inr stat \<and> st_mode stat AND S_IFMT = S_IFDIR
            \<and> (allow \<or> st_uid stat = ans_euid os \<and> st_mode stat AND group_other_mask = 0))"
proof -
  have "open_components (ans_openat os') k fd (split_slash (TrimPrefixSlash (CleanAbs path)))
      = open_components (ans_openat os) k fd (split_slash (TrimPrefixSlash (CleanAbs path)))" for k fd
    by (rule open_components_agree) (use assms(2) clean_components in blast)
  then have walk: "openDirectoryNoFollow (ans_root os') (ans_openat os') (CleanAbs path)
      = openDirectoryNoFollow (ans_root os) (ans_openat os) (CleanAbs path)"
    using assms(3) by (simp add: openDirectoryNoFollow_def split: sum.split)
  have "OpenReportDirectory os' path allow = (res, evs)"
    unfolding OpenReportDirectory_def walk assms(4,5) by (fact assms(1) [unfolded OpenReportDirectory_def])
  moreover have "case res of Inl e \<Rightarrow> True
        | Inr dir \<Rightarrow> \<exists>stat. ans_fstat os = Inr stat \<and> st_mode stat AND S_IFMT = S_IFDIR
            \<and> (allow \<or> st_uid stat = ans_euid os \<and> st_mode stat AND group_other_mask = 0)"
    using assms(1)
    by (auto simp: OpenReportDirectory_def validateDirectoryStat_def
        split: if_splits prod.splits sum.splits option.splits)
  ultimately show ?thesis using fd_flow_live [OF OpenReportDirectory_fds [OF assms(1)]] by blast
qed

definition sample_walk :: "bool \<Rightarrow> directory_answers" where
  "sample_walk dots = \<lparr>ans_root = Inr 1,
     ans_openat = (\<lambda>k fd w. if w = ''..'' then (if dots then Inr 99 else Inl (Text ''no'')) else Inr (fd + 1)),
     ans_euid = 5,
     ans_fstat = Inr \<lparr>st_mode = 0x41C0, st_uid = 5, st_dev = 1, st_ino = 2, st_size = 0, st_mtime = (0, 0)\<rparr>\<rparr>"

theorem directory_walk_is_safe_witness:
  "\<exists>dir evs. OpenReportDirectory (sample_walk True) ''/var/x/../run'' False = (Inr dir, evs)
     \<and> live evs = {#3#}"
proof -
  let ?evs = "[FdOpen 1, FdOpen 2, FdClose 1, FdOpen 3, FdClose 2]"
  let ?dir = "\<lparr>dir_fd = Some 3, ownerUID = 5, allowInsecure = False\<rparr>"
  have r: "OpenReportDirectory (sample_walk False) ''/var/x/../run'' False = (Inr ?dir, ?evs)"
    by code_simp
  have "ans_openat (sample_walk True) k fd w = ans_openat (sample_walk False) k fd w"
    if "plain_component w" for k fd w using that by (simp add: sample_walk_def plain_component_def)
  from directory_walk_is_safe [OF r, of "sample_walk True"] this show ?thesis
    by (simp add: sample_walk_def)
qed

end
