(* ===== verification/Registry.thy ===== *)
theory Registry
  imports Reader "HOL-Library.Product_Lexorder"
begin

text \<open>
  \<open>internal/source/order_linux.go\<close> and \<open>registry_linux.go\<close>: the order in which generations are
  read and the registry that owns their readers for the whole session.  A Go map is a map; a loop
  that ranges over it takes the visiting order as an argument.  The registry's readers are
  \<open>None\<close> once it is closed (the nil map).
\<close>

section \<open>The order of generations\<close>

text \<open>The comparison of \<open>OrderGenerationsOldestFirst\<close>, field by field as it is written.\<close>

definition older_generation :: "discovered_generation \<Rightarrow> discovered_generation \<Rightarrow> bool" where
  "older_generation left right =
     (if Rotation left \<noteq> Rotation right then Rotation right < Rotation left
      else (let leftReport = the (Report left); rightReport = the (Report right)
            in if ModificationTime leftReport \<noteq> ModificationTime rightReport
               then Before (ModificationTime leftReport) (ModificationTime rightReport)
               else if Device (Generation leftReport) \<noteq> Device (Generation rightReport)
               then Device (Generation leftReport) < Device (Generation rightReport)
               else Inode (Generation leftReport) < Inode (Generation rightReport)))"

text \<open>\<open>sort.Slice\<close> of a short slice is an insertion sort.\<close>

fun insert_by :: "('a \<Rightarrow> 'a \<Rightarrow> bool) \<Rightarrow> 'a \<Rightarrow> 'a list \<Rightarrow> 'a list" where
  "insert_by lt x [] = [x]"
| "insert_by lt x (y # ys) = (if lt x y then x # y # ys else y # insert_by lt x ys)"

definition sort_slice :: "('a \<Rightarrow> 'a \<Rightarrow> bool) \<Rightarrow> 'a list \<Rightarrow> 'a list" where
  "sort_slice lt xs = foldl (\<lambda>sorted x. insert_by lt x sorted) [] xs"

definition OrderGenerationsOldestFirst :: "discovered_generation list \<Rightarrow> discovered_generation list" where
  "OrderGenerationsOldestFirst generations = sort_slice older_generation generations"

text \<open>
  The same order as a linear order on keys: a higher rotation is older, then an earlier
  modification, then the smaller device and inode.
\<close>

datatype age_key = AgeKey (age_rotation: int) (age_time: go_time) (age_device: u64) (age_inode: u64)

instantiation age_key :: linorder
begin

definition less_eq_age_key :: "age_key \<Rightarrow> age_key \<Rightarrow> bool" where
  "less_eq_age_key a b \<longleftrightarrow>
     (- age_rotation a, age_time a, age_device a, age_inode a)
       \<le> (- age_rotation b, age_time b, age_device b, age_inode b)"

definition less_age_key :: "age_key \<Rightarrow> age_key \<Rightarrow> bool" where
  "less_age_key a b \<longleftrightarrow>
     (- age_rotation a, age_time a, age_device a, age_inode a)
       < (- age_rotation b, age_time b, age_device b, age_inode b)"

instance
proof
  fix a b c :: age_key
  show "a < b \<longleftrightarrow> a \<le> b \<and> \<not> b \<le> a"
    by (simp only: less_eq_age_key_def less_age_key_def less_le_not_le)
  show "a \<le> a" by (simp add: less_eq_age_key_def)
  show "a \<le> b \<Longrightarrow> b \<le> c \<Longrightarrow> a \<le> c"
    unfolding less_eq_age_key_def by (rule order_trans)
  show "a \<le> b \<Longrightarrow> b \<le> a \<Longrightarrow> a = b"
    by (cases a; cases b) (auto simp: less_eq_age_key_def)
  show "a \<le> b \<or> b \<le> a" unfolding less_eq_age_key_def by (rule linear)
qed

end

definition age_of :: "discovered_generation \<Rightarrow> age_key" where
  "age_of d = (let r = the (Report d)
     in AgeKey (Rotation d) (ModificationTime r) (Device (Generation r)) (Inode (Generation r)))"

text \<open>
  What \<open>sort.Slice\<close> needs of its comparison, a strict order given by a key, and what it then
  returns, whichever algorithm it uses.
\<close>

locale keyed_less =
  fixes lt :: "'a \<Rightarrow> 'a \<Rightarrow> bool" and key :: "'a \<Rightarrow> 'k :: linorder"
  assumes lt_key: "lt a b \<longleftrightarrow> key a < key b"
begin

lemma mset_insert_by: "mset (insert_by lt x ys) = add_mset x (mset ys)"
  by (induction ys) auto

lemma set_insert_by: "set (insert_by lt x ys) = insert x (set ys)"
  using mset_insert_by by (metis set_mset_add_mset_insert set_mset_mset)

lemma sorted_insert_by:
  "sorted (map key ys) \<Longrightarrow> sorted (map key (insert_by lt x ys))"
  by (induction ys) (auto simp: lt_key set_insert_by)

lemma sort_slice_snoc: "sort_slice lt (xs @ [x]) = insert_by lt x (sort_slice lt xs)"
  by (simp add: sort_slice_def)

lemma mset_sort_slice: "mset (sort_slice lt xs) = mset xs"
proof (induction xs rule: rev_induct)
  case (snoc x xs)
  then show ?case by (simp add: sort_slice_snoc mset_insert_by)
qed (simp add: sort_slice_def)

lemma sorted_sort_slice: "sorted (map key (sort_slice lt xs))"
proof (induction xs rule: rev_induct)
  case (snoc x xs)
  then show ?case by (simp add: sort_slice_snoc sorted_insert_by)
qed (simp add: sort_slice_def)

lemma set_sort_slice: "set (sort_slice lt xs) = set xs"
  using mset_sort_slice by (metis set_mset_mset)

text \<open>When the keys differ, any sorted arrangement is the same list.\<close>

lemma sort_slice_unique:
  assumes "distinct (map key xs)" "mset ys = mset xs" "sorted_wrt lt ys"
  shows "ys = sort_slice lt xs"
proof -
  have inj: "inj_on key (set xs)" and d: "distinct xs" using assms(1) by (simp_all add: distinct_map)
  have s: "sorted (map key ys)"
    using assms(3) unfolding sorted_map by (rule sorted_wrt_mono_rel [rotated]) (simp add: lt_key)
  have "sort (map key xs) = map key ys"
    using s by (intro properties_for_sort) (simp_all add: assms(2))
  moreover have "sort (map key xs) = map key (sort_slice lt xs)"
    by (rule properties_for_sort) (simp_all add: sorted_sort_slice mset_sort_slice)
  ultimately have "map key ys = map key (sort_slice lt xs)" by simp
  moreover have "set ys = set xs" using arg_cong [OF assms(2), of set_mset] by simp
  ultimately show ?thesis using inj set_sort_slice by (metis map_inj_on sup.idem)
qed

lemma strictly_sorted:
  assumes "distinct (map key xs)"
  shows "sorted_wrt lt (sort_slice lt xs)"
proof -
  have "distinct (map key (sort_slice lt xs))"
    using assms mset_sort_slice [of xs] by (metis mset_eq_imp_distinct_iff mset_map)
  then have "sorted_wrt (<) (map key (sort_slice lt xs))"
    using sorted_sort_slice by (simp add: strict_sorted_iff)
  then show ?thesis
    unfolding sorted_wrt_map by (rule sorted_wrt_mono_rel [rotated]) (simp add: lt_key)
qed

lemma sort_slice_perm:
  assumes "distinct (map key xs)" "mset ys = mset xs"
  shows "sort_slice lt ys = sort_slice lt xs"
proof (rule sort_slice_unique [OF assms(1)])
  show "mset (sort_slice lt ys) = mset xs" using assms(2) by (simp add: mset_sort_slice)
  have "distinct (map key ys)" using assms by (metis mset_eq_imp_distinct_iff mset_map)
  then show "sorted_wrt lt (sort_slice lt ys)" by (rule strictly_sorted)
qed

end

lemma older_generation_iff: "older_generation l r \<longleftrightarrow> age_of l < age_of r"
proof -
  obtain ls ln rs rn where t: "ModificationTime (the (Report l)) = (ls, ln)"
    "ModificationTime (the (Report r)) = (rs, rn)" by fastforce
  show ?thesis
    unfolding older_generation_def age_of_def less_age_key_def Let_def Before_def t age_key.sel
      less_prod_simp less_eq_prod_simp fst_conv snd_conv prod.inject
    by (cases rule: linorder_cases [of "Rotation l" "Rotation r"];
        cases rule: linorder_cases [of ls rs]; cases rule: linorder_cases [of ln rn];
        cases rule: linorder_cases [of "Device (Generation (the (Report l)))" "Device (Generation (the (Report r)))"])
      (auto dest: less_imp_neq less_not_sym)
qed

interpretation oldest: keyed_less older_generation age_of
  by unfold_locales (rule older_generation_iff)

lemma OrderGenerations_perm: "mset (OrderGenerationsOldestFirst ds) = mset ds"
  unfolding OrderGenerationsOldestFirst_def by (rule oldest.mset_sort_slice)

lemma set_OrderGenerations [simp]: "set (OrderGenerationsOldestFirst ds) = set ds"
  unfolding OrderGenerationsOldestFirst_def by (rule oldest.set_sort_slice)

section \<open>The registry\<close>

type_synonym readers = "generation_id \<rightharpoonup> generation_reader"

record generation_registry =
  reg_maxRecordBytes :: nat
  reg_readers :: "readers option"

definition newGenerationRegistry :: "nat \<Rightarrow> error + generation_registry" where
  "newGenerationRegistry max_bytes =
     (case NewDecoder max_bytes of
        Inl e \<Rightarrow> Inl e
      | Inr _ \<Rightarrow> Inr \<lparr>reg_maxRecordBytes = max_bytes, reg_readers = Some Map.empty\<rparr>)"

text \<open>
  The loop of \<open>register\<close>; it returns the error, the number of generations that were new, the
  readers and the descriptors it closed.
\<close>

fun register_loop ::
    "nat \<Rightarrow> discovered_generation list \<Rightarrow> readers \<Rightarrow> nat
      \<Rightarrow> error option \<times> nat \<times> readers \<times> fd_event list" where
  "register_loop max_bytes [] rs registered = (None, registered, rs, [])"
| "register_loop max_bytes (generation # rest) rs registered =
     (case Report generation of
        None \<Rightarrow> (Some (Text ''discovered generation is missing its descriptor''), registered, rs,
                 closeDiscovered rest)
      | Some rf \<Rightarrow>
          (case rs (Generation rf) of
             Some existing \<Rightarrow>
               (let existing' = (if rotation existing < Rotation generation
                                 then existing\<lparr>rotation := Rotation generation\<rparr> else existing)
                in case register_loop max_bytes rest (rs(Generation rf \<mapsto> existing')) registered of
                     (e, n, rs', evs) \<Rightarrow> (e, n, rs', close_events (Some rf) @ evs))
           | None \<Rightarrow>
               (case newGenerationReader generation max_bytes of
                  Inl e \<Rightarrow> (Some e, registered, rs, close_events (Some rf) @ closeDiscovered rest)
                | Inr reader \<Rightarrow>
                    register_loop max_bytes rest (rs(Generation rf \<mapsto> reader)) (registered + 1))))"

definition register ::
    "generation_registry \<Rightarrow> discovered_generation list
      \<Rightarrow> error option \<times> nat \<times> generation_registry \<times> fd_event list" where
  "register reg discovered =
     (case reg_readers reg of
        None \<Rightarrow> (Some (Text ''generation registry is closed''), 0, reg, closeDiscovered discovered)
      | Some rs \<Rightarrow>
          (case register_loop (reg_maxRecordBytes reg) discovered rs 0 of
             (e, n, rs', evs) \<Rightarrow> (e, n, reg\<lparr>reg_readers := Some rs'\<rparr>, evs)))"

text \<open>\<open>order\<close> is the order in which the runtime ranges over the map.\<close>

definition as_discovered :: "generation_reader \<Rightarrow> discovered_generation" where
  "as_discovered rd = \<lparr>Rotation = rotation rd, Report = report rd\<rparr>"

definition oldestFirst :: "generation_id list \<Rightarrow> generation_registry \<Rightarrow> generation_reader list" where
  "oldestFirst order reg =
     (case reg_readers reg of
        None \<Rightarrow> []
      | Some rs \<Rightarrow>
          map (\<lambda>d. the (rs (Generation (the (Report d)))))
            (OrderGenerationsOldestFirst (map (\<lambda>g. as_discovered (the (rs g))) order)))"

definition watermarks :: "generation_id list \<Rightarrow> generation_registry \<Rightarrow> generation_watermark list" where
  "watermarks order reg = map watermark (oldestFirst order reg)"

text \<open>Closing remembers the first error; \<open>answer\<close> is the kernel's answer to each close.\<close>

fun close_readers ::
    "(generation_id \<Rightarrow> error option) \<Rightarrow> generation_id list \<Rightarrow> readers \<Rightarrow> error option
      \<Rightarrow> error option \<times> fd_event list" where
  "close_readers answer [] rs firstError = (firstError, [])"
| "close_readers answer (g # gs) rs firstError =
     (case reader_close (answer g) (the (rs g)) of
        (e, _, evs) \<Rightarrow>
          (case close_readers answer gs rs (if firstError = None then e else firstError) of
             (e', evs') \<Rightarrow> (e', evs @ evs')))"

definition registry_close ::
    "(generation_id \<Rightarrow> error option) \<Rightarrow> generation_id list \<Rightarrow> generation_registry
      \<Rightarrow> error option \<times> generation_registry \<times> fd_event list" where
  "registry_close answer order reg =
     (case reg_readers reg of
        None \<Rightarrow> (None, reg, [])
      | Some rs \<Rightarrow>
          (case close_readers answer order rs None of
             (e, evs) \<Rightarrow> (e, reg\<lparr>reg_readers := None\<rparr>, evs)))"

section \<open>The registry's invariant\<close>

text \<open>Every reader is filed under its own generation, and there are finitely many.\<close>

definition registry_ok :: "generation_registry \<Rightarrow> bool" where
  "registry_ok reg \<longleftrightarrow>
     (case reg_readers reg of
        None \<Rightarrow> True
      | Some rs \<Rightarrow> finite (dom rs)
          \<and> (\<forall>g rd. rs g = Some rd \<longrightarrow> (\<exists>rf. report rd = Some rf \<and> Generation rf = g)))"

definition readers_owned :: "readers \<Rightarrow> nat multiset" where
  "readers_owned rs = (\<Sum>g \<in> dom rs. report_fds (report (the (rs g))))"

definition registry_owned :: "generation_registry \<Rightarrow> nat multiset" where
  "registry_owned reg = (case reg_readers reg of None \<Rightarrow> {#} | Some rs \<Rightarrow> readers_owned rs)"

lemma readers_owned_empty [simp]: "readers_owned Map.empty = {#}"
  by (simp add: readers_owned_def)

lemma readers_owned_new:
  assumes "finite (dom rs)" "rs g = None"
  shows "readers_owned (rs(g \<mapsto> rd)) = report_fds (report rd) + readers_owned rs"
proof -
  have "(\<Sum>h \<in> dom rs. report_fds (report (the ((rs(g \<mapsto> rd)) h))))
      = (\<Sum>h \<in> dom rs. report_fds (report (the (rs h))))"
    using assms(2) by (intro sum.cong) auto
  then show ?thesis using assms by (simp add: readers_owned_def domIff)
qed

lemma readers_owned_same:
  assumes "rs g = Some rd0" "report rd = report rd0"
  shows "readers_owned (rs(g \<mapsto> rd)) = readers_owned rs"
proof -
  have "dom (rs(g \<mapsto> rd)) = dom rs" using assms(1) by auto
  then show ?thesis
    unfolding readers_owned_def using assms by (intro sum.cong) auto
qed

lemma newGenerationReader_report:
  "newGenerationReader d m = Inr rd \<Longrightarrow> report rd = Report d \<and> rotation rd = Rotation d"
  by (auto simp: newGenerationReader_def split: if_splits sum.splits)

text \<open>
  Registering keeps every reader, with its decoder and descriptor; only its rotation may grow.
\<close>

definition keeps_readers :: "readers \<Rightarrow> readers \<Rightarrow> bool" where
  "keeps_readers rs rs' \<longleftrightarrow>
     (\<forall>g rd. rs g = Some rd \<longrightarrow> (\<exists>r. rs' g = Some (rd\<lparr>rotation := r\<rparr>) \<and> rotation rd \<le> r))"

lemma same_reader: "\<exists>r. rd = rd\<lparr>rotation := r\<rparr> \<and> rotation rd \<le> r" for rd :: generation_reader
  by (rule exI [of _ "rotation rd"]) simp

lemma keeps_readers_refl [simp]: "keeps_readers rs rs"
  by (simp add: keeps_readers_def same_reader)

lemma keeps_readers_trans [trans]: "keeps_readers rs rs' \<Longrightarrow> keeps_readers rs' rs'' \<Longrightarrow> keeps_readers rs rs''"
  unfolding keeps_readers_def by (fastforce intro: order_trans)

lemma keeps_readers_new: "rs g = None \<Longrightarrow> keeps_readers rs (rs(g \<mapsto> rd))"
  by (auto simp: keeps_readers_def same_reader)

lemma keeps_readers_rotate:
  "rs g = Some rd \<Longrightarrow> rotation rd \<le> r \<Longrightarrow> keeps_readers rs (rs(g \<mapsto> rd\<lparr>rotation := r\<rparr>))"
  by (auto simp: keeps_readers_def same_reader)

lemma register_loop_ok:
  assumes "register_loop m ds rs n = (e, n', rs', evs)"
    and "finite (dom rs)" "\<forall>g rd. rs g = Some rd \<longrightarrow> (\<exists>rf. report rd = Some rf \<and> Generation rf = g)"
  shows "fd_flow (owned ds + readers_owned rs) evs (readers_owned rs') \<and> keeps_readers rs rs'
    \<and> finite (dom rs') \<and> card (dom rs') + n = card (dom rs) + n'
    \<and> (\<forall>g rd. rs g = None \<and> rs' g = Some rd \<longrightarrow> reader_inv rd [] [])
    \<and> (\<forall>g rd. rs' g = Some rd \<longrightarrow> (\<exists>rf. report rd = Some rf \<and> Generation rf = g))"
  using assms
proof (induction ds arbitrary: rs n e n' rs' evs)
  case (Cons d ds)
  show ?case
  proof (cases "Report d")
    case None
    with Cons.prems show ?thesis
      using fd_flow_frame [OF fd_flow_closeDiscovered [of ds], of "readers_owned rs"]
      by (auto simp: report_fds_def)
  next
    case (Some rf)
    show ?thesis
    proof (cases "rs (Generation rf)")
      case found: (Some rd)
      define rd' where "rd' = (if rotation rd < Rotation d then rd\<lparr>rotation := Rotation d\<rparr> else rd)"
      obtain r where r: "rd' = rd\<lparr>rotation := r\<rparr>" "rotation rd \<le> r"
        by (cases "rotation rd < Rotation d") (auto simp: rd'_def intro: that [of "rotation rd"])
      let ?rs = "rs(Generation rf \<mapsto> rd')"
      obtain evs' where l: "register_loop m ds ?rs n = (e, n', rs', evs')"
        "evs = close_events (Some rf) @ evs'"
        using Cons.prems(1) Some found by (auto simp: Let_def rd'_def split: prod.splits if_splits)
      have own: "readers_owned ?rs = readers_owned rs"
        by (rule readers_owned_same [where rs = rs and ?rd0.0 = rd]) (simp_all add: r found)
      have dom: "dom ?rs = dom rs" using found by auto
      have "\<forall>g rd. ?rs g = Some rd \<longrightarrow> (\<exists>rf. report rd = Some rf \<and> Generation rf = g)"
        using Cons.prems(3) found r by auto
      note IH = Cons.IH [OF l(1) _ this, unfolded own dom, OF Cons.prems(2)]
      have "fd_flow (owned (d # ds) + readers_owned rs) (close_events (Some rf)) (owned ds + readers_owned rs)"
        using fd_flow_frame [OF fd_flow_close_report [of "Some rf"], of "owned ds + readers_owned rs"] Some
        by (simp add: add.assoc)
      then have "fd_flow (owned (d # ds) + readers_owned rs) evs (readers_owned rs')"
        unfolding l(2) using IH by (intro fd_flow_append) auto
      moreover have "keeps_readers rs ?rs" using keeps_readers_rotate [of rs, OF found r(2)] r(1) by simp
      moreover have "reader_inv rd0 [] []" if "rs g = None" "rs' g = Some rd0" for g rd0
        using that IH found by (metis fun_upd_other option.distinct(1))
      ultimately show ?thesis using IH keeps_readers_trans by blast
    next
      case new: None
      show ?thesis
      proof (cases "newGenerationReader d m")
        case (Inl err)
        with Cons.prems Some new have "evs = close_events (Some rf) @ closeDiscovered ds" "rs' = rs" "n' = n"
          by auto
        moreover have "fd_flow (owned (d # ds) + readers_owned rs) (close_events (Some rf) @ closeDiscovered ds)
            (readers_owned rs)"
          using fd_flow_frame [OF fd_flow_close_report [of "Some rf"], of "owned ds + readers_owned rs"]
            fd_flow_frame [OF fd_flow_closeDiscovered [of ds], of "readers_owned rs"] Some
          by (intro fd_flow_append) (simp_all add: add.assoc)
        ultimately show ?thesis using Cons.prems(2,3) by auto
      next
        case (Inr rd)
        let ?rs = "rs(Generation rf \<mapsto> rd)"
        have l: "register_loop m ds ?rs (n + 1) = (e, n', rs', evs)"
          using Cons.prems(1) Some new Inr by simp
        have rep: "report rd = Some rf" using newGenerationReader_report [OF Inr] Some by simp
        have own: "readers_owned ?rs = report_fds (Some rf) + readers_owned rs"
          using readers_owned_new [of rs, OF Cons.prems(2) new] rep by simp
        have card: "card (dom ?rs) = Suc (card (dom rs))" using Cons.prems(2) new by (simp add: domIff)
        have fin: "finite (dom ?rs)" using Cons.prems(2) by simp
        have "\<forall>g rd. ?rs g = Some rd \<longrightarrow> (\<exists>rf. report rd = Some rf \<and> Generation rf = g)"
          using Cons.prems(3) rep by auto
        note IH = Cons.IH [OF l fin this, unfolded own card]
        have own': "owned (d # ds) + readers_owned rs = owned ds + (report_fds (Some rf) + readers_owned rs)"
          using Some by (simp add: ac_simps)
        have "keeps_readers rs rs'"
          using IH keeps_readers_new [of rs, OF new] keeps_readers_trans by blast
        moreover have "reader_inv rd0 [] []" if "rs g = None" "rs' g = Some rd0" for g rd0
        proof (cases "g = Generation rf")
          case True
          have "keeps_readers ?rs rs'" using IH by blast
          then obtain r where "rs' g = Some (rd\<lparr>rotation := r\<rparr>)"
            using True unfolding keeps_readers_def by (metis fun_upd_same)
          with that NewReader_inv [OF Inr] show ?thesis by (auto simp: reader_inv_def)
        next
          case False
          with that IH show ?thesis by (metis fun_upd_other)
        qed
        ultimately show ?thesis unfolding own' using IH by simp blast
      qed
    qed
  qed
qed auto

lemma register_ok:
  assumes "register reg ds = (e, n, reg', evs)" "registry_ok reg"
  shows "registry_ok reg' \<and> fd_flow (owned ds + registry_owned reg) evs (registry_owned reg')
    \<and> (case reg_readers reg of
         None \<Rightarrow> e \<noteq> None \<and> reg' = reg
       | Some rs \<Rightarrow> (\<exists>rs'. reg_readers reg' = Some rs' \<and> keeps_readers rs rs'
           \<and> (\<forall>g rd. rs g = None \<and> rs' g = Some rd \<longrightarrow> reader_inv rd [] [])
           \<and> card (dom rs') = card (dom rs) + n))"
proof (cases "reg_readers reg")
  case None
  with assms show ?thesis by (auto simp: register_def registry_owned_def)
next
  case (Some rs)
  obtain rs' where l: "register_loop (reg_maxRecordBytes reg) ds rs 0 = (e, n, rs', evs)"
    "reg' = reg\<lparr>reg_readers := Some rs'\<rparr>"
    using assms(1) Some by (auto simp: register_def split: prod.splits)
  show ?thesis
    using register_loop_ok [OF l(1)] assms(2) Some l(2)
    by (simp add: registry_ok_def registry_owned_def)
qed

text \<open>With a positive bound a registry takes every report a scan can find.\<close>

lemma register_loop_accepts:
  "0 < m \<Longrightarrow> list_all (\<lambda>d. Report d \<noteq> None) ds \<Longrightarrow> fst (register_loop m ds rs n) = None"
proof (induction ds arbitrary: rs n)
  case (Cons d ds)
  have drop: "fst (case x of (e, n, rs', evs) \<Rightarrow> (e, n, rs', g evs)) = fst x" for x g
    by (simp split: prod.split)
  show ?case
    using Cons by (auto simp: newGenerationReader_def NewDecoder_def Let_def drop split: option.split)
qed simp

lemma register_accepts:
  assumes "register reg ds = (e, n, reg', evs)" "reg_readers reg \<noteq> None" "0 < reg_maxRecordBytes reg"
    "list_all (\<lambda>d. Report d \<noteq> None) ds"
  shows "e = None"
  using assms register_loop_accepts [OF assms(3,4)] by (auto simp: register_def split: prod.splits) (metis fst_conv)

lemma register_max: "register reg ds = (e, n, reg', evs) \<Longrightarrow> reg_maxRecordBytes reg' = reg_maxRecordBytes reg"
  by (auto simp: register_def split: option.splits prod.splits)

lemma newGenerationRegistry_ok:
  "newGenerationRegistry m = Inr reg \<Longrightarrow>
     registry_ok reg \<and> registry_owned reg = {#} \<and> reg_readers reg = Some Map.empty"
  by (auto simp: newGenerationRegistry_def registry_ok_def registry_owned_def split: sum.splits)

section \<open>Reading order\<close>

definition generation_of :: "generation_reader \<Rightarrow> generation_id" where
  "generation_of rd = Generation (the (report rd))"

lemma oldestFirst_spec:
  assumes "registry_ok reg" "reg_readers reg = Some rs" "enumerates order rs"
  shows "mset (map as_discovered (oldestFirst order reg))
      = mset (map (\<lambda>g. as_discovered (the (rs g))) order)
    \<and> sorted (map (age_of \<circ> as_discovered) (oldestFirst order reg))
    \<and> list_all (\<lambda>rd. rs (generation_of rd) = Some rd) (oldestFirst order reg)
    \<and> distinct (map generation_of (oldestFirst order reg))
    \<and> set (map generation_of (oldestFirst order reg)) = dom rs"
proof -
  let ?ds = "map (\<lambda>g. as_discovered (the (rs g))) order"
  let ?filed_at = "\<lambda>d. the (rs (Generation (the (Report d))))"
  let ?sorted = "OrderGenerationsOldestFirst ?ds"
  have filed: "Generation (the (report (the (rs g)))) = g \<and> rs g = Some (the (rs g))" if "g \<in> set order" for g
    using that assms by (fastforce simp: registry_ok_def enumerates_def)
  have inv: "\<forall>d \<in> set ?ds. as_discovered (?filed_at d) = d \<and> rs (Generation (the (Report d))) = Some (?filed_at d)"
    using filed by (auto simp: as_discovered_def)
  have gen: "map (\<lambda>d. Generation (the (Report d))) ?ds = order"
    using filed by (simp add: as_discovered_def map_idI)
  have o: "oldestFirst order reg = map ?filed_at ?sorted" using assms(2) by (simp add: oldestFirst_def)
  have disc: "map as_discovered (oldestFirst order reg) = ?sorted"
    unfolding o map_map using inv
    by (intro map_idI) (simp only: set_OrderGenerations comp_apply)
  have gens: "map generation_of (oldestFirst order reg) = map (\<lambda>d. Generation (the (Report d))) ?sorted"
    unfolding disc [symmetric] by (simp add: generation_of_def as_discovered_def)
  have m: "mset (map generation_of (oldestFirst order reg)) = mset order"
    unfolding gens using OrderGenerations_perm [of ?ds] gen by (metis mset_map)
  have g: "distinct (map generation_of (oldestFirst order reg))"
    "set (map generation_of (oldestFirst order reg)) = dom rs"
    using mset_eq_imp_distinct_iff [OF m] mset_eq_setD [OF m] assms(3) by (simp_all add: enumerates_def)
  have "sorted (map age_of ?sorted)"
    unfolding OrderGenerationsOldestFirst_def by (rule oldest.sorted_sort_slice)
  moreover have "list_all (\<lambda>rd. rs (generation_of rd) = Some rd) (oldestFirst order reg)"
    unfolding o using inv by (auto simp: list_all_iff generation_of_def as_discovered_def)
  ultimately show ?thesis using g disc OrderGenerations_perm [of ?ds] by (metis map_map)
qed

text \<open>The order in which the runtime ranges over the map does not show.\<close>

lemma distinct_ages:
  assumes "registry_ok reg" "reg_readers reg = Some rs" "enumerates order rs"
  shows "distinct (map age_of (map (\<lambda>g. as_discovered (the (rs g))) order))"
proof -
  have filed: "Generation (the (report (the (rs g)))) = g" if "g \<in> set order" for g
    using that assms by (fastforce simp: registry_ok_def enumerates_def)
  have "inj_on (\<lambda>g. age_of (as_discovered (the (rs g)))) (set order)"
  proof (rule inj_onI)
    fix g h assume gh: "g \<in> set order" "h \<in> set order"
      "age_of (as_discovered (the (rs g))) = age_of (as_discovered (the (rs h)))"
    then have "Device g = Device h \<and> Inode g = Inode h"
      using filed [of g] filed [of h] by (simp add: age_of_def as_discovered_def Let_def)
    then show "g = h" by simp
  qed
  with assms(3) show ?thesis by (simp add: enumerates_def distinct_map comp_def)
qed

lemma oldestFirst_order:
  assumes "registry_ok reg" "\<And>rs. reg_readers reg = Some rs \<Longrightarrow> enumerates order rs \<and> enumerates order' rs"
  shows "oldestFirst order reg = oldestFirst order' reg"
proof (cases "reg_readers reg")
  case (Some rs)
  let ?ds = "\<lambda>order. map (\<lambda>g. as_discovered (the (rs g))) order"
  have "mset order' = mset order"
    using assms(2) [OF Some] by (simp add: enumerates_def set_eq_iff_mset_eq_distinct [symmetric])
  then have "OrderGenerationsOldestFirst (?ds order') = OrderGenerationsOldestFirst (?ds order)"
    unfolding OrderGenerationsOldestFirst_def
    using distinct_ages [OF assms(1) Some] assms(2) [OF Some] by (intro oldest.sort_slice_perm) simp_all
  with Some show ?thesis by (simp add: oldestFirst_def)
qed (simp add: oldestFirst_def)

section \<open>Closing\<close>

lemma report_Close_events: "snd (snd (report_Close a r)) = close_events r"
  by (auto simp: close_events_def report_Close_def split: option.splits)

lemma close_readers_flow:
  assumes "close_readers answer gs rs e0 = (e, evs)" "distinct gs"
  shows "fd_flow (\<Sum>g \<in> set gs. report_fds (report (the (rs g)))) evs {#}"
  using assms
proof (induction gs arbitrary: e0 e evs)
  case (Cons g gs)
  obtain ce rd' evs1 where c: "reader_close (answer g) (the (rs g)) = (ce, rd', evs1)"
    by (metis surj_pair)
  obtain e2 evs2 where r: "close_readers answer gs rs (if e0 = None then ce else e0) = (e2, evs2)" by force
  have "evs1 = close_events (report (the (rs g)))"
    using c report_Close_events [of "answer g" "report (the (rs g))"]
    by (auto simp: reader_close_def split: prod.splits)
  moreover have "evs = evs1 @ evs2" using Cons.prems(1) c r by simp
  moreover note fd_flow_frame [OF fd_flow_close_report [of "report (the (rs g))"],
      of "\<Sum>g \<in> set gs. report_fds (report (the (rs g)))"]
  moreover note Cons.IH [OF r]
  ultimately show ?case using Cons.prems(2) by (simp add: fd_flow_append)
qed simp

lemma registry_close_flow:
  assumes "registry_close answer order reg = (e, reg', evs)"
    and "\<And>rs. reg_readers reg = Some rs \<Longrightarrow> enumerates order rs"
  shows "fd_flow (registry_owned reg) evs {#} \<and> reg_readers reg' = None \<and> registry_owned reg' = {#}"
proof (cases "reg_readers reg")
  case None
  with assms(1) show ?thesis by (auto simp: registry_close_def registry_owned_def)
next
  case (Some rs)
  obtain evs' where c: "close_readers answer order rs None = (e, evs)" "reg' = reg\<lparr>reg_readers := None\<rparr>"
    using assms(1) Some by (auto simp: registry_close_def split: prod.splits)
  have o: "distinct order" "set order = dom rs" using assms(2) [OF Some] by (simp_all add: enumerates_def)
  from close_readers_flow [OF c(1) o(1)] c(2) Some show ?thesis
    by (simp add: registry_owned_def readers_owned_def o(2))
qed

end
