(* ===== verification/Watcher.thy ===== *)
theory Watcher
  imports Registry "HOL-Library.Signed_Division"
begin

text \<open>
  \<open>internal/source/watch_linux.go\<close> and \<open>wait_linux.go\<close>: the inotify watch on the report directory
  and the bounded wait for it.  The kernel's answers to \<open>read\<close> and \<open>poll\<close>, the context and the
  clock are lists, one element for each turn of the loop that asks; a loop that needs more answers
  than it is given has not returned, and its model is \<open>None\<close>.  The event header is read as the
  little-endian layout of \<open>struct inotify_event\<close>.
\<close>

section \<open>Events\<close>

record directory_events =
  Changed :: bool
  Overflowed :: bool
  Invalidated :: bool

definition no_events :: directory_events where
  "no_events = \<lparr>Changed = False, Overflowed = False, Invalidated = False\<rparr>"

definition IN_Q_OVERFLOW :: u32 where "IN_Q_OVERFLOW = 0x4000"
definition IN_IGNORED :: u32 where "IN_IGNORED = 0x8000"
definition IN_MOVE_SELF :: u32 where "IN_MOVE_SELF = 0x800"
definition IN_DELETE_SELF :: u32 where "IN_DELETE_SELF = 0x400"

text \<open>\<open>IN_CREATE | IN_MOVED_TO | IN_MOVED_FROM | IN_DELETE | IN_MODIFY | IN_CLOSE_WRITE | IN_ATTRIB | \<dots>\<close>\<close>

unbundle bit_operations_syntax

definition directoryWatchMask :: u32 where
  "directoryWatchMask =
     0x100 OR 0x80 OR 0x40 OR 0x200 OR 0x2 OR 0x8 OR 0x4 OR IN_MOVE_SELF OR IN_DELETE_SELF"

definition headerSize :: nat where
  "headerSize = 16"

text \<open>The 32-bit field at an offset of the buffer.\<close>

definition le32_at :: "nat \<Rightarrow> bytes \<Rightarrow> u32" where
  "le32_at off b = (\<Sum>i < 4. of_nat (256 ^ i * byte_code (b ! (off + i))))"

definition note_event :: "u32 \<Rightarrow> directory_events \<Rightarrow> directory_events" where
  "note_event em ev =
     \<lparr>Changed = True,
      Overflowed = (Overflowed ev \<or> em AND IN_Q_OVERFLOW \<noteq> 0),
      Invalidated = (Invalidated ev \<or> em AND (IN_IGNORED OR IN_MOVE_SELF OR IN_DELETE_SELF) \<noteq> 0)\<rparr>"

text \<open>The buffer is what is left from the current offset on.\<close>

function collectDirectoryEvents ::
    "bytes \<Rightarrow> directory_events \<Rightarrow> error option \<times> directory_events" where
  "collectDirectoryEvents buf events =
     (if buf = [] then (None, events)
      else if length buf < headerSize
      then (Some (Text ''parse report directory events: truncated event header''), events)
      else (let eventSize = headerSize + unat (le32_at 12 buf)
            in if length buf < eventSize
               then (Some (Text ''parse report directory events: invalid event length''), events)
               else collectDirectoryEvents (drop eventSize buf) (note_event (le32_at 4 buf) events)))"
  by pat_completeness auto
termination
  by (relation "measure (length \<circ> fst)") (auto simp: headerSize_def)

declare collectDirectoryEvents.simps [simp del]

section \<open>The watcher\<close>

record directory_watcher =
  w_fd :: "nat option"
  w_watch :: int

definition WatchReportDirectory ::
    "(error + nat) \<Rightarrow> (nat \<Rightarrow> string \<Rightarrow> u32 \<Rightarrow> error + int) \<Rightarrow> report_directory option
      \<Rightarrow> (error + directory_watcher) \<times> fd_event list" where
  "WatchReportDirectory inotify_init add_watch dir =
     (case Option.bind dir dir_fd of
        None \<Rightarrow> (Inl (Sentinel Os_ErrClosed), [])
      | Some dfd \<Rightarrow>
          (case inotify_init of
             Inl e \<Rightarrow> (Inl (Wrap ''initialize report directory watch'' [e]), [])
           | Inr fd \<Rightarrow>
               (case add_watch fd (''/proc/self/fd/'' @ Itoa (int dfd)) directoryWatchMask of
                  Inl e \<Rightarrow> (Inl (Wrap ''watch report directory descriptor'' [e]), [FdOpen fd, FdClose fd])
                | Inr wd \<Rightarrow> (Inr \<lparr>w_fd = Some fd, w_watch = wd\<rparr>, [FdOpen fd]))))"

datatype read_answer = ReadBytes bytes | ReadInterrupted | WouldBlock | ReadError error

fun drain_events :: "read_answer list \<Rightarrow> directory_events \<Rightarrow> (error option \<times> directory_events) option" where
  "drain_events [] events = None"
| "drain_events (a # as) events =
     (case a of
        ReadInterrupted \<Rightarrow> drain_events as events
      | WouldBlock \<Rightarrow> Some (None, events)
      | ReadError e \<Rightarrow> Some (Some (Wrap ''read report directory events'' [e]), events)
      | ReadBytes b \<Rightarrow>
          if b = [] then Some (None, events)
          else (case collectDirectoryEvents b events of
                  (Some e, events') \<Rightarrow> Some (Some e, events')
                | (None, events') \<Rightarrow> drain_events as events'))"

definition watcher_Drain ::
    "read_answer list \<Rightarrow> directory_watcher option \<Rightarrow> (error option \<times> directory_events) option" where
  "watcher_Drain answers watcher =
     (case Option.bind watcher w_fd of
        None \<Rightarrow> Some (Some (Sentinel Os_ErrClosed), no_events)
      | Some fd \<Rightarrow> drain_events answers no_events)"

definition watcher_Close ::
    "error option \<Rightarrow> directory_watcher \<Rightarrow> error option \<times> directory_watcher \<times> fd_event list" where
  "watcher_Close close_answer watcher =
     (case w_fd watcher of
        None \<Rightarrow> (None, watcher, [])
      | Some fd \<Rightarrow> (close_answer, \<lparr>w_fd = None, w_watch = (if 0 \<le> w_watch watcher then -1 else w_watch watcher)\<rparr>,
                   [FdClose fd]))"

section \<open>Waiting\<close>

definition millisecond :: int where "millisecond = 1000000"

definition watcherCancellationPollInterval :: int where
  "watcherCancellationPollInterval = 100 * millisecond"

definition pollMilliseconds :: "int \<Rightarrow> int" where
  "pollMilliseconds duration =
     (let ms = duration sdiv millisecond;
          ms' = (if duration smod millisecond \<noteq> 0 then ms + 1 else ms)
      in if ms' < 1 then 1 else ms')"

definition POLLIN :: "16 word" where "POLLIN = 0x1"
definition poll_failure_mask :: "16 word" where "poll_failure_mask = 0x8 OR 0x10 OR 0x20"

datatype poll_answer = PollInterrupted | PollError error | PollTimeout | PollReady "16 word"

text \<open>One turn of the wait: what the context, the clock and \<open>poll\<close> say.\<close>

record wait_answer =
  wa_ctx :: "error option"
  wa_remaining :: int
  wa_poll :: poll_answer

definition poll_duration :: "int \<Rightarrow> int" where
  "poll_duration remaining =
     (if watcherCancellationPollInterval < remaining then watcherCancellationPollInterval else remaining)"

text \<open>The loop; the second result lists the timeouts it passed to \<open>poll\<close>.\<close>

fun wait_loop :: "wait_answer list \<Rightarrow> directory_watcher \<Rightarrow> ((error + bool) \<times> int list) option" where
  "wait_loop [] watcher = None"
| "wait_loop (a # as) watcher =
     (case wa_ctx a of
        Some e \<Rightarrow> Some (Inl e, [])
      | None \<Rightarrow>
          if wa_remaining a \<le> 0 then Some (Inr False, [])
          else if w_fd watcher = None then Some (Inl (Sentinel Os_ErrClosed), [])
          else (let ms = pollMilliseconds (poll_duration (wa_remaining a));
                    continue = map_option (\<lambda>(r, polls). (r, ms # polls)) (wait_loop as watcher)
                in case wa_poll a of
                     PollInterrupted \<Rightarrow> continue
                   | PollError e \<Rightarrow> Some (Inl (Wrap ''wait for report directory events'' [e]), [ms])
                   | PollTimeout \<Rightarrow> continue
                   | PollReady revents \<Rightarrow>
                       if revents AND poll_failure_mask \<noteq> 0
                       then Some (Inl (Sentinel ErrWatcherInvalidated), [ms])
                       else if revents AND POLLIN \<noteq> 0 then Some (Inr True, [ms])
                       else continue))"

definition watcher_Wait ::
    "wait_answer list \<Rightarrow> bool \<Rightarrow> int \<Rightarrow> directory_watcher option \<Rightarrow> ((error + bool) \<times> int list) option" where
  "watcher_Wait answers has_ctx maxWait watcher =
     (case watcher of
        None \<Rightarrow> Some (Inl (Sentinel Os_ErrClosed), [])
      | Some w \<Rightarrow>
          if \<not> has_ctx then Some (Inl (Text ''watch context is required''), [])
          else if maxWait \<le> 0 then Some (Inl (Text ''watch duration must be positive''), [])
          else wait_loop answers w)"

section \<open>The wire form of events\<close>

record inotify_event =
  ev_wd :: u32
  ev_mask :: u32
  ev_cookie :: u32
  ev_name :: bytes

definition le32_bytes :: "u32 \<Rightarrow> bytes" where
  "le32_bytes w = map (\<lambda>i. char_of (unat w div 256 ^ i)) [0, 1, 2, 3]"

definition event_bytes :: "inotify_event \<Rightarrow> bytes" where
  "event_bytes e = le32_bytes (ev_wd e) @ le32_bytes (ev_mask e) @ le32_bytes (ev_cookie e)
     @ le32_bytes (of_nat (length (ev_name e))) @ ev_name e"

definition events_bytes :: "inotify_event list \<Rightarrow> bytes" where
  "events_bytes es = concat (map event_bytes es)"

definition event_fits :: "inotify_event \<Rightarrow> bool" where
  "event_fits e \<longleftrightarrow> length (ev_name e) < 2 ^ 32"

definition events_noted :: "inotify_event list \<Rightarrow> directory_events \<Rightarrow> directory_events" where
  "events_noted es ev = fold (\<lambda>e. note_event (ev_mask e)) es ev"

lemma length_le32_bytes [simp]: "length (le32_bytes w) = 4"
  by (simp add: le32_bytes_def)

lemma lessThan_4: "{..<4::nat} = {0, 1, 2, 3}"
  by auto

lemma digits_256:
  assumes "(n :: nat) < 256 ^ 4"
  shows "n mod 256 + 256 * (n div 256 mod 256) + 65536 * (n div 65536 mod 256)
    + 16777216 * (n div 16777216 mod 256) = n"
proof -
  have d: "n div 65536 = n div 256 div 256" "n div 16777216 = n div 256 div 256 div 256"
    by (simp_all add: div_mult2_eq [symmetric])
  have "n div 256 div 256 div 256 < 256"
    using assms by (simp add: div_mult2_eq [symmetric] div_less_iff_less_mult)
  then have "n div 256 div 256 div 256 mod 256 = n div 256 div 256 div 256" by simp
  with mult_div_mod_eq [of 256 n] mult_div_mod_eq [of 256 "n div 256"]
    mult_div_mod_eq [of 256 "n div 256 div 256"]
  show ?thesis unfolding d by linarith
qed

lemma le32_at_bytes: "le32_at (length pre) (pre @ le32_bytes w @ post) = w"
proof -
  have w: "unat w < 256 ^ 4" using unsigned_less [of w, where ?'a = nat] by simp
  have "le32_at (length pre) (pre @ le32_bytes w @ post)
      = of_nat (unat w mod 256 + 256 * (unat w div 256 mod 256) + 65536 * (unat w div 65536 mod 256)
          + 16777216 * (unat w div 16777216 mod 256))"
    by (simp add: le32_at_def lessThan_4 nth_append le32_bytes_def byte_code_def numeral_2_eq_2 numeral_3_eq_3)
  then show ?thesis by (simp only: digits_256 [OF w]) simp
qed

lemma base_256:
  assumes "a < 256" "b < 256" "c < 256" "d < (256 :: nat)"
  defines "v \<equiv> a + 256 * b + 65536 * c + 16777216 * d"
  shows "v mod 256 = a" "v div 256 mod 256 = b" "v div 65536 mod 256 = c" "v div 16777216 mod 256 = d"
proof -
  have v: "v = a + 256 * (b + 256 * (c + 256 * d))" by (simp add: v_def)
  have q1: "v div 256 = b + 256 * (c + 256 * d)" unfolding v using assms(1) by simp
  have q2: "v div 256 div 256 = c + 256 * d" unfolding q1 using assms(2) by simp
  have q3: "v div 256 div 256 div 256 = d" unfolding q2 using assms(3) by simp
  show "v mod 256 = a" unfolding v mod_mult_self2 using assms(1) by simp
  show "v div 256 mod 256 = b" unfolding q1 mod_mult_self2 using assms(2) by simp
  show "v div 65536 mod 256 = c" using q2 assms(3) by (simp add: div_mult2_eq [symmetric])
  show "v div 16777216 mod 256 = d" using q3 assms(4) by (simp add: div_mult2_eq [symmetric])
qed

lemma le32_bytes_at:
  assumes "off + 4 \<le> length b"
  shows "le32_bytes (le32_at off b) = take 4 (drop off b)"
proof -
  have "take 4 (drop off b) = [b ! off, b ! (off + 1), b ! (off + 2), b ! (off + 3)]"
    using assms by (intro nth_equalityI) (auto simp: less_Suc_eq numeral_eq_Suc)
  then obtain c0 c1 c2 c3 where c: "take 4 (drop off b) = [c0, c1, c2, c3]" by blast
  have n: "b ! (off + i) = [c0, c1, c2, c3] ! i" if "i < 4" for i
    using that assms by (simp flip: c)
  note lt = byte_code_less
  let ?v = "byte_code c0 + 256 * byte_code c1 + 65536 * byte_code c2 + 16777216 * byte_code c3"
  have v: "?v < 2 ^ 32" using lt [of c0] lt [of c1] lt [of c2] lt [of c3] by simp
  have "le32_at off b = of_nat ?v"
    using n [of 0] n [of 1] n [of 2] n [of 3]
    by (simp add: le32_at_def lessThan_4 numeral_2_eq_2 numeral_3_eq_3)
  then have "unat (le32_at off b) = take_bit 32 ?v" by (simp only: unsigned_of_nat) simp
  then have u: "unat (le32_at off b) = ?v" using v by (simp only: take_bit_nat_eq_self)
  have ch: "char_of (byte_code c) = c" for c by (simp add: byte_code_def)
  have md: "char_of n = char_of (n mod 256)" for n :: nat by simp
  note d = base_256 [OF lt lt lt lt, of c0 c1 c2 c3]
  have "le32_bytes (le32_at off b) = [char_of (?v mod 256), char_of (?v div 256 mod 256),
      char_of (?v div 65536 mod 256), char_of (?v div 16777216 mod 256)]"
    unfolding le32_bytes_def u by (simp only: list.map power_0 power_one_right div_by_1 md [symmetric]) simp
  then show ?thesis unfolding d ch c .
qed

lemma event_fields:
  "le32_at 4 (event_bytes e @ buf) = ev_mask e"
  "le32_at 12 (event_bytes e @ buf) = of_nat (length (ev_name e))"
  "length (event_bytes e) = headerSize + length (ev_name e)"
  using le32_at_bytes [of "le32_bytes (ev_wd e)" "ev_mask e"]
    le32_at_bytes [of "le32_bytes (ev_wd e) @ le32_bytes (ev_mask e) @ le32_bytes (ev_cookie e)"
      "of_nat (length (ev_name e))"]
  by (simp_all add: event_bytes_def headerSize_def)

lemma collect_event:
  assumes "event_fits e"
  shows "collectDirectoryEvents (event_bytes e @ buf) ev = collectDirectoryEvents buf (note_event (ev_mask e) ev)"
proof -
  have "unat (of_nat (length (ev_name e)) :: u32) = length (ev_name e)"
    using assms by (simp add: event_fits_def unsigned_of_nat take_bit_nat_eq_self)
  moreover have "event_bytes e \<noteq> []" using event_fields(3) [of e] by (auto simp: headerSize_def)
  ultimately show ?thesis
    by (subst collectDirectoryEvents.simps) (simp add: event_fields Let_def)
qed

lemma collect_events:
  "list_all event_fits es \<Longrightarrow> collectDirectoryEvents (events_bytes es) ev = (None, events_noted es ev)"
proof (induction es arbitrary: ev)
  case Nil
  then show ?case by (simp add: events_bytes_def events_noted_def collectDirectoryEvents.simps)
next
  case (Cons e es)
  then show ?case using collect_event [of e "events_bytes es" ev]
    by (simp add: events_bytes_def events_noted_def)
qed

definition first_event :: "bytes \<Rightarrow> inotify_event" where
  "first_event buf = \<lparr>ev_wd = le32_at 0 buf, ev_mask = le32_at 4 buf, ev_cookie = le32_at 8 buf,
     ev_name = take (unat (le32_at 12 buf)) (drop headerSize buf)\<rparr>"

lemma first_event_bytes:
  assumes "headerSize + unat (le32_at 12 buf) \<le> length buf"
  shows "event_bytes (first_event buf) = take (headerSize + unat (le32_at 12 buf)) buf \<and> event_fits (first_event buf)"
proof -
  let ?n = "unat (le32_at 12 buf)"
  have len: "16 + ?n \<le> length buf" using assms by (simp add: headerSize_def)
  have n: "?n < 2 ^ 32" using unsigned_less [of "le32_at 12 buf", where ?'a = nat] by simp
  have "take (16 + ?n) buf = take 4 buf @ take 4 (drop 4 buf) @ take 4 (drop 8 buf) @ take 4 (drop 12 buf)
      @ take ?n (drop 16 buf)"
  proof -
    have "take (4 + (4 + (4 + (4 + ?n)))) buf = take 4 buf @ take 4 (drop 4 buf) @ take 4 (drop 8 buf)
        @ take 4 (drop 12 buf) @ take ?n (drop 16 buf)"
      unfolding take_add drop_drop by simp
    then show ?thesis by (simp add: add.assoc [symmetric])
  qed
  moreover have "le32_bytes (le32_at 0 buf) = take 4 buf" "le32_bytes (le32_at 4 buf) = take 4 (drop 4 buf)"
    "le32_bytes (le32_at 8 buf) = take 4 (drop 8 buf)" "le32_bytes (le32_at 12 buf) = take 4 (drop 12 buf)"
    using len le32_bytes_at [of 0 buf] le32_bytes_at [of _ buf] by simp_all
  moreover have "min (length buf - 16) ?n = ?n" using len by simp
  ultimately show ?thesis
    using n by (simp add: event_bytes_def first_event_def event_fits_def headerSize_def)
qed

lemma collect_complete:
  "collectDirectoryEvents buf ev = (None, ev') \<Longrightarrow>
     \<exists>es. list_all event_fits es \<and> buf = events_bytes es \<and> ev' = events_noted es ev"
proof (induction buf ev rule: collectDirectoryEvents.induct)
  case (1 buf ev)
  let ?n = "headerSize + unat (le32_at 12 buf)"
  show ?case
  proof (cases "buf = []")
    case True
    with "1.prems" show ?thesis
      by (intro exI [of _ "[]"]) (simp add: events_bytes_def events_noted_def collectDirectoryEvents.simps)
  next
    case False
    with "1.prems" have ok: "\<not> length buf < headerSize" "\<not> length buf < ?n"
      "collectDirectoryEvents (drop ?n buf) (note_event (le32_at 4 buf) ev) = (None, ev')"
      by (subst (asm) collectDirectoryEvents.simps, simp add: Let_def split: if_splits)+
    from "1.IH" [OF False ok(1) refl ok(2,3)] obtain es where
      es: "list_all event_fits es" "drop ?n buf = events_bytes es"
        "ev' = events_noted es (note_event (le32_at 4 buf) ev)" by blast
    note f = first_event_bytes [of buf]
    have "buf = event_bytes (first_event buf) @ drop ?n buf" using f ok(2) by simp
    with es f ok(2) show ?thesis
      by (intro exI [of _ "first_event buf # es"])
        (simp add: events_bytes_def events_noted_def first_event_def)
  qed
qed

text \<open>What a list of events says, flag by flag.\<close>

definition invalidating :: u32 where
  "invalidating = IN_IGNORED OR IN_MOVE_SELF OR IN_DELETE_SELF"

lemma events_noted_eq:
  "events_noted es ev =
     \<lparr>Changed = (Changed ev \<or> es \<noteq> []),
      Overflowed = (Overflowed ev \<or> list_ex (\<lambda>e. ev_mask e AND IN_Q_OVERFLOW \<noteq> 0) es),
      Invalidated = (Invalidated ev \<or> list_ex (\<lambda>e. ev_mask e AND invalidating \<noteq> 0) es)\<rparr>"
proof (induction es arbitrary: ev)
  case (Cons e es)
  have "events_noted (e # es) ev = events_noted es (note_event (ev_mask e) ev)"
    by (simp add: events_noted_def)
  then show ?case unfolding Cons by (simp add: note_event_def invalidating_def)
qed (simp add: events_noted_def)

lemma events_noted_append: "events_noted (es @ fs) ev = events_noted fs (events_noted es ev)"
  by (simp add: events_noted_def)

text \<open>A drain until the kernel would block reads every event, over any number of reads.\<close>

definition reads_of :: "inotify_event list option list \<Rightarrow> read_answer list" where
  "reads_of groups = map (\<lambda>g. case g of None \<Rightarrow> ReadInterrupted | Some es \<Rightarrow> ReadBytes (events_bytes es)) groups"

definition all_events :: "inotify_event list option list \<Rightarrow> inotify_event list" where
  "all_events groups = concat (map (\<lambda>g. case g of None \<Rightarrow> [] | Some es \<Rightarrow> es) groups)"

lemma events_bytes_nonempty: "es \<noteq> [] \<Longrightarrow> events_bytes es \<noteq> []"
  using event_fields(3) [of "hd es"] by (cases es) (auto simp: events_bytes_def headerSize_def)

lemma drain_events_all:
  assumes "\<forall>es. Some es \<in> set groups \<longrightarrow> es \<noteq> [] \<and> list_all event_fits es"
  shows "drain_events (reads_of groups @ [WouldBlock]) ev = Some (None, events_noted (all_events groups) ev)"
  using assms
proof (induction groups arbitrary: ev)
  case Nil
  then show ?case by (simp add: reads_of_def all_events_def events_noted_def)
next
  case (Cons g groups)
  show ?case
  proof (cases g)
    case None
    with Cons show ?thesis by (simp add: reads_of_def all_events_def)
  next
    case (Some es)
    with Cons.prems have "es \<noteq> []" "list_all event_fits es" by simp_all
    with Cons Some show ?thesis
      by (simp add: reads_of_def all_events_def collect_events events_bytes_nonempty events_noted_append)
  qed
qed

section \<open>The wait\<close>

lemma pollMilliseconds_bounds:
  assumes "0 < d" "d \<le> watcherCancellationPollInterval"
  shows "1 \<le> pollMilliseconds d" "pollMilliseconds d \<le> 100" "d \<le> pollMilliseconds d * millisecond"
proof -
  define q r where "q = d div 1000000" and "r = d mod 1000000"
  have qr: "d = 1000000 * q + r" "0 \<le> r" "r < 1000000" by (simp_all add: q_def r_def)
  have d: "d \<le> 100000000" using assms(2) by (simp add: watcherCancellationPollInterval_def millisecond_def)
  have p: "pollMilliseconds d = (if r \<noteq> 0 then q + 1 else q)"
  proof -
    have "d sdiv 1000000 = q" "d smod 1000000 = r"
      using assms(1) by (simp_all add: signed_divide_int_def signed_modulo_int_def q_def r_def)
    then show ?thesis using qr assms(1) by (simp add: pollMilliseconds_def Let_def millisecond_def)
  qed
  show "1 \<le> pollMilliseconds d" "pollMilliseconds d \<le> 100" "d \<le> pollMilliseconds d * millisecond"
    unfolding p millisecond_def using qr d assms(1) by (simp_all split: if_splits)
qed

lemma poll_duration_bounds:
  "0 < r \<Longrightarrow> 0 < poll_duration r \<and> poll_duration r \<le> watcherCancellationPollInterval \<and> poll_duration r \<le> r"
  by (simp add: poll_duration_def watcherCancellationPollInterval_def millisecond_def)

end
