(* ===== verification/Session.thy ===== *)
theory Session
  imports Watcher
begin

text \<open>
  The source session: \<open>internal/source/events_linux.go\<close>, \<open>initialize_linux.go\<close>,
  \<open>live_linux.go\<close>, \<open>drain_linux.go\<close> and \<open>run_linux.go\<close>.  The state outside the session that the
  record handler and the observer change is one value \<open>w\<close>.  A loop takes a list of views, one
  for each turn, with everything the kernel, the clock and the context answer in that turn; a loop
  that needs more turns than it is given has not returned, and its model is \<open>None\<close>.  Ranging over
  the registry's map takes the runtime's order as a function of the map.  The mutexes make each
  operation atomic.
\<close>

section \<open>Source events\<close>

datatype source_event_kind = SourceEventRotations | SourceEventDiscontinuity

datatype source_discontinuity =
    SourceDiscontinuityGenerationMissing
  | SourceDiscontinuityGenerationTruncated
  | SourceDiscontinuityOversizeRecord
  | SourceDiscontinuityStaleGeneration
  | SourceDiscontinuityUncleanClose

record source_event =
  Kind :: source_event_kind
  Count :: nat
  Reason :: "source_discontinuity option"

definition discontinuityForError :: "error option \<Rightarrow> source_discontinuity option" where
  "discontinuityForError err =
     (case err of
        None \<Rightarrow> None
      | Some e \<Rightarrow>
          if errors_is ErrGenerationTruncated e then Some SourceDiscontinuityGenerationTruncated
          else if errors_is ErrRecordTooLarge e then Some SourceDiscontinuityOversizeRecord
          else if errors_is ErrStaleGeneration e then Some SourceDiscontinuityStaleGeneration
          else None)"

section \<open>The session\<close>

type_synonym 'w record_handler = "record_mode \<Rightarrow> 'w record_apply"
type_synonym 'w source_observer = "source_event \<Rightarrow> 'w \<Rightarrow> 'w"

record 'w source_session =
  ss_directory :: report_directory
  ss_identity :: process_identity
  ss_watcher :: directory_watcher
  ss_registry :: generation_registry
  ss_handle :: "'w record_handler"
  ss_observer :: "'w source_observer option"
  ss_cutover :: "generation_watermark list"
  ss_overflows :: u64
  ss_closed :: bool

definition session_AttachObserver ::
    "'w source_observer option \<Rightarrow> 'w source_session option \<Rightarrow> error option \<times> 'w source_session option" where
  "session_AttachObserver obs session =
     (case session of
        None \<Rightarrow> (Some (Text ''source session is required''), None)
      | Some s \<Rightarrow>
          if obs = None then (Some (Text ''source observer is required''), Some s)
          else if ss_closed s then (Some (Sentinel Os_ErrClosed), Some s)
          else if ss_observer s \<noteq> None then (Some (Text ''source observer is already attached''), Some s)
          else (None, Some (s\<lparr>ss_observer := obs\<rparr>)))"

definition session_notify :: "'w source_session \<Rightarrow> source_event \<Rightarrow> 'w \<Rightarrow> 'w" where
  "session_notify s event w =
     (if Count event = 0 then w
      else (case ss_observer s of None \<Rightarrow> w | Some observer \<Rightarrow> observer event w))"

definition notifyDiscontinuity :: "'w source_session \<Rightarrow> error option \<Rightarrow> 'w \<Rightarrow> 'w" where
  "notifyDiscontinuity s err w =
     (case discontinuityForError err of
        None \<Rightarrow> w
      | Some reason \<Rightarrow>
          session_notify s \<lparr>Kind = SourceEventDiscontinuity, Count = 1, Reason = Some reason\<rparr> w)"

section \<open>One pass over the directory\<close>

record pass_view =
  pv_ctx :: "error option"
  pv_scan :: scan_answers
  pv_range :: "readers \<Rightarrow> generation_id list"
  pv_files :: "generation_id \<Rightarrow> file_view list"
  pv_events :: "read_answer list"
  pv_wait :: "error option"
  pv_closed :: "error option"
  pv_close :: "generation_id \<Rightarrow> error option"

definition range_of :: "pass_view \<Rightarrow> generation_registry \<Rightarrow> generation_id list" where
  "range_of pv reg = (case reg_readers reg of None \<Rightarrow> [] | Some rs \<Rightarrow> pv_range pv rs)"

record live_result =
  lr_Records :: nat
  lr_Bytes :: nat
  NewGenerations :: nat
  NotificationOverflows :: nat

definition zero_live :: live_result where
  "zero_live = \<lparr>lr_Records = 0, lr_Bytes = 0, NewGenerations = 0, NotificationOverflows = 0\<rparr>"

definition mergeLiveResult :: "live_result \<Rightarrow> live_result \<Rightarrow> live_result" where
  "mergeLiveResult target addition =
     \<lparr>lr_Records = lr_Records target + lr_Records addition,
      lr_Bytes = lr_Bytes target + lr_Bytes addition,
      NewGenerations = NewGenerations target + NewGenerations addition,
      NotificationOverflows = NotificationOverflows target + NotificationOverflows addition\<rparr>"

definition rotation_event :: "nat \<Rightarrow> source_event" where
  "rotation_event n = \<lparr>Kind = SourceEventRotations, Count = n, Reason = None\<rparr>"

text \<open>The registry holds pointers: a drained reader is the one filed under its generation.\<close>

definition put_reader :: "generation_reader option \<Rightarrow> generation_registry \<Rightarrow> generation_registry" where
  "put_reader rd reg =
     (case rd of
        None \<Rightarrow> reg
      | Some r \<Rightarrow> reg\<lparr>reg_readers := map_option (\<lambda>rs. rs(generation_of r \<mapsto> r)) (reg_readers reg)\<rparr>)"

fun drain_readers ::
    "'w record_apply \<Rightarrow> (generation_id \<Rightarrow> file_view list) \<Rightarrow> generation_reader list
      \<Rightarrow> generation_registry \<Rightarrow> live_result \<Rightarrow> 'w
      \<Rightarrow> (error option \<times> generation_registry \<times> live_result \<times> 'w) option" where
  "drain_readers f files [] reg result w = Some (None, reg, result, w)"
| "drain_readers f files (rd # rds) reg result w =
     (case drain (Some f) (files (generation_of rd)) (Some rd) w of
        None \<Rightarrow> None
      | Some (Some e, rd', drained, w') \<Rightarrow> Some (Some e, put_reader rd' reg, result, w')
      | Some (None, rd', drained, w') \<Rightarrow>
          drain_readers f files rds (put_reader rd' reg)
            (result\<lparr>lr_Records := lr_Records result + dr_records drained,
                    lr_Bytes := lr_Bytes result + dr_bytes drained\<rparr>) w')"

text \<open>
  The body that the loops of \<open>InitializeSource\<close> and \<open>Reconcile\<close> share: scan, register, drain
  oldest first, then drain the watcher.  Only the live loop counts new generations and tells the
  observer of them.  The result is an error or the number of generations that were registered
  and whether the directory changed meanwhile.
\<close>

definition source_pass ::
    "record_mode \<Rightarrow> pass_view \<Rightarrow> 'w source_session \<Rightarrow> live_result \<Rightarrow> 'w
      \<Rightarrow> ((error + nat \<times> bool) \<times> 'w source_session \<times> live_result \<times> 'w \<times> fd_event list) option" where
  "source_pass m pv s result w =
     (case ScanReports (pv_scan pv) (Some (ss_directory s)) (ss_identity s) of
        (Inl e, evs) \<Rightarrow> Some (Inl e, s, result, w, evs)
      | (Inr discovered, evs) \<Rightarrow>
          (case register (ss_registry s) discovered of
             (Some e, registered, reg, evs') \<Rightarrow>
               Some (Inl e, s\<lparr>ss_registry := reg\<rparr>, result, w, evs @ evs')
           | (None, registered, reg, evs') \<Rightarrow>
               (let result1 = result\<lparr>NewGenerations := NewGenerations result + registered\<rparr>;
                    w1 = (if m = RecordModeLive \<and> 0 < registered
                          then session_notify s (rotation_event registered) w
                          else w)
                in case drain_readers (ss_handle s m) (pv_files pv)
                          (oldestFirst (range_of pv reg) reg) reg result1 w1 of
                     None \<Rightarrow> None
                   | Some (Some e, reg2, result2, w2) \<Rightarrow>
                       Some (Inl e, s\<lparr>ss_registry := reg2\<rparr>, result2, w2, evs @ evs')
                   | Some (None, reg2, result2, w2) \<Rightarrow>
                       (case watcher_Drain (pv_events pv) (Some (ss_watcher s)) of
                          None \<Rightarrow> None
                        | Some (Some e, events) \<Rightarrow>
                            Some (Inl e, s\<lparr>ss_registry := reg2\<rparr>, result2, w2, evs @ evs')
                        | Some (None, events) \<Rightarrow>
                            if Invalidated events
                            then Some (Inl (Sentinel ErrWatcherInvalidated), s\<lparr>ss_registry := reg2\<rparr>,
                                       result2, w2, evs @ evs')
                            else (let s3 = s\<lparr>ss_registry := reg2,
                                             ss_overflows := ss_overflows s + (if Overflowed events then 1 else 0)\<rparr>;
                                      result3 = result2\<lparr>NotificationOverflows := NotificationOverflows result2
                                                   + (if Overflowed events then 1 else 0)\<rparr>
                                  in Some (Inr (registered, Changed events), s3, result3, w2, evs @ evs'))))))"

section \<open>Closing\<close>

definition session_Close ::
    "pass_view \<Rightarrow> 'w source_session option \<Rightarrow> error option \<times> 'w source_session option \<times> fd_event list" where
  "session_Close pv session =
     (case session of
        None \<Rightarrow> (None, None, [])
      | Some s \<Rightarrow>
          if ss_closed s then (None, Some s, [])
          else (case watcher_Close (pv_closed pv) (ss_watcher s) of
                  (we, watcher, evs) \<Rightarrow>
                    (case registry_close (pv_close pv) (range_of pv (ss_registry s)) (ss_registry s) of
                       (re, reg, evs') \<Rightarrow>
                         (errors_join [we, re],
                          Some (s\<lparr>ss_closed := True, ss_watcher := watcher, ss_registry := reg\<rparr>),
                          evs @ evs'))))"

section \<open>Initialization\<close>

record initialization_options =
  MaxRecordBytes :: nat
  io_RescanInterval :: int
  InitializationTimeout :: int

definition len_readers :: "pass_view \<Rightarrow> generation_registry \<Rightarrow> nat" where
  "len_readers pv reg = length (range_of pv reg)"

text \<open>A failed initialization closes the session it was building.\<close>

definition init_failed ::
    "pass_view \<Rightarrow> error \<Rightarrow> 'w source_session \<Rightarrow> 'w \<Rightarrow> fd_event list
      \<Rightarrow> (error + 'w source_session) \<times> 'w \<times> fd_event list" where
  "init_failed pv e s w evs = (case session_Close pv (Some s) of (_, _, evs') \<Rightarrow> (Inl e, w, evs @ evs'))"

fun init_loop ::
    "pass_view list \<Rightarrow> 'w source_session \<Rightarrow> 'w
      \<Rightarrow> ((error + 'w source_session) \<times> 'w \<times> fd_event list) option" where
  "init_loop [] s w = None"
| "init_loop (pv # pvs) s w =
     (case pv_ctx pv of
        Some e \<Rightarrow> Some (init_failed pv (Wrap ''initialize report source'' [e]) s w [])
      | None \<Rightarrow>
          (case source_pass RecordModeBaseline pv s zero_live w of
             None \<Rightarrow> None
           | Some (Inl e, s', _, w', evs) \<Rightarrow> Some (init_failed pv e s' w' evs)
           | Some (Inr (registered, changed), s', _, w', evs) \<Rightarrow>
               if 0 < len_readers pv (ss_registry s') \<and> registered = 0 \<and> \<not> changed
               then Some (Inr (s'\<lparr>ss_cutover := watermarks (range_of pv (ss_registry s')) (ss_registry s')\<rparr>), w', evs)
               else if 0 < registered \<or> changed
               then map_option (\<lambda>(r, w'', evs'). (r, w'', evs @ evs')) (init_loop pvs s' w')
               else (case pv_wait pv of
                       Some e \<Rightarrow> Some (init_failed pv (Wrap ''initialize report source'' [e]) s' w' evs)
                     | None \<Rightarrow> map_option (\<lambda>(r, w'', evs'). (r, w'', evs @ evs')) (init_loop pvs s' w'))))"

record watch_answers =
  ans_init :: "error + nat"
  ans_watch :: "nat \<Rightarrow> string \<Rightarrow> u32 \<Rightarrow> error + int"

definition InitializeSource ::
    "watch_answers \<Rightarrow> pass_view list \<Rightarrow> bool \<Rightarrow> report_directory option \<Rightarrow> process_identity
      \<Rightarrow> initialization_options \<Rightarrow> 'w record_handler option \<Rightarrow> 'w
      \<Rightarrow> ((error + 'w source_session) \<times> 'w \<times> fd_event list) option" where
  "InitializeSource os pvs has_ctx dir identity options handle w =
     (if \<not> has_ctx then Some (Inl (Text ''initialization context is required''), w, [])
      else (case dir of
        None \<Rightarrow> Some (Inl (Text ''report directory is required''), w, [])
      | Some d \<Rightarrow>
          (case handle of
             None \<Rightarrow> Some (Inl (Text ''record handler is required''), w, [])
           | Some h \<Rightarrow>
               if io_RescanInterval options \<le> 0
               then Some (Inl (Text ''rescan interval must be positive''), w, [])
               else if InitializationTimeout options \<le> 0
               then Some (Inl (Text ''initialization timeout must be positive''), w, [])
               else (case newGenerationRegistry (MaxRecordBytes options) of
                       Inl e \<Rightarrow> Some (Inl e, w, [])
                     | Inr reg \<Rightarrow>
                         (case WatchReportDirectory (ans_init os) (ans_watch os) (Some d) of
                            (Inl e, evs) \<Rightarrow> Some (Inl e, w, evs)
                          | (Inr watcher, evs) \<Rightarrow>
                              map_option (\<lambda>(r, w', evs'). (r, w', evs @ evs'))
                                (init_loop pvs
                                   \<lparr>ss_directory = d, ss_identity = identity, ss_watcher = watcher,
                                    ss_registry = reg, ss_handle = h, ss_observer = None, ss_cutover = [],
                                    ss_overflows = 0, ss_closed = False\<rparr> w))))))"

section \<open>Live reconciliation\<close>

fun reconcile_loop ::
    "pass_view list \<Rightarrow> 'w source_session \<Rightarrow> live_result \<Rightarrow> 'w
      \<Rightarrow> (error option \<times> live_result \<times> 'w source_session \<times> 'w \<times> fd_event list) option" where
  "reconcile_loop [] s result w = None"
| "reconcile_loop (pv # pvs) s result w =
     (case pv_ctx pv of
        Some e \<Rightarrow> Some (Some (Wrap ''reconcile report source'' [e]), result, s, w, [])
      | None \<Rightarrow>
          (case source_pass RecordModeLive pv s result w of
             None \<Rightarrow> None
           | Some (Inl e, s', result', w', evs) \<Rightarrow> Some (Some e, result', s', w', evs)
           | Some (Inr (registered, changed), s', result', w', evs) \<Rightarrow>
               if registered = 0 \<and> \<not> changed then Some (None, result', s', w', evs)
               else map_option (\<lambda>(e, r, s'', w'', evs'). (e, r, s'', w'', evs @ evs'))
                      (reconcile_loop pvs s' result' w')))"

definition Reconcile ::
    "pass_view list \<Rightarrow> bool \<Rightarrow> 'w source_session option \<Rightarrow> 'w
      \<Rightarrow> (error option \<times> live_result \<times> 'w source_session option \<times> 'w \<times> fd_event list) option" where
  "Reconcile pvs has_ctx session w =
     (case session of
        None \<Rightarrow> Some (Some (Sentinel Os_ErrClosed), zero_live, None, w, [])
      | Some s \<Rightarrow>
          if \<not> has_ctx then Some (Some (Text ''reconciliation context is required''), zero_live, Some s, w, [])
          else if ss_closed s then Some (Some (Sentinel Os_ErrClosed), zero_live, Some s, w, [])
          else map_option (\<lambda>(e, r, s', w', evs). (e, r, Some s', notifyDiscontinuity s' e w', evs))
                 (reconcile_loop pvs s zero_live w))"

definition CurrentWatermarks :: "pass_view \<Rightarrow> 'w source_session option \<Rightarrow> generation_watermark list" where
  "CurrentWatermarks pv session =
     (case session of
        None \<Rightarrow> []
      | Some s \<Rightarrow> if ss_closed s then [] else watermarks (range_of pv (ss_registry s)) (ss_registry s))"

section \<open>Draining the source\<close>

record source_drain_result =
  sd_Live :: live_result
  UncleanGenerations :: "generation_watermark list"

text \<open>One turn: the passes of its reconciliation, the time left after it and the wait.\<close>

record drain_turn =
  dt_passes :: "pass_view list"
  dt_remaining :: int
  dt_wait :: "int \<Rightarrow> error option"

datatype drain_stop = DrainFailed error | DeadlineReached

fun drain_source_loop ::
    "drain_turn list \<Rightarrow> int \<Rightarrow> bool \<Rightarrow> 'w source_session option \<Rightarrow> live_result \<Rightarrow> 'w
      \<Rightarrow> (drain_stop \<times> live_result \<times> 'w source_session option \<times> 'w \<times> fd_event list) option" where
  "drain_source_loop [] interval has_ctx session result w = None"
| "drain_source_loop (t # ts) interval has_ctx session result w =
     (case Reconcile (dt_passes t) has_ctx session w of
        None \<Rightarrow> None
      | Some (e, reconciled, session', w', evs) \<Rightarrow>
          (let result' = mergeLiveResult result reconciled
           in case e of
                Some err \<Rightarrow> Some (DrainFailed err, result', session', w', evs)
              | None \<Rightarrow>
                  if dt_remaining t \<le> 0 then Some (DeadlineReached, result', session', w', evs)
                  else (case dt_wait t (if dt_remaining t < interval then dt_remaining t else interval) of
                          Some err \<Rightarrow> Some (DrainFailed (Wrap ''drain report source'' [err]), result', session', w', evs)
                        | None \<Rightarrow>
                            map_option (\<lambda>(st, r, s, w'', evs'). (st, r, s, w'', evs @ evs'))
                              (drain_source_loop ts interval has_ctx session' result' w'))))"

definition unclean :: "generation_watermark list \<Rightarrow> generation_watermark list" where
  "unclean ws = filter (\<lambda>w. \<not> wm_Closed w) ws"

definition notify_unclean :: "'w source_session option \<Rightarrow> generation_watermark list \<Rightarrow> 'w \<Rightarrow> 'w" where
  "notify_unclean session ws w =
     (case session of
        None \<Rightarrow> w
      | Some s \<Rightarrow>
          if ws = [] then w
          else session_notify s \<lparr>Kind = SourceEventDiscontinuity, Count = length ws,
                                 Reason = Some SourceDiscontinuityUncleanClose\<rparr> w)"

definition DrainSource ::
    "drain_turn list \<Rightarrow> pass_view list \<Rightarrow> pass_view \<Rightarrow> int \<Rightarrow> int \<Rightarrow> bool \<Rightarrow> 'w source_session option \<Rightarrow> 'w
      \<Rightarrow> (error option \<times> source_drain_result \<times> 'w source_session option \<times> 'w \<times> fd_event list) option" where
  "DrainSource turns final_passes last_view timeout interval has_ctx session w =
     (let nothing = \<lparr>sd_Live = zero_live, UncleanGenerations = []\<rparr>
      in if session = None then Some (Some (Text ''source session is required''), nothing, session, w, [])
         else if \<not> has_ctx then Some (Some (Text ''drain context is required''), nothing, session, w, [])
         else if timeout \<le> 0
         then Some (Some (Text ''source drain timeout must be positive''), nothing, session, w, [])
         else if interval \<le> 0
         then Some (Some (Text ''source drain rescan interval must be positive''), nothing, session, w, [])
         else (case drain_source_loop turns interval has_ctx session zero_live w of
                 None \<Rightarrow> None
               | Some (DrainFailed e, result, session1, w1, evs1) \<Rightarrow>
                   Some (Some e, \<lparr>sd_Live = result, UncleanGenerations = []\<rparr>, session1, w1, evs1)
               | Some (DeadlineReached, result, session1, w1, evs1) \<Rightarrow>
                   (case Reconcile final_passes has_ctx session1 w1 of
                      None \<Rightarrow> None
                    | Some (err, finalResult, session2, w2, evs2) \<Rightarrow>
                        (let live = mergeLiveResult result finalResult
                         in if (case err of None \<Rightarrow> False | Some e \<Rightarrow> \<not> errors_is Context_Canceled e)
                            then Some (err, \<lparr>sd_Live = live, UncleanGenerations = []\<rparr>, session2, w2, evs1 @ evs2)
                            else (let ws = unclean (CurrentWatermarks last_view session2)
                                  in Some (err, \<lparr>sd_Live = live, UncleanGenerations = ws\<rparr>, session2,
                                           notify_unclean session2 ws w2, evs1 @ evs2))))))"

section \<open>Running\<close>

record run_result =
  rr_Live :: live_result
  Reconciliations :: nat
  SourceEnd :: "error option"
  rr_Drain :: source_drain_result

definition zero_run :: run_result where
  "zero_run = \<lparr>rr_Live = zero_live, Reconciliations = 0, SourceEnd = None,
     rr_Drain = \<lparr>sd_Live = zero_live, UncleanGenerations = []\<rparr>\<rparr>"

record run_turn =
  rt_wait :: "wait_answer list"
  rt_lookup :: "(int \<Rightarrow> error + process_identity) option"
  rt_passes :: "pass_view list"
  rt_drain :: "drain_turn list"
  rt_final :: "pass_view list"
  rt_last :: pass_view

fun run_loop ::
    "run_turn list \<Rightarrow> int \<Rightarrow> int \<Rightarrow> 'w source_session \<Rightarrow> run_result \<Rightarrow> 'w
      \<Rightarrow> (error option \<times> run_result \<times> 'w source_session \<times> 'w \<times> fd_event list) option" where
  "run_loop [] interval timeout s result w = None"
| "run_loop (t # ts) interval timeout s result w =
     (case watcher_Wait (rt_wait t) True interval (Some (ss_watcher s)) of
        None \<Rightarrow> None
      | Some (Inl e, _) \<Rightarrow> Some (Some e, result, s, w, [])
      | Some (Inr _, _) \<Rightarrow>
          (case verifyProcessIdentity (ss_identity s) (rt_lookup t) of
             Some identityErr \<Rightarrow>
               if \<not> errors_is ErrSourceSessionEnded identityErr
               then Some (Some identityErr, result, s, w, [])
               else (case DrainSource (rt_drain t) (rt_final t) (rt_last t) timeout interval True (Some s) w of
                       None \<Rightarrow> None
                     | Some (e, drained, session', w', evs) \<Rightarrow>
                         Some (e, result\<lparr>SourceEnd := Some identityErr, rr_Drain := drained\<rparr>,
                               the session', w', evs))
           | None \<Rightarrow>
               (case Reconcile (rt_passes t) True (Some s) w of
                  None \<Rightarrow> None
                | Some (e, reconciled, session', w', evs) \<Rightarrow>
                    (let result' = result\<lparr>rr_Live := mergeLiveResult (rr_Live result) reconciled\<rparr>
                     in case e of
                          Some err \<Rightarrow> Some (Some err, result', the session', w', evs)
                        | None \<Rightarrow>
                            map_option (\<lambda>(e, r, s', w'', evs'). (e, r, s', w'', evs @ evs'))
                              (run_loop ts interval timeout (the session')
                                 (result'\<lparr>Reconciliations := Reconciliations result' + 1\<rparr>) w')))))"

definition session_Run ::
    "run_turn list \<Rightarrow> bool \<Rightarrow> int \<Rightarrow> int \<Rightarrow> 'w source_session option \<Rightarrow> 'w
      \<Rightarrow> (error option \<times> run_result \<times> 'w source_session option \<times> 'w \<times> fd_event list) option" where
  "session_Run turns has_ctx interval timeout session w =
     (case session of
        None \<Rightarrow> Some (Some (Text ''source session is required''), zero_run, None, w, [])
      | Some s \<Rightarrow>
          if \<not> has_ctx then Some (Some (Text ''run context is required''), zero_run, Some s, w, [])
          else if interval \<le> 0
          then Some (Some (Text ''rescan interval must be positive''), zero_run, Some s, w, [])
          else if timeout \<le> 0
          then Some (Some (Text ''source drain timeout must be positive''), zero_run, Some s, w, [])
          else map_option (\<lambda>(e, r, s', w', evs). (e, r, Some s', w', evs))
                 (run_loop turns interval timeout s zero_run w))"

section \<open>Accessors\<close>

definition zero_identity :: process_identity where
  "zero_identity = \<lparr>BootID = [], PID = 0, StartTicks = 0, CreationTime = zero_time\<rparr>"

definition session_Identity :: "'w source_session option \<Rightarrow> process_identity" where
  "session_Identity session = (case session of None \<Rightarrow> zero_identity | Some s \<Rightarrow> ss_identity s)"

definition session_Cutover :: "'w source_session option \<Rightarrow> generation_watermark list" where
  "session_Cutover session = (case session of None \<Rightarrow> [] | Some s \<Rightarrow> ss_cutover s)"

definition session_Overflows :: "'w source_session option \<Rightarrow> u64" where
  "session_Overflows session = (case session of None \<Rightarrow> 0 | Some s \<Rightarrow> ss_overflows s)"

definition VerifyIdentity ::
    "(int \<Rightarrow> error + process_identity) \<Rightarrow> 'w source_session option \<Rightarrow> error option" where
  "VerifyIdentity lookup session =
     (case session of
        None \<Rightarrow> Some (Sentinel ErrSourceSessionEnded)
      | Some s \<Rightarrow> verifyProcessIdentity (session_Identity (Some s)) (Some lookup))"

end
