(* ===== verification/Session_Facts.thy ===== *)
theory Session_Facts
  imports Session
begin

text \<open>
  What the operations of the source session keep: the descriptors the session owns, the trace of
  what it did to its handler and observer, and how that trace accounts for the bytes of every
  generation.
\<close>

section \<open>Effects\<close>

text \<open>
  The abstract session: a sequence of records the handler accepted, each of one generation in one
  mode, and of events the observer was given.  A handler may refuse records in between.
\<close>

datatype session_effect = Applied generation_id record_mode source_record | Notified source_event

inductive effects ::
    "'w record_handler \<Rightarrow> 'w source_observer option \<Rightarrow> session_effect list \<Rightarrow> 'w \<Rightarrow> 'w \<Rightarrow> bool"
  for h obs where
  effects_none: "effects h obs [] w w"
| effects_applied: "h m r w = (None, w1) \<Longrightarrow> effects h obs es w1 w2 \<Longrightarrow> effects h obs (Applied g m r # es) w w2"
| effects_refused: "h m r w = (Some e, w1) \<Longrightarrow> effects h obs es w1 w2 \<Longrightarrow> effects h obs es w w2"
| effects_notified:
    "obs = Some ob \<Longrightarrow> 0 < Count ev \<Longrightarrow> effects h obs es (ob ev w) w2 \<Longrightarrow> effects h obs (Notified ev # es) w w2"

declare effects_none [simp, intro]

lemma effects_append: "effects h obs es w w1 \<Longrightarrow> effects h obs fs w1 w2 \<Longrightarrow> effects h obs (es @ fs) w w2"
  by (induction rule: effects.induct) (auto intro: effects.intros)

lemma handled_effects: "handled (h m) rs w w' \<Longrightarrow> effects h obs (map (Applied g m) rs) w w'"
  by (induction rule: handled.induct) (auto intro: effects.intros)

text \<open>The records of one generation, and the events, in a trace.\<close>

fun records_of :: "generation_id \<Rightarrow> session_effect list \<Rightarrow> source_record list" where
  "records_of g [] = []"
| "records_of g (Applied g' m r # es) = (if g' = g then r # records_of g es else records_of g es)"
| "records_of g (Notified ev # es) = records_of g es"

fun events_of :: "session_effect list \<Rightarrow> source_event list" where
  "events_of [] = []"
| "events_of (Applied g m r # es) = events_of es"
| "events_of (Notified ev # es) = ev # events_of es"

fun modes_of :: "session_effect list \<Rightarrow> record_mode list" where
  "modes_of [] = []"
| "modes_of (Applied g m r # es) = m # modes_of es"
| "modes_of (Notified ev # es) = modes_of es"

lemma trace_append [simp]:
  "records_of g (es @ fs) = records_of g es @ records_of g fs"
  "events_of (es @ fs) = events_of es @ events_of fs"
  "modes_of (es @ fs) = modes_of es @ modes_of fs"
  by (induction es rule: events_of.induct) auto

lemma trace_applied [simp]:
  "records_of g (map (Applied g' m) rs) = (if g' = g then rs else [])"
  "events_of (map (Applied g' m) rs) = []"
  "modes_of (map (Applied g' m) rs) = replicate (length rs) m"
  by (induction rs) auto

section \<open>Accounting\<close>

text \<open>
  \<open>c\<close> gives the contents of every generation's report.  A reader has read a prefix of it, and its
  decoder accounts for exactly the records of the trace that are its generation's.
\<close>

definition accounted_readers ::
    "(generation_id \<Rightarrow> bytes) \<Rightarrow> readers \<Rightarrow> session_effect list \<Rightarrow> bool" where
  "accounted_readers c rs tr \<longleftrightarrow>
     (\<forall>g. case rs g of
        None \<Rightarrow> records_of g tr = []
      | Some rd \<Rightarrow> \<exists>s. prefix s (c g) \<and> reader_inv rd s (records_of g tr))"

lemma accounted_readersD:
  assumes "accounted_readers c rs tr"
  shows "rs g = None \<Longrightarrow> records_of g tr = []"
    and "rs g = Some rd \<Longrightarrow> \<exists>s. prefix s (c g) \<and> reader_inv rd s (records_of g tr)"
proof -
  from assms have g: "case rs g of None \<Rightarrow> records_of g tr = []
      | Some rd \<Rightarrow> \<exists>s. prefix s (c g) \<and> reader_inv rd s (records_of g tr)"
    unfolding accounted_readers_def by blast
  show "rs g = None \<Longrightarrow> records_of g tr = []"
    and "rs g = Some rd \<Longrightarrow> \<exists>s. prefix s (c g) \<and> reader_inv rd s (records_of g tr)"
    using g by simp_all
qed

definition accounted :: "(generation_id \<Rightarrow> bytes) \<Rightarrow> generation_registry \<Rightarrow> session_effect list \<Rightarrow> bool" where
  "accounted c reg tr \<longleftrightarrow>
     (case reg_readers reg of None \<Rightarrow> True | Some rs \<Rightarrow> accounted_readers c rs tr)"

definition honest_pass :: "(generation_id \<Rightarrow> bytes) \<Rightarrow> pass_view \<Rightarrow> bool" where
  "honest_pass c pv \<longleftrightarrow>
     (\<forall>g. \<forall>v \<in> set (pv_files pv g). honest (c g) v)
     \<and> (\<forall>rs. finite (dom rs) \<longrightarrow> enumerates (pv_range pv rs) rs)"

lemma reader_inv_rotation [simp]: "reader_inv (rd\<lparr>rotation := r\<rparr>) s applied = reader_inv rd s applied"
  by (simp add: reader_inv_def)

lemma accounted_register:
  assumes "accounted_readers c rs tr" "keeps_readers rs rs'"
    and "\<forall>g rd. rs g = None \<and> rs' g = Some rd \<longrightarrow> reader_inv rd [] []"
  shows "accounted_readers c rs' tr"
proof -
  have "case rs' g of None \<Rightarrow> records_of g tr = []
      | Some rd \<Rightarrow> \<exists>s. prefix s (c g) \<and> reader_inv rd s (records_of g tr)" for g
  proof (cases "rs g")
    case None
    then have "records_of g tr = []" using accounted_readersD(1) [OF assms(1)] by simp
    with assms(3) None show ?thesis by (auto split: option.split intro: exI [of _ "[]"])
  next
    case (Some rd)
    then obtain r where "rs' g = Some (rd\<lparr>rotation := r\<rparr>)"
      using assms(2) by (auto simp: keeps_readers_def)
    with accounted_readersD(2) [OF assms(1) Some] show ?thesis by simp
  qed
  then show ?thesis by (simp add: accounted_readers_def)
qed

lemma accounted_put:
  assumes "accounted_readers c rs tr" "rs g = Some rd"
    and "\<And>s. prefix s (c g) \<Longrightarrow> reader_inv rd s (records_of g tr) \<Longrightarrow>
           \<exists>s'. prefix s' (c g) \<and> reader_inv rd' s' (records_of g tr @ rs0)"
  shows "accounted_readers c (rs(g \<mapsto> rd')) (tr @ map (Applied g m) rs0)"
  unfolding accounted_readers_def
proof (intro allI)
  fix g'
  show "case (rs(g \<mapsto> rd')) g' of None \<Rightarrow> records_of g' (tr @ map (Applied g m) rs0) = []
      | Some rd \<Rightarrow> \<exists>s. prefix s (c g') \<and> reader_inv rd s (records_of g' (tr @ map (Applied g m) rs0))"
  proof (cases "g' = g")
    case True
    from accounted_readersD(2) [OF assms(1,2)] obtain s where
      "prefix s (c g)" "reader_inv rd s (records_of g tr)" by blast
    from assms(3) [OF this] True show ?thesis by simp
  next
    case False
    with accounted_readersD [OF assms(1), of g'] show ?thesis by (simp split: option.split)
  qed
qed

section \<open>Draining every reader\<close>

definition all_filed :: "readers \<Rightarrow> generation_reader list \<Rightarrow> bool" where
  "all_filed rs rds \<longleftrightarrow> list_all (\<lambda>rd. rs (generation_of rd) = Some rd) rds \<and> distinct (map generation_of rds)"

lemma oldestFirst_filed:
  assumes "registry_ok reg" "reg_readers reg = Some rs" "enumerates order rs"
  shows "all_filed rs (oldestFirst order reg)"
  using oldestFirst_spec [OF assms] by (simp add: all_filed_def)

lemma all_filed_put:
  "all_filed rs (rd # rds) \<Longrightarrow> all_filed (rs(generation_of rd \<mapsto> rd')) rds"
  unfolding all_filed_def list_all_iff
  by (metis distinct.simps(2) fun_upd_other imageI list.set_intros(2) list.set_map list.simps(9))

lemma same_report_generation: "same_report rd rd' \<Longrightarrow> generation_of rd' = generation_of rd"
  by (simp add: same_report_def generation_of_def)

definition same_registry :: "generation_registry \<Rightarrow> generation_registry \<Rightarrow> bool" where
  "same_registry reg reg' \<longleftrightarrow>
     registry_ok reg' \<and> registry_owned reg' = registry_owned reg
     \<and> (reg_readers reg' = None \<longleftrightarrow> reg_readers reg = None)
     \<and> map_option dom (reg_readers reg') = map_option dom (reg_readers reg)
     \<and> reg_maxRecordBytes reg' = reg_maxRecordBytes reg"

lemma same_registry_trans: "same_registry reg reg1 \<Longrightarrow> same_registry reg1 reg2 \<Longrightarrow> same_registry reg reg2"
  by (simp add: same_registry_def)

lemma put_reader_same:
  assumes "registry_ok reg" "reg_readers reg = Some rs" "rs (generation_of rd) = Some rd" "same_report rd rd'"
  shows "put_reader (Some rd') reg = reg\<lparr>reg_readers := Some (rs(generation_of rd \<mapsto> rd'))\<rparr>"
    and "same_registry reg (put_reader (Some rd') reg)"
proof -
  have g: "generation_of rd' = generation_of rd" using assms(4) by (rule same_report_generation)
  show put: "put_reader (Some rd') reg = reg\<lparr>reg_readers := Some (rs(generation_of rd \<mapsto> rd'))\<rparr>"
    by (simp add: put_reader_def assms(2) g)
  have "readers_owned (rs(generation_of rd \<mapsto> rd')) = readers_owned rs"
    using assms(3,4) by (intro readers_owned_same) (auto simp: same_report_def)
  moreover have "dom (rs(generation_of rd \<mapsto> rd')) = dom rs" using assms(3) by auto
  moreover have "\<exists>rf. report rd' = Some rf \<and> Generation rf = generation_of rd"
    using assms(1,2,3,4) by (fastforce simp: registry_ok_def same_report_def)
  ultimately show "same_registry reg (put_reader (Some rd') reg)"
    using assms(1,2) unfolding put same_registry_def
    by (auto simp: registry_ok_def registry_owned_def)
qed

lemma drain_readers_same:
  assumes "drain_readers f files rds reg res w = Some (e, reg', res', w')"
    and "registry_ok reg" "reg_readers reg = Some rs" "all_filed rs rds"
  shows "same_registry reg reg'"
  using assms
proof (induction rds arbitrary: reg rs res w)
  case Nil
  then show ?case by (simp add: same_registry_def)
next
  case (Cons rd rds)
  obtain de rdo drained w1 where d: "drain (Some f) (files (generation_of rd)) (Some rd) w = Some (de, rdo, drained, w1)"
    using Cons.prems(1) by (auto split: option.splits)
  from drain_inv [OF d] obtain rd' where rd': "rdo = Some rd'" "same_report rd rd'" by blast
  have filed: "rs (generation_of rd) = Some rd" using Cons.prems(4) by (simp add: all_filed_def)
  note put = put_reader_same [OF Cons.prems(2,3) filed rd'(2)]
  show ?case
  proof (cases de)
    case (Some x)
    with Cons.prems(1) d rd'(1) put(2) show ?thesis by auto
  next
    case None
    define res1 where "res1 = res\<lparr>lr_Records := lr_Records res + dr_records drained,
        lr_Bytes := lr_Bytes res + dr_bytes drained\<rparr>"
    have run: "drain_readers f files rds (put_reader (Some rd') reg) res1 w1 = Some (e, reg', res', w')"
      using Cons.prems(1) d rd'(1) None by (simp add: res1_def)
    have "registry_ok (put_reader (Some rd') reg)" using put(2) by (simp add: same_registry_def)
    moreover have "reg_readers (put_reader (Some rd') reg) = Some (rs(generation_of rd \<mapsto> rd'))"
      by (simp add: put(1))
    ultimately have "same_registry (put_reader (Some rd') reg) reg'"
      using Cons.IH [OF run] all_filed_put [OF Cons.prems(4)] by blast
    with put(2) show ?thesis by (rule same_registry_trans)
  qed
qed

lemma drain_readers_trace:
  assumes "drain_readers (h m) files rds reg res w = Some (e, reg', res', w')"
    and "registry_ok reg" "reg_readers reg = Some rs" "all_filed rs rds"
    and "accounted_readers c rs tr" "\<And>g v. v \<in> set (files g) \<Longrightarrow> honest (c g) v"
  shows "\<exists>es. effects h obs es w w' \<and> accounted c reg' (tr @ es)
    \<and> events_of es = [] \<and> set (modes_of es) \<subseteq> {m}
    \<and> NewGenerations res' = NewGenerations res \<and> NotificationOverflows res' = NotificationOverflows res
    \<and> lr_Records res' \<le> lr_Records res + length (modes_of es)
    \<and> (e = None \<longrightarrow> lr_Records res' = lr_Records res + length (modes_of es))"
  using assms
proof (induction rds arbitrary: reg rs res w tr)
  case Nil
  then show ?case by (intro exI [of _ "[]"]) (simp add: accounted_def)
next
  case (Cons rd rds)
  obtain de rdo drained w1 where d: "drain (Some (h m)) (files (generation_of rd)) (Some rd) w = Some (de, rdo, drained, w1)"
    using Cons.prems(1) by (auto split: option.splits)
  let ?g = "generation_of rd"
  have filed: "rs ?g = Some rd" using Cons.prems(4) by (simp add: all_filed_def)
  obtain s0 where s0: "prefix s0 (c ?g)" "reader_inv rd s0 (records_of ?g tr)"
    using accounted_readersD(2) [OF Cons.prems(5) filed] by blast
  from drain_inv [OF d, of "c ?g"] s0 Cons.prems(6) obtain rd' bs rs0 where
    rd': "rdo = Some rd'" "same_report rd rd'" and
    one: "handled (h m) rs0 w w1" "prefix (s0 @ bs) (c ?g)" "reader_inv rd' (s0 @ bs) (records_of ?g tr @ rs0)"
      "dr_records drained = length rs0" by blast
  note put = put_reader_same [OF Cons.prems(2,3) filed rd'(2)]
  let ?es = "map (Applied ?g m) rs0" and ?rs = "rs(?g \<mapsto> rd')"
  have eff: "effects h obs ?es w w1" using one(1) by (rule handled_effects)
  have acc: "accounted_readers c ?rs (tr @ ?es)"
    using Cons.prems(5) filed by (rule accounted_put) (use one(2,3) in blast)
  show ?case
  proof (cases de)
    case (Some x)
    with Cons.prems(1) d rd'(1) put(1) have "reg' = reg\<lparr>reg_readers := Some ?rs\<rparr>" "res' = res" "w' = w1" "e \<noteq> None"
      by auto
    with eff acc show ?thesis by (intro exI [of _ ?es]) (auto simp: accounted_def)
  next
    case None
    define res1 where "res1 = res\<lparr>lr_Records := lr_Records res + dr_records drained,
        lr_Bytes := lr_Bytes res + dr_bytes drained\<rparr>"
    have run: "drain_readers (h m) files rds (put_reader (Some rd') reg) res1 w1 = Some (e, reg', res', w')"
      using Cons.prems(1) d rd'(1) None by (simp add: res1_def)
    have ok: "registry_ok (put_reader (Some rd') reg)" using put(2) by (simp add: same_registry_def)
    have rs': "reg_readers (put_reader (Some rd') reg) = Some ?rs" by (simp add: put(1))
    from Cons.IH [OF run ok rs' all_filed_put [OF Cons.prems(4)] acc Cons.prems(6)] obtain es where
      "effects h obs es w1 w'" "accounted c reg' ((tr @ ?es) @ es)" "events_of es = []" "set (modes_of es) \<subseteq> {m}"
      "NewGenerations res' = NewGenerations res" "NotificationOverflows res' = NotificationOverflows res"
      "lr_Records res' \<le> lr_Records res + length rs0 + length (modes_of es)"
      "e = None \<longrightarrow> lr_Records res' = lr_Records res + length rs0 + length (modes_of es)"
      by (auto simp: res1_def one(4))
    with eff show ?thesis
      by (intro exI [of _ "?es @ es"]) (auto intro: effects_append)
  qed
qed

section \<open>One pass\<close>

definition watcher_fds :: "directory_watcher \<Rightarrow> nat multiset" where
  "watcher_fds w = (case w_fd w of None \<Rightarrow> {#} | Some fd \<Rightarrow> {#fd#})"

definition session_owned :: "'w source_session \<Rightarrow> nat multiset" where
  "session_owned s = watcher_fds (ss_watcher s) + registry_owned (ss_registry s)"

definition session_ok :: "'w source_session \<Rightarrow> bool" where
  "session_ok s \<longleftrightarrow> registry_ok (ss_registry s) \<and> (ss_closed s \<longleftrightarrow> reg_readers (ss_registry s) = None)
     \<and> (ss_closed s \<longrightarrow> w_fd (ss_watcher s) = None)"

text \<open>A pass changes the registry and the overflow count only.\<close>

definition same_session :: "'w source_session \<Rightarrow> 'w source_session \<Rightarrow> bool" where
  "same_session s s' \<longleftrightarrow>
     ss_directory s' = ss_directory s \<and> ss_identity s' = ss_identity s \<and> ss_watcher s' = ss_watcher s
     \<and> ss_handle s' = ss_handle s \<and> ss_observer s' = ss_observer s \<and> ss_cutover s' = ss_cutover s
     \<and> ss_closed s' = ss_closed s
     \<and> reg_maxRecordBytes (ss_registry s') = reg_maxRecordBytes (ss_registry s)"

lemma same_session_refl [simp]: "same_session s s"
  by (simp add: same_session_def)

lemma same_session_trans: "same_session s s' \<Longrightarrow> same_session s' s'' \<Longrightarrow> same_session s s''"
  by (simp add: same_session_def)

definition ranges :: "pass_view \<Rightarrow> bool" where
  "ranges pv \<longleftrightarrow> (\<forall>rs. finite (dom rs) \<longrightarrow> enumerates (pv_range pv rs) rs)"

lemma range_of_enumerates:
  "ranges pv \<Longrightarrow> registry_ok reg \<Longrightarrow> reg_readers reg = Some rs \<Longrightarrow> enumerates (range_of pv reg) rs"
  by (simp add: ranges_def registry_ok_def range_of_def)

lemma source_pass_cases [consumes 1, case_names scan register drained]:
  assumes "source_pass m pv s res w = Some (r, s', res', w', evs)"
  obtains (scan) e where "ScanReports (pv_scan pv) (Some (ss_directory s)) (ss_identity s) = (Inl e, evs)"
      "r = Inl e" "s' = s" "res' = res" "w' = w"
    | (register) e ds evs1 n reg evs2
      where "ScanReports (pv_scan pv) (Some (ss_directory s)) (ss_identity s) = (Inr ds, evs1)"
        "register (ss_registry s) ds = (Some e, n, reg, evs2)" "evs = evs1 @ evs2"
        "r = Inl e" "s' = s\<lparr>ss_registry := reg\<rparr>" "res' = res" "w' = w"
    | (drained) de ds evs1 n reg evs2 reg2 res2 ov
      where "ScanReports (pv_scan pv) (Some (ss_directory s)) (ss_identity s) = (Inr ds, evs1)"
        "register (ss_registry s) ds = (None, n, reg, evs2)" "evs = evs1 @ evs2"
        "drain_readers (ss_handle s m) (pv_files pv) (oldestFirst (range_of pv reg) reg) reg
           (res\<lparr>NewGenerations := NewGenerations res + n\<rparr>)
           (if m = RecordModeLive \<and> 0 < n then session_notify s (rotation_event n) w else w)
           = Some (de, reg2, res2, w')"
        "s' = s\<lparr>ss_registry := reg2, ss_overflows := ov\<rparr>"
        "NewGenerations res' = NewGenerations res2" "lr_Records res' = lr_Records res2"
        "case r of Inl e \<Rightarrow> (case de of None \<Rightarrow> True | Some x \<Rightarrow> e = x)
           | Inr (n', changed) \<Rightarrow> de = None \<and> n' = n
               \<and> (\<exists>events. watcher_Drain (pv_events pv) (Some (ss_watcher s)) = Some (None, events)
                    \<and> changed = Changed events \<and> \<not> Invalidated events)"
proof -
  obtain sr evs1 where sc: "ScanReports (pv_scan pv) (Some (ss_directory s)) (ss_identity s) = (sr, evs1)"
    by force
  show ?thesis
  proof (cases sr)
    case (Inl e)
    with assms sc show ?thesis by (intro scan) (auto simp: source_pass_def)
  next
    case (Inr ds)
    obtain re n reg evs2 where rg: "register (ss_registry s) ds = (re, n, reg, evs2)" by (metis surj_pair)
    show ?thesis
    proof (cases re)
      case (Some e)
      with assms sc Inr rg show ?thesis by (intro register) (auto simp: source_pass_def)
    next
      case None
      let ?w = "if m = RecordModeLive \<and> 0 < n then session_notify s (rotation_event n) w else w"
      obtain de reg2 res2 w2 where dr: "drain_readers (ss_handle s m) (pv_files pv)
          (oldestFirst (range_of pv reg) reg) reg (res\<lparr>NewGenerations := NewGenerations res + n\<rparr>) ?w
          = Some (de, reg2, res2, w2)"
      proof (cases "drain_readers (ss_handle s m) (pv_files pv)
          (oldestFirst (range_of pv reg) reg) reg (res\<lparr>NewGenerations := NewGenerations res + n\<rparr>) ?w")
        case none: None
        from assms sc Inr rg None none have False
          by (simp add: source_pass_def)
        then show ?thesis ..
      next
        case (Some t)
        then show ?thesis using that by (cases t) auto
      qed
      show ?thesis
      proof (cases de)
        case (Some x)
        have reg2: "s\<lparr>ss_registry := reg2\<rparr> = s\<lparr>ss_registry := reg2, ss_overflows := ss_overflows s\<rparr>" by simp
        from assms sc Inr rg None dr Some have "r = Inl x" "s' = s\<lparr>ss_registry := reg2\<rparr>" "res' = res2"
          "w' = w2" "evs = evs1 @ evs2"
          by (auto simp: source_pass_def Let_def)
        with sc Inr rg None dr Some reg2 show ?thesis
          by (intro drained [of ds evs1 n reg evs2 de reg2 res2 "ss_overflows s"]) auto
      next
        case de: None
        obtain we events where wd: "watcher_Drain (pv_events pv) (Some (ss_watcher s)) = Some (we, events)"
          using assms sc Inr rg None dr de
          by (auto simp: source_pass_def Let_def split: option.splits)
        define fin where "fin = (we = None \<and> \<not> Invalidated events)"
        have run: "r = (if fin then Inr (n, Changed events) else Inl (case we of Some e \<Rightarrow> e | None \<Rightarrow> Sentinel ErrWatcherInvalidated))"
          "s' = s\<lparr>ss_registry := reg2, ss_overflows := (if fin then ss_overflows s + (if Overflowed events then 1 else 0) else ss_overflows s)\<rparr>"
          "NewGenerations res' = NewGenerations res2" "lr_Records res' = lr_Records res2"
          "w' = w2" "evs = evs1 @ evs2"
          using assms sc Inr rg None dr de wd unfolding fin_def
          by (auto simp: source_pass_def Let_def split: option.splits if_splits)
        with sc Inr rg None dr de wd show ?thesis
          by (intro drained) (auto simp: fin_def)
      qed
    qed
  qed
qed

lemma register_session:
  assumes "register (ss_registry s) ds = (e, n, reg, evs)" "session_ok s" "\<not> ss_closed s"
  obtains rs rs' where "reg_readers (ss_registry s) = Some rs" "reg_readers reg = Some rs'" "registry_ok reg"
    "fd_flow (owned ds + registry_owned (ss_registry s)) evs (registry_owned reg)" "keeps_readers rs rs'"
    "\<forall>g rd. rs g = None \<and> rs' g = Some rd \<longrightarrow> reader_inv rd [] []"
    "card (dom rs') = card (dom rs) + n"
proof -
  have ok: "registry_ok (ss_registry s)" and "reg_readers (ss_registry s) \<noteq> None"
    using assms(2,3) by (simp_all add: session_ok_def)
  then obtain rs where rs: "reg_readers (ss_registry s) = Some rs" by blast
  from register_ok [OF assms(1) ok, unfolded rs] rs show ?thesis by (auto intro: that)
qed

lemma source_pass_ok:
  assumes "source_pass m pv s res w = Some (r, s', res', w', evs)"
    and "session_ok s" "\<not> ss_closed s" "ranges pv"
  shows "session_ok s' \<and> same_session s s' \<and> fd_flow (session_owned s) evs (session_owned s')"
  using assms(1)
proof (cases rule: source_pass_cases)
  case (scan e)
  with ScanReports_ok [OF scan(1)] fd_flow_frame [of "{#}" evs "{#}" "session_owned s"] assms(2)
  show ?thesis by simp
next
  case (register e ds evs1 n reg evs2)
  from register(2) assms(2,3) obtain rs rs' where g: "reg_readers (ss_registry s) = Some rs"
    "reg_readers reg = Some rs'" "registry_ok reg"
    "fd_flow (owned ds + registry_owned (ss_registry s)) evs2 (registry_owned reg)"
    by (rule register_session)
  have "fd_flow (session_owned s) evs1 (owned ds + session_owned s)"
    using ScanReports_ok [OF register(1)] fd_flow_frame [of "{#}" evs1 "owned ds" "session_owned s"] by simp
  moreover have "fd_flow (owned ds + session_owned s) evs2 (session_owned s')"
    using fd_flow_frame [OF g(4), of "watcher_fds (ss_watcher s)"] register(5)
    by (simp add: session_owned_def ac_simps)
  ultimately have "fd_flow (session_owned s) evs (session_owned s')"
    unfolding register(3) by (rule fd_flow_append)
  with g assms(2,3) register(5) register_max [OF register(2)] show ?thesis
    by (auto simp: session_ok_def same_session_def)
next
  case (drained de ds evs1 n reg evs2 reg2 res2 ov)
  from drained(2) assms(2,3) obtain rs rs' where g: "reg_readers (ss_registry s) = Some rs"
    "reg_readers reg = Some rs'" "registry_ok reg"
    "fd_flow (owned ds + registry_owned (ss_registry s)) evs2 (registry_owned reg)"
    by (rule register_session)
  have "all_filed rs' (oldestFirst (range_of pv reg) reg)"
    by (rule oldestFirst_filed [OF g(3,2) range_of_enumerates [OF assms(4) g(3,2)]])
  from drain_readers_same [OF drained(4) g(3,2) this] have same: "same_registry reg reg2" .
  have "fd_flow (session_owned s) evs1 (owned ds + session_owned s)"
    using ScanReports_ok [OF drained(1)] fd_flow_frame [of "{#}" evs1 "owned ds" "session_owned s"] by simp
  moreover have "fd_flow (owned ds + session_owned s) evs2 (session_owned s')"
    using fd_flow_frame [OF g(4), of "watcher_fds (ss_watcher s)"] drained(5) same
    by (simp add: session_owned_def same_registry_def ac_simps)
  ultimately have "fd_flow (session_owned s) evs (session_owned s')"
    unfolding drained(3) by (rule fd_flow_append)
  with g same assms(2,3) drained(5) register_max [OF drained(2)] show ?thesis
    by (auto simp: session_ok_def same_session_def same_registry_def)
qed

text \<open>The generations a registry holds, and the rotations an observer was told of.\<close>

definition generations :: "generation_registry \<Rightarrow> nat" where
  "generations reg = (case reg_readers reg of None \<Rightarrow> 0 | Some rs \<Rightarrow> card (dom rs))"

lemma generations_same: "same_registry reg reg' \<Longrightarrow> generations reg' = generations reg"
  by (cases "reg_readers reg"; cases "reg_readers reg'") (auto simp: same_registry_def generations_def)

definition rotations_told :: "source_event list \<Rightarrow> nat" where
  "rotations_told evs = sum_list (map Count (filter (\<lambda>ev. source_event.Kind ev = SourceEventRotations) evs))"

lemma rotations_told_simps [simp]:
  "rotations_told [] = 0" "rotations_told (evs @ evs') = rotations_told evs + rotations_told evs'"
  by (simp_all add: rotations_told_def)

text \<open>The trace of a pass; \<open>n\<close> generations were new.\<close>

definition pass_events :: "record_mode \<Rightarrow> 'w source_observer option \<Rightarrow> nat \<Rightarrow> source_event list" where
  "pass_events m obs n = (if m = RecordModeLive \<and> 0 < n \<and> obs \<noteq> None then [rotation_event n] else [])"

lemma notify_effects:
  "effects h (ss_observer s) (map Notified (pass_events m (ss_observer s) n)) w
     (if m = RecordModeLive \<and> 0 < n then session_notify s (rotation_event n) w else w)"
  by (auto simp: pass_events_def session_notify_def rotation_event_def
      intro!: effects_notified split: option.splits)

lemma trace_notified [simp]:
  "records_of g (map Notified evs) = []" "events_of (map Notified evs) = evs" "modes_of (map Notified evs) = []"
  by (induction evs) auto

lemma accounted_notified: "accounted_readers c rs (tr @ map Notified evs) = accounted_readers c rs tr"
  unfolding accounted_readers_def trace_append trace_notified append_Nil2 ..

lemma source_pass_trace:
  assumes "source_pass m pv s res w = Some (r, s', res', w', evs)"
    and "session_ok s" "\<not> ss_closed s" "honest_pass c pv" "accounted c (ss_registry s) tr"
  shows "\<exists>es n. effects (ss_handle s) (ss_observer s) es w w' \<and> accounted c (ss_registry s') (tr @ es)
    \<and> set (modes_of es) \<subseteq> {m} \<and> events_of es = pass_events m (ss_observer s) n
    \<and> NewGenerations res' = NewGenerations res + n
    \<and> lr_Records res' \<le> lr_Records res + length (modes_of es)
    \<and> (case r of Inl e \<Rightarrow> True
        | Inr (n', changed) \<Rightarrow> n' = n \<and> lr_Records res' = lr_Records res + length (modes_of es))
    \<and> (0 < reg_maxRecordBytes (ss_registry s) \<longrightarrow>
         generations (ss_registry s') = generations (ss_registry s) + n)"
  using assms(1)
proof (cases rule: source_pass_cases)
  case (scan e)
  with assms(5) show ?thesis
    by (intro exI [of _ "[]"] exI [of _ 0]) (simp add: pass_events_def)
next
  case (register e ds evs1 n reg evs2)
  from register(2) assms(2,3) obtain rs rs' where g: "reg_readers (ss_registry s) = Some rs"
    "reg_readers reg = Some rs'" "keeps_readers rs rs'"
    "\<forall>g rd. rs g = None \<and> rs' g = Some rd \<longrightarrow> reader_inv rd [] []"
    by (rule register_session)
  have "accounted c reg tr" using accounted_register [OF _ g(3,4)] assms(5) g by (simp add: accounted_def)
  moreover have "list_all (\<lambda>d. Report d \<noteq> None) ds"
    using ScanReports_ok [OF register(1)] by (auto simp: seen_ok_def list_all_iff)
  then have "\<not> 0 < reg_maxRecordBytes (ss_registry s)"
    using register_accepts [OF register(2)] g(1) by auto
  ultimately show ?thesis using register
    by (intro exI [of _ "[]"] exI [of _ 0]) (simp add: pass_events_def)
next
  case (drained de ds evs1 n reg evs2 reg2 res2 ov)
  from drained(2) assms(2,3) obtain rs rs' where g: "reg_readers (ss_registry s) = Some rs"
    "reg_readers reg = Some rs'" "registry_ok reg" "keeps_readers rs rs'"
    "\<forall>g rd. rs g = None \<and> rs' g = Some rd \<longrightarrow> reader_inv rd [] []" "card (dom rs') = card (dom rs) + n"
    by (rule register_session)
  have rng: "ranges pv" using assms(4) by (simp add: honest_pass_def ranges_def)
  have filed: "all_filed rs' (oldestFirst (range_of pv reg) reg)"
    by (rule oldestFirst_filed [OF g(3,2) range_of_enumerates [OF rng g(3,2)]])
  have "generations reg2 = generations (ss_registry s) + n"
    using generations_same [OF drain_readers_same [OF drained(4) g(3,2) filed]] g(1,2,6) by (simp add: generations_def)
  then have grown: "generations (ss_registry s') = generations (ss_registry s) + n" by (simp add: drained(5))
  let ?ev = "map Notified (pass_events m (ss_observer s) n)"
  have "accounted_readers c rs' (tr @ ?ev)"
    using accounted_register [OF _ g(4,5)] assms(5) g(1) by (simp add: accounted_def accounted_notified)
  moreover have "\<And>g v. v \<in> set (pv_files pv g) \<Longrightarrow> honest (c g) v"
    using assms(4) by (simp add: honest_pass_def)
  ultimately obtain es where es:
    "effects (ss_handle s) (ss_observer s) es
       (if m = RecordModeLive \<and> 0 < n then session_notify s (rotation_event n) w else w) w'"
    "accounted c reg2 ((tr @ ?ev) @ es)" "events_of es = []" "set (modes_of es) \<subseteq> {m}"
    "NewGenerations res2 = NewGenerations res + n"
    "lr_Records res2 \<le> lr_Records res + length (modes_of es)"
    "de = None \<longrightarrow> lr_Records res2 = lr_Records res + length (modes_of es)"
    using drain_readers_trace [of "ss_handle s" m, OF drained(4) g(3,2) filed, of c "tr @ ?ev" "ss_observer s"] by auto
  have "effects (ss_handle s) (ss_observer s) (?ev @ es) w w'"
    using notify_effects es(1) by (rule effects_append)
  with es drained(5-8) grown show ?thesis
    by (intro exI [of _ "?ev @ es"] exI [of _ n]) (auto split: sum.splits)
qed

section \<open>Operations on a live session\<close>

text \<open>What every operation keeps, and what its trace accounts for.\<close>

definition keeps :: "'w source_session \<Rightarrow> fd_event list \<Rightarrow> 'w source_session \<Rightarrow> bool" where
  "keeps s evs s' \<longleftrightarrow>
     session_ok s' \<and> same_session s s' \<and> fd_flow (session_owned s) evs (session_owned s')"

definition traced ::
    "(generation_id \<Rightarrow> bytes) \<Rightarrow> 'w source_session \<Rightarrow> 'w \<Rightarrow> session_effect list
      \<Rightarrow> 'w source_session \<Rightarrow> 'w \<Rightarrow> session_effect list \<Rightarrow> bool" where
  "traced c s w tr s' w' es \<longleftrightarrow>
     effects (ss_handle s) (ss_observer s) es w w' \<and> accounted c (ss_registry s') (tr @ es)
     \<and> set (modes_of es) \<subseteq> {RecordModeLive}
     \<and> (ss_observer s \<noteq> None \<and> 0 < reg_maxRecordBytes (ss_registry s) \<longrightarrow>
          generations (ss_registry s') = generations (ss_registry s) + rotations_told (events_of es))"

lemma keeps_refl: "session_ok s \<Longrightarrow> keeps s [] s"
  by (simp add: keeps_def)

lemma keeps_trans: "keeps s evs s' \<Longrightarrow> keeps s' evs' s'' \<Longrightarrow> keeps s (evs @ evs') s''"
  unfolding keeps_def by (blast intro: same_session_trans fd_flow_append)

lemma keeps_closed: "keeps s evs s' \<Longrightarrow> ss_closed s' = ss_closed s"
  by (simp add: keeps_def same_session_def)

lemma traced_refl: "accounted c (ss_registry s) tr \<Longrightarrow> traced c s w tr s w []"
  by (simp add: traced_def)

lemma traced_trans:
  assumes "traced c s w tr s1 w1 es" "same_session s s1" "traced c s1 w1 (tr @ es) s2 w2 fs"
  shows "traced c s w tr s2 w2 (es @ fs)"
  using assms unfolding traced_def same_session_def by (auto intro: effects_append)

text \<open>The events of a reconciliation: one for each pass that found new generations.\<close>

definition rotation_events :: "'w source_observer option \<Rightarrow> nat list \<Rightarrow> source_event list" where
  "rotation_events obs ns = (if obs = None then [] else map rotation_event ns)"

text \<open>One turn of the loop: it ends with this pass, or goes on.\<close>

definition goes_on :: "error + nat \<times> bool \<Rightarrow> bool" where
  "goes_on r = (case r of Inl e \<Rightarrow> False | Inr (n, changed) \<Rightarrow> 0 < n \<or> changed)"

lemma reconcile_loop_pass:
  assumes "pv_ctx pv = None" "source_pass RecordModeLive pv s res w = Some (r, s1, res1, w1, evs1)"
  shows "reconcile_loop (pv # pvs) s res w =
    (if goes_on r
     then map_option (\<lambda>(e, r, s'', w'', evs'). (e, r, s'', w'', evs1 @ evs')) (reconcile_loop pvs s1 res1 w1)
     else Some (case r of Inl e \<Rightarrow> Some e | Inr _ \<Rightarrow> None, res1, s1, w1, evs1))"
proof (cases r)
  case (Inr q)
  with assms show ?thesis by (cases q) (simp add: goes_on_def)
qed (use assms in \<open>simp add: goes_on_def\<close>)

lemma reconcile_loop_keeps:
  assumes "reconcile_loop pvs s res w = Some (e, res', s', w', evs)"
    and "session_ok s" "\<not> ss_closed s" "list_all ranges pvs"
  shows "keeps s evs s'"
  using assms
proof (induction pvs arbitrary: s res w evs)
  case (Cons pv pvs)
  show ?case
  proof (cases "pv_ctx pv")
    case (Some x)
    with Cons.prems show ?thesis by (auto intro: keeps_refl)
  next
    case None
    obtain r s1 res1 w1 evs1 where p: "source_pass RecordModeLive pv s res w = Some (r, s1, res1, w1, evs1)"
      using Cons.prems(1) None by (auto split: option.splits)
    have k: "keeps s evs1 s1"
      using source_pass_ok [OF p Cons.prems(2,3)] Cons.prems(4) by (simp add: keeps_def)
    show ?thesis
    proof (cases "goes_on r")
      case True
      then obtain evs2 where rest: "reconcile_loop pvs s1 res1 w1 = Some (e, res', s', w', evs2)" "evs = evs1 @ evs2"
        using Cons.prems(1) unfolding reconcile_loop_pass [OF None p] by auto
      have "session_ok s1" "\<not> ss_closed s1" using k Cons.prems(3) by (auto simp: keeps_def same_session_def)
      from Cons.IH [OF rest(1) this] Cons.prems(4) k show ?thesis
        unfolding rest(2) by (auto intro: keeps_trans)
    next
      case False
      with Cons.prems(1) k show ?thesis unfolding reconcile_loop_pass [OF None p] by simp
    qed
  qed
qed simp

lemma reconcile_loop_trace:
  assumes "reconcile_loop pvs s res w = Some (e, res', s', w', evs)"
    and "session_ok s" "\<not> ss_closed s" "list_all (honest_pass c) pvs" "accounted c (ss_registry s) tr"
  shows "\<exists>es ns. traced c s w tr s' w' es \<and> events_of es = rotation_events (ss_observer s) ns
    \<and> list_all (\<lambda>n. 0 < n) ns \<and> NewGenerations res' = NewGenerations res + sum_list ns
    \<and> lr_Records res' \<le> lr_Records res + length (modes_of es)
    \<and> (e = None \<longrightarrow> lr_Records res' = lr_Records res + length (modes_of es))"
  using assms
proof (induction pvs arbitrary: s res w evs tr)
  case (Cons pv pvs)
  show ?case
  proof (cases "pv_ctx pv")
    case (Some x)
    with Cons.prems show ?thesis
      by (intro exI [of _ "[]"] exI [of _ "[]"]) (auto intro: traced_refl simp: rotation_events_def)
  next
    case None
    obtain r s1 res1 w1 evs1 where p: "source_pass RecordModeLive pv s res w = Some (r, s1, res1, w1, evs1)"
      using Cons.prems(1) None by (auto split: option.splits)
    have hp: "honest_pass c pv" "ranges pv" using Cons.prems(4) by (simp_all add: honest_pass_def ranges_def)
    have k: "session_ok s1" "same_session s s1" "\<not> ss_closed s1"
      using source_pass_ok [OF p Cons.prems(2,3) hp(2)] Cons.prems(3) by (auto simp: same_session_def)
    have told: "rotations_told (pass_events RecordModeLive (ss_observer s) n) = n" if "ss_observer s \<noteq> None" for n
      using that by (simp add: pass_events_def rotation_event_def rotations_told_def)
    from source_pass_trace [OF p Cons.prems(2,3) hp(1) Cons.prems(5)] obtain es n where one:
      "traced c s w tr s1 w1 es" "events_of es = pass_events RecordModeLive (ss_observer s) n"
      "NewGenerations res1 = NewGenerations res + n" "lr_Records res1 \<le> lr_Records res + length (modes_of es)"
      "case r of Inl e \<Rightarrow> True
        | Inr (n', changed) \<Rightarrow> n' = n \<and> lr_Records res1 = lr_Records res + length (modes_of es)"
      by (auto simp: traced_def told)
    define ns where "ns = (if 0 < n then [n] else [])"
    have ns: "events_of es = rotation_events (ss_observer s) ns" "list_all (\<lambda>n. 0 < n) ns" "sum_list ns = n"
      using one(2) by (auto simp: ns_def rotation_events_def pass_events_def)
    show ?thesis
    proof (cases "goes_on r")
      case True
      then obtain evs2 where rest: "reconcile_loop pvs s1 res1 w1 = Some (e, res', s', w', evs2)"
        using Cons.prems(1) unfolding reconcile_loop_pass [OF None p] by auto
      have "accounted c (ss_registry s1) (tr @ es)" using one(1) by (simp add: traced_def)
      from Cons.IH [OF rest k(1,3) _ this] Cons.prems(4) obtain fs ms where two:
        "traced c s1 w1 (tr @ es) s' w' fs" "events_of fs = rotation_events (ss_observer s1) ms"
        "list_all (\<lambda>n. 0 < n) ms" "NewGenerations res' = NewGenerations res1 + sum_list ms"
        "lr_Records res' \<le> lr_Records res1 + length (modes_of fs)"
        "e = None \<longrightarrow> lr_Records res' = lr_Records res1 + length (modes_of fs)" by auto
      have "lr_Records res1 = lr_Records res + length (modes_of es)"
        using True one(5) by (auto simp: goes_on_def split: sum.splits)
      with two one ns k(2) traced_trans [OF one(1) k(2) two(1)] show ?thesis
        by (intro exI [of _ "es @ fs"] exI [of _ "ns @ ms"]) (auto simp: rotation_events_def same_session_def)
    next
      case False
      with Cons.prems(1) have "s' = s1" "w' = w1" "res' = res1"
        and e: "e = (case r of Inl e \<Rightarrow> Some e | Inr _ \<Rightarrow> None)"
        unfolding reconcile_loop_pass [OF None p] by simp_all
      with one ns show ?thesis by (intro exI [of _ es] exI [of _ ns]) (simp split: sum.splits prod.splits)
    qed
  qed
qed simp

text \<open>A reconciliation ends with at most one discontinuity, chosen by its error.\<close>

definition discontinuity_events :: "'w source_observer option \<Rightarrow> error option \<Rightarrow> source_event list" where
  "discontinuity_events obs err =
     (case discontinuityForError err of
        None \<Rightarrow> []
      | Some reason \<Rightarrow>
          if obs = None then []
          else [\<lparr>Kind = SourceEventDiscontinuity, Count = 1, Reason = Some reason\<rparr>])"

lemma rotations_told_discontinuity: "rotations_told (discontinuity_events obs e) = 0"
  by (auto simp: discontinuity_events_def rotations_told_def split: option.split)

lemma notifyDiscontinuity_effects:
  "effects h (ss_observer s) (map Notified (discontinuity_events (ss_observer s) e)) w (notifyDiscontinuity s e w)"
  by (auto simp: discontinuity_events_def notifyDiscontinuity_def session_notify_def
      intro!: effects_notified split: option.splits)

lemma accounted_events: "accounted c reg (tr @ map Notified evs) = accounted c reg tr"
  by (simp add: accounted_def accounted_notified split: option.split)

lemma Reconcile_open:
  "\<not> ss_closed s \<Longrightarrow> Reconcile pvs True (Some s) w = Some (e, res, so, w', evs) \<Longrightarrow>
     \<exists>s' w1. so = Some s' \<and> reconcile_loop pvs s zero_live w = Some (e, res, s', w1, evs)
       \<and> w' = notifyDiscontinuity s' e w1"
  by (auto simp: Reconcile_def)

lemma Reconcile_keeps:
  assumes "Reconcile pvs True (Some s) w = Some (e, res, so, w', evs)"
    and "session_ok s" "list_all ranges pvs"
  shows "\<exists>s'. so = Some s' \<and> keeps s evs s'"
proof (cases "ss_closed s")
  case True
  with assms show ?thesis by (auto simp: Reconcile_def intro: keeps_refl)
next
  case False
  with Reconcile_open [OF False assms(1)] reconcile_loop_keeps [OF _ assms(2) False assms(3)]
  show ?thesis by blast
qed

lemma Reconcile_trace:
  assumes "Reconcile pvs True (Some s) w = Some (e, res, Some s', w', evs)"
    and "session_ok s" "\<not> ss_closed s" "list_all (honest_pass c) pvs" "accounted c (ss_registry s) tr"
  shows "\<exists>es ns. traced c s w tr s' w' es
    \<and> events_of es = rotation_events (ss_observer s) ns @ discontinuity_events (ss_observer s) e
    \<and> list_all (\<lambda>n. 0 < n) ns \<and> NewGenerations res = sum_list ns
    \<and> lr_Records res \<le> length (modes_of es) \<and> (e = None \<longrightarrow> lr_Records res = length (modes_of es))"
proof -
  obtain w1 where l: "reconcile_loop pvs s zero_live w = Some (e, res, s', w1, evs)"
    "w' = notifyDiscontinuity s' e w1" using Reconcile_open [OF assms(3,1)] by blast
  have "list_all ranges pvs" using assms(4) by (auto simp: list_all_iff honest_pass_def ranges_def)
  from reconcile_loop_keeps [OF l(1) assms(2,3) this] have same: "same_session s s'" by (simp add: keeps_def)
  from reconcile_loop_trace [OF l(1) assms(2-5)] obtain es ns where es: "traced c s w tr s' w1 es"
    "events_of es = rotation_events (ss_observer s) ns" "list_all (\<lambda>n. 0 < n) ns" "NewGenerations res = sum_list ns"
    "lr_Records res \<le> length (modes_of es)" "e = None \<longrightarrow> lr_Records res = length (modes_of es)"
    by (auto simp: zero_live_def)
  let ?ev = "map Notified (discontinuity_events (ss_observer s) e)"
  have "effects (ss_handle s) (ss_observer s) ?ev w1 w'"
    using notifyDiscontinuity_effects [of _ s' e w1] same l(2) by (simp add: same_session_def)
  then have "traced c s w tr s' w' (es @ ?ev)"
    using es(1) accounted_events [of c _ "tr @ es"]
    by (auto simp: traced_def rotations_told_discontinuity intro: effects_append)
  with es show ?thesis by (intro exI [of _ "es @ ?ev"] exI [of _ ns]) simp
qed

section \<open>Closing and initialization\<close>

lemma watcher_Close_flow:
  "watcher_Close a w = (e, w', evs) \<Longrightarrow> fd_flow (watcher_fds w) evs {#} \<and> w_fd w' = None"
  by (auto simp: watcher_Close_def watcher_fds_def fd_flow_def split: option.splits)

lemma closed_owns_nothing: "session_ok s \<Longrightarrow> ss_closed s \<Longrightarrow> session_owned s = {#}"
  by (simp add: session_ok_def session_owned_def watcher_fds_def registry_owned_def)

lemma session_Close_ok:
  assumes "session_Close pv (Some s) = (e, so, evs)" "session_ok s" "ranges pv"
  shows "\<exists>s'. so = Some s' \<and> session_ok s' \<and> ss_closed s' \<and> session_owned s' = {#}
    \<and> fd_flow (session_owned s) evs {#}"
proof (cases "ss_closed s")
  case True
  with assms closed_owns_nothing [OF assms(2)] show ?thesis by (auto simp: session_Close_def)
next
  case False
  obtain we watcher evs1 where wc: "watcher_Close (pv_closed pv) (ss_watcher s) = (we, watcher, evs1)"
    by (metis surj_pair)
  obtain re reg evs2 where rc: "registry_close (pv_close pv) (range_of pv (ss_registry s)) (ss_registry s) = (re, reg, evs2)"
    by (metis surj_pair)
  define s' where "s' = s\<lparr>ss_closed := True, ss_watcher := watcher, ss_registry := reg\<rparr>"
  have so: "so = Some s'" "evs = evs1 @ evs2"
    using assms(1) False wc rc by (auto simp: session_Close_def s'_def)
  have rng: "\<And>rs. reg_readers (ss_registry s) = Some rs \<Longrightarrow> enumerates (range_of pv (ss_registry s)) rs"
    using range_of_enumerates [OF assms(3)] assms(2) by (simp add: session_ok_def)
  note w = watcher_Close_flow [OF wc]
  note r = registry_close_flow [OF rc rng]
  have flow: "fd_flow (session_owned s) evs {#}"
    unfolding so(2) session_owned_def
    using fd_flow_append [OF fd_flow_frame [OF conjunct1 [OF w], of "registry_owned (ss_registry s)"]] r by simp
  have "session_ok s'" using w r by (simp add: session_ok_def s'_def registry_ok_def)
  moreover have "session_owned s' = {#}"
    using w r by (simp add: session_owned_def s'_def watcher_fds_def)
  ultimately show ?thesis using so flow by (simp add: s'_def)
qed

lemma init_failed_ok:
  assumes "init_failed pv x s w evs0 = (r, w', evs)" "session_ok s" "ranges pv"
    and "fd_flow before evs0 (session_owned s)"
  shows "r = Inl x \<and> w' = w \<and> fd_flow before evs {#}"
proof -
  obtain e so evs1 where c: "session_Close pv (Some s) = (e, so, evs1)" by (metis surj_pair)
  with session_Close_ok [OF c assms(2,3)] assms(1,4) show ?thesis
    by (auto simp: init_failed_def intro: fd_flow_append)
qed

text \<open>What a successful initialization hands over.\<close>

definition cut_over :: "pass_view \<Rightarrow> 'w source_session \<Rightarrow> bool" where
  "cut_over pv s \<longleftrightarrow> \<not> ss_closed s \<and> 0 < len_readers pv (ss_registry s)
     \<and> ss_cutover s = watermarks (range_of pv (ss_registry s)) (ss_registry s)"

lemma init_loop_ok:
  assumes "init_loop pvs s w = Some (r, w', evs)" "session_ok s" "\<not> ss_closed s"
    and "list_all (honest_pass c) pvs" "accounted c (ss_registry s) tr"
  shows "(\<exists>es. effects (ss_handle s) (ss_observer s) es w w' \<and> set (modes_of es) \<subseteq> {RecordModeBaseline}
      \<and> events_of es = []
      \<and> (case r of Inl e \<Rightarrow> fd_flow (session_owned s) evs {#}
          | Inr s' \<Rightarrow> fd_flow (session_owned s) evs (session_owned s') \<and> session_ok s'
              \<and> (\<exists>pv \<in> set pvs. cut_over pv s') \<and> ss_handle s' = ss_handle s \<and> ss_observer s' = ss_observer s
              \<and> reg_maxRecordBytes (ss_registry s') = reg_maxRecordBytes (ss_registry s)
              \<and> accounted c (ss_registry s') (tr @ es)))"
  using assms
proof (induction pvs arbitrary: s w evs tr)
  case (Cons pv pvs)
  have hp: "honest_pass c pv" "ranges pv" using Cons.prems(4) by (simp_all add: honest_pass_def ranges_def)
  show ?case
  proof (cases "pv_ctx pv")
    case (Some x)
    with Cons.prems have "init_failed pv (Wrap ''initialize report source'' [x]) s w [] = (r, w', evs)" by simp
    from init_failed_ok [OF this Cons.prems(2) hp(2) fd_flow_Nil] show ?thesis
      by (intro exI [of _ "[]"]) simp
  next
    case None
    obtain pr s1 res1 w1 evs1 where p: "source_pass RecordModeBaseline pv s zero_live w = Some (pr, s1, res1, w1, evs1)"
      using Cons.prems(1) None by (auto split: option.splits)
    have k: "session_ok s1" "same_session s s1" "fd_flow (session_owned s) evs1 (session_owned s1)" "\<not> ss_closed s1"
      using source_pass_ok [OF p Cons.prems(2,3) hp(2)] Cons.prems(3) by (auto simp: same_session_def)
    from source_pass_trace [OF p Cons.prems(2,3) hp(1) Cons.prems(5)] obtain es where one:
      "effects (ss_handle s) (ss_observer s) es w w1" "accounted c (ss_registry s1) (tr @ es)"
      "set (modes_of es) \<subseteq> {RecordModeBaseline}" "events_of es = []"
      by (auto simp: pass_events_def)
    define again where "again = (\<exists>evs2. init_loop pvs s1 w1 = Some (r, w', evs2) \<and> evs = evs1 @ evs2)"
    consider (failed) x where "init_failed pv x s1 w1 evs1 = (r, w', evs)"
      | (fin) "r = Inr (s1\<lparr>ss_cutover := watermarks (range_of pv (ss_registry s1)) (ss_registry s1)\<rparr>)"
          "w' = w1" "evs = evs1" "0 < len_readers pv (ss_registry s1)"
      | (again) "again"
      using Cons.prems(1) None p unfolding again_def
      by (auto split: sum.splits if_splits option.splits)
    then show ?thesis
    proof cases
      case failed
      from init_failed_ok [OF this k(1) hp(2) k(3)] one show ?thesis by (intro exI [of _ es]) simp
    next
      case fin
      let ?s = "s1\<lparr>ss_cutover := watermarks (range_of pv (ss_registry s1)) (ss_registry s1)\<rparr>"
      have "session_ok ?s" "session_owned ?s = session_owned s1" using k(1)
        by (simp_all add: session_ok_def session_owned_def)
      moreover have "cut_over pv ?s" using fin(4) k(4) by (simp add: cut_over_def)
      ultimately show ?thesis using fin k one
        by (intro exI [of _ es]) (simp add: same_session_def)
    next
      case again
      then obtain evs2 where rest: "init_loop pvs s1 w1 = Some (r, w', evs2)" "evs = evs1 @ evs2"
        by (auto simp: again_def)
      from Cons.IH [OF rest(1) k(1,4) _ one(2)] Cons.prems(4) obtain fs where two:
        "effects (ss_handle s1) (ss_observer s1) fs w1 w'" "set (modes_of fs) \<subseteq> {RecordModeBaseline}"
        "events_of fs = []"
        "case r of Inl e \<Rightarrow> fd_flow (session_owned s1) evs2 {#}
          | Inr s' \<Rightarrow> fd_flow (session_owned s1) evs2 (session_owned s') \<and> session_ok s'
              \<and> (\<exists>pv \<in> set pvs. cut_over pv s') \<and> ss_handle s' = ss_handle s1 \<and> ss_observer s' = ss_observer s1
              \<and> reg_maxRecordBytes (ss_registry s') = reg_maxRecordBytes (ss_registry s1)
              \<and> accounted c (ss_registry s') ((tr @ es) @ fs)"
        by auto
      have "effects (ss_handle s) (ss_observer s) (es @ fs) w w'"
        using effects_append [OF one(1)] two(1) k(2) by (simp add: same_session_def)
      with one two k(2,3) show ?thesis unfolding rest(2)
        by (intro exI [of _ "es @ fs"]) (auto simp: same_session_def intro: fd_flow_append split: sum.splits)
    qed
  qed
qed simp

lemma WatchReportDirectory_flow:
  "WatchReportDirectory a b dir = (r, evs) \<Longrightarrow>
     fd_flow {#} evs (case r of Inl e \<Rightarrow> {#} | Inr w \<Rightarrow> watcher_fds w)"
  by (auto simp: WatchReportDirectory_def watcher_fds_def fd_flow_def split: option.splits sum.splits)

lemma InitializeSource_ok:
  assumes "InitializeSource os pvs has_ctx dir i options handle w = Some (r, w', evs)"
    and "list_all (honest_pass c) pvs"
  shows "(\<exists>es. (es \<noteq> [] \<longrightarrow> handle \<noteq> None) \<and> effects (the handle) None es w w'
      \<and> set (modes_of es) \<subseteq> {RecordModeBaseline} \<and> events_of es = []
      \<and> (case r of Inl e \<Rightarrow> fd_flow {#} evs {#}
          | Inr s \<Rightarrow> fd_flow {#} evs (session_owned s) \<and> session_ok s \<and> (\<exists>pv \<in> set pvs. cut_over pv s)
              \<and> ss_handle s = the handle \<and> ss_observer s = None
              \<and> 0 < reg_maxRecordBytes (ss_registry s) \<and> accounted c (ss_registry s) es))"
proof (cases "\<exists>d h reg watcher evs0. dir = Some d \<and> handle = Some h \<and> has_ctx
    \<and> newGenerationRegistry (MaxRecordBytes options) = Inr reg
    \<and> WatchReportDirectory (ans_init os) (ans_watch os) (Some d) = (Inr watcher, evs0)
    \<and> 0 < io_RescanInterval options \<and> 0 < InitializationTimeout options")
  case True
  then obtain d h reg watcher evs0 where p: "dir = Some d" "handle = Some h" "has_ctx"
    "newGenerationRegistry (MaxRecordBytes options) = Inr reg"
    "WatchReportDirectory (ans_init os) (ans_watch os) (Some d) = (Inr watcher, evs0)"
    "0 < io_RescanInterval options" "0 < InitializationTimeout options" by blast
  define s0 where "s0 = \<lparr>ss_directory = d, ss_identity = i, ss_watcher = watcher, ss_registry = reg,
    ss_handle = h, ss_observer = None, ss_cutover = [], ss_overflows = 0, ss_closed = False\<rparr>"
  obtain evs1 where l: "init_loop pvs s0 w = Some (r, w', evs1)" "evs = evs0 @ evs1"
    using assms(1) p by (auto simp: InitializeSource_def s0_def)
  note reg = newGenerationRegistry_ok [OF p(4)]
  have bound: "0 < reg_maxRecordBytes (ss_registry s0)"
    using p(4) by (auto simp: newGenerationRegistry_def NewDecoder_def s0_def split: sum.splits if_splits)
  have "session_ok s0" "\<not> ss_closed s0" using reg by (simp_all add: session_ok_def s0_def)
  moreover have "accounted c (ss_registry s0) []"
    using reg by (simp add: accounted_def accounted_readers_def s0_def)
  moreover have "fd_flow {#} evs0 (session_owned s0)"
    using WatchReportDirectory_flow [OF p(5)] reg by (simp add: session_owned_def s0_def)
  moreover have h: "ss_handle s0 = h" "ss_observer s0 = None" by (simp_all add: s0_def)
  ultimately obtain es where es: "effects h None es w w'" "set (modes_of es) \<subseteq> {RecordModeBaseline}"
    "events_of es = []" "fd_flow {#} evs0 (session_owned s0)"
    "case r of Inl e \<Rightarrow> fd_flow (session_owned s0) evs1 {#}
      | Inr s' \<Rightarrow> fd_flow (session_owned s0) evs1 (session_owned s') \<and> session_ok s'
          \<and> (\<exists>pv \<in> set pvs. cut_over pv s') \<and> ss_handle s' = h \<and> ss_observer s' = None
          \<and> reg_maxRecordBytes (ss_registry s') = reg_maxRecordBytes (ss_registry s0)
          \<and> accounted c (ss_registry s') es"
    using init_loop_ok [OF l(1) _ _ assms(2), of "[]", unfolded h append_Nil] by blast
  show ?thesis
  proof (cases r)
    case (Inl e)
    with es p(2) fd_flow_append [OF es(4)] show ?thesis
      unfolding l(2) by (intro exI [of _ es]) simp
  next
    case (Inr s')
    with es p(2) bound fd_flow_append [OF es(4)] show ?thesis
      unfolding l(2) by (intro exI [of _ es]) simp
  qed
next
  case False
  have "\<exists>e. r = Inl e \<and> w' = w \<and> fd_flow {#} evs {#}"
  proof (cases "\<exists>d h reg. dir = Some d \<and> handle = Some h \<and> has_ctx
      \<and> newGenerationRegistry (MaxRecordBytes options) = Inr reg
      \<and> 0 < io_RescanInterval options \<and> 0 < InitializationTimeout options")
    case True
    then obtain d h reg where p: "dir = Some d" "handle = Some h" "has_ctx"
      "newGenerationRegistry (MaxRecordBytes options) = Inr reg"
      "0 < io_RescanInterval options" "0 < InitializationTimeout options" by blast
    obtain wr evs0 where wd: "WatchReportDirectory (ans_init os) (ans_watch os) (Some d) = (wr, evs0)" by force
    with False p obtain e where "wr = Inl e" by (cases wr) auto
    with assms(1) p wd WatchReportDirectory_flow [OF wd] show ?thesis
      by (auto simp: InitializeSource_def)
  next
    case False
    with assms(1) show ?thesis
      by (auto simp: InitializeSource_def split: option.splits if_splits sum.splits)
  qed
  then show ?thesis by (intro exI [of _ "[]"]) auto
qed

section \<open>Draining the source and running\<close>

definition honest_turn :: "(generation_id \<Rightarrow> bytes) \<Rightarrow> run_turn \<Rightarrow> bool" where
  "honest_turn c t \<longleftrightarrow> list_all (honest_pass c) (rt_passes t)
     \<and> list_all (\<lambda>d. list_all (honest_pass c) (dt_passes d)) (rt_drain t)
     \<and> list_all (honest_pass c) (rt_final t)"

text \<open>A step of the session: descriptors and trace together.\<close>

definition session_does ::
    "(generation_id \<Rightarrow> bytes) \<Rightarrow> 'w source_session \<Rightarrow> 'w \<Rightarrow> session_effect list
      \<Rightarrow> 'w source_session \<Rightarrow> 'w \<Rightarrow> session_effect list \<Rightarrow> fd_event list \<Rightarrow> bool" where
  "session_does c s w tr s' w' es evs \<longleftrightarrow> keeps s evs s' \<and> traced c s w tr s' w' es"

lemma session_does_refl: "session_ok s \<Longrightarrow> accounted c (ss_registry s) tr \<Longrightarrow> session_does c s w tr s w [] []"
  by (simp add: session_does_def keeps_refl traced_refl)

lemma session_does_trans:
  "session_does c s w tr s1 w1 es evs \<Longrightarrow> session_does c s1 w1 (tr @ es) s2 w2 fs evs2 \<Longrightarrow>
     session_does c s w tr s2 w2 (es @ fs) (evs @ evs2)"
  unfolding session_does_def keeps_def
  by (blast intro: traced_trans same_session_trans fd_flow_append)

lemma session_doesD:
  "session_does c s w tr s' w' es evs \<Longrightarrow> session_ok s' \<and> accounted c (ss_registry s') (tr @ es)
     \<and> ss_closed s' = ss_closed s"
  by (simp add: session_does_def keeps_def traced_def same_session_def)

lemma Reconcile_does:
  assumes "Reconcile pvs True (Some s) w = Some (e, res, so, w', evs)"
    and "session_ok s" "list_all (honest_pass c) pvs" "accounted c (ss_registry s) tr"
  shows "\<exists>s' es. so = Some s' \<and> session_does c s w tr s' w' es evs"
proof (cases "ss_closed s")
  case True
  with assms show ?thesis by (auto simp: Reconcile_def intro: session_does_refl)
next
  case False
  have "list_all ranges pvs" using assms(3) by (auto simp: list_all_iff honest_pass_def ranges_def)
  from Reconcile_keeps [OF assms(1,2) this] obtain s' where s': "so = Some s'" "keeps s evs s'" by blast
  with Reconcile_trace [of pvs s w e res s' w' evs c tr] assms False show ?thesis
    by (auto simp: session_does_def)
qed

lemma drain_source_loop_does:
  assumes "drain_source_loop ts interval True (Some s) res w = Some (st, res', so, w', evs)"
    and "session_ok s" "list_all (\<lambda>d. list_all (honest_pass c) (dt_passes d)) ts" "accounted c (ss_registry s) tr"
  shows "\<exists>s' es. so = Some s' \<and> session_does c s w tr s' w' es evs"
  using assms
proof (induction ts arbitrary: s res w evs tr)
  case (Cons t ts)
  obtain e rec so1 w1 evs1 where r: "Reconcile (dt_passes t) True (Some s) w = Some (e, rec, so1, w1, evs1)"
    using Cons.prems(1) by (auto split: option.splits)
  from Reconcile_does [OF r Cons.prems(2) _ Cons.prems(4)] Cons.prems(3) obtain s1 es where
    one: "so1 = Some s1" "session_does c s w tr s1 w1 es evs1" by auto
  have "so = Some s1 \<and> w' = w1 \<and> evs = evs1
    \<or> (\<exists>res1 evs2. drain_source_loop ts interval True (Some s1) res1 w1 = Some (st, res', so, w', evs2) \<and> evs = evs1 @ evs2)"
    using Cons.prems(1) r one(1) by (auto simp: Let_def split: option.splits if_splits)
  then show ?case
  proof (elim disjE exE conjE)
    fix res1 evs2
    assume rest: "drain_source_loop ts interval True (Some s1) res1 w1 = Some (st, res', so, w', evs2)" "evs = evs1 @ evs2"
    from session_doesD [OF one(2)] Cons.IH [OF rest(1), of "tr @ es"] Cons.prems(3) obtain s' fs where
      "so = Some s'" "session_does c s1 w1 (tr @ es) s' w' fs evs2" by auto
    with one(2) rest(2) show ?thesis by (auto intro: session_does_trans)
  qed (use one in blast)
qed simp

definition unclean_event :: "nat \<Rightarrow> source_event" where
  "unclean_event n = \<lparr>Kind = SourceEventDiscontinuity, Count = n, Reason = Some SourceDiscontinuityUncleanClose\<rparr>"

definition unclean_events :: "'w source_observer option \<Rightarrow> generation_watermark list \<Rightarrow> source_event list" where
  "unclean_events obs ws = (if obs = None \<or> ws = [] then [] else [unclean_event (length ws)])"

lemma notify_unclean_effects:
  "effects h (ss_observer s) (map Notified (unclean_events (ss_observer s) ws)) w (notify_unclean (Some s) ws w)"
  by (auto simp: unclean_events_def unclean_event_def notify_unclean_def session_notify_def
      intro!: effects_notified split: option.splits)

lemma session_does_notified:
  assumes "session_does c s w tr s' w1 es evs"
    and "effects (ss_handle s) (ss_observer s) (map Notified ns) w1 w'" "rotations_told ns = 0"
  shows "session_does c s w tr s' w' (es @ map Notified ns) evs"
proof -
  have "accounted c (ss_registry s') ((tr @ es) @ map Notified ns)"
    using assms(1) by (simp only: accounted_events) (simp add: session_does_def traced_def)
  with assms show ?thesis
    unfolding session_does_def traced_def by (auto intro: effects_append)
qed

text \<open>
  A drain of the source does what its reconciliations do; when it reaches the end, it also tells
  the observer how many generations were left unclosed.
\<close>

lemma DrainSource_does:
  assumes "DrainSource turns final lastv timeout interval True (Some s) w = Some (e, res, so, w', evs)"
    and "session_ok s" "list_all (\<lambda>d. list_all (honest_pass c) (dt_passes d)) turns"
    and "list_all (honest_pass c) final" "accounted c (ss_registry s) tr"
  shows "\<exists>s' es. so = Some s' \<and> session_does c s w tr s' w' es evs
    \<and> (UncleanGenerations res \<noteq> [] \<longrightarrow>
        UncleanGenerations res = unclean (CurrentWatermarks lastv (Some s'))
        \<and> (ss_observer s \<noteq> None \<longrightarrow> last es = Notified (unclean_event (length (UncleanGenerations res)))))"
proof (cases "0 < timeout \<and> 0 < interval")
  case False
  have "DrainSource turns final lastv timeout interval True (Some s) w =
      Some (Some (if timeout \<le> 0 then Text ''source drain timeout must be positive''
                  else Text ''source drain rescan interval must be positive''),
            \<lparr>sd_Live = zero_live, UncleanGenerations = []\<rparr>, Some s, w, [])"
  proof -
    from False have "timeout \<le> 0 \<or> \<not> timeout \<le> 0 \<and> interval \<le> 0" by linarith
    then show ?thesis unfolding DrainSource_def Let_def by auto
  qed
  with assms(1) have "so = Some s" "w' = w" "evs = []" "UncleanGenerations res = []" by auto
  with session_does_refl [OF assms(2,5)] show ?thesis by blast
next
  case True
  obtain st res1 so1 w1 evs1 where l: "drain_source_loop turns interval True (Some s) zero_live w
      = Some (st, res1, so1, w1, evs1)"
    using assms(1) True by (auto simp: DrainSource_def Let_def split: option.splits)
  from drain_source_loop_does [OF l assms(2,3,5)] obtain s1 es where
    one: "so1 = Some s1" "session_does c s w tr s1 w1 es evs1" by blast
  show ?thesis
  proof (cases st)
    case (DrainFailed x)
    with assms(1) True l one show ?thesis by (auto simp: DrainSource_def Let_def)
  next
    case DeadlineReached
    obtain err res2 so2 w2 evs2 where r: "Reconcile final True (Some s1) w1 = Some (err, res2, so2, w2, evs2)"
      using assms(1) True l one(1) DeadlineReached by (auto simp: DrainSource_def Let_def split: option.splits)
    from session_doesD [OF one(2)] Reconcile_does [OF r _ assms(4), of "tr @ es"] obtain s2 fs where
      two: "so2 = Some s2" "session_does c s1 w1 (tr @ es) s2 w2 fs evs2" by blast
    note both = session_does_trans [OF one(2) two(2)]
    have obs: "ss_observer s2 = ss_observer s" "ss_handle s2 = ss_handle s"
      using both by (simp_all add: session_does_def keeps_def same_session_def)
    define ws where "ws = unclean (CurrentWatermarks lastv (Some s2))"
    have "(e, res, so, w', evs) =
        (if (case err of None \<Rightarrow> False | Some e \<Rightarrow> \<not> errors_is Context_Canceled e)
         then (err, \<lparr>sd_Live = mergeLiveResult res1 res2, UncleanGenerations = []\<rparr>, Some s2, w2, evs1 @ evs2)
         else (err, \<lparr>sd_Live = mergeLiveResult res1 res2, UncleanGenerations = ws\<rparr>, Some s2,
               notify_unclean (Some s2) ws w2, evs1 @ evs2))"
      using assms(1) True l one(1) two(1) DeadlineReached r
      by (auto simp: DrainSource_def Let_def ws_def split: option.splits if_splits)
    then consider "UncleanGenerations res = []" "so = Some s2" "w' = w2" "evs = evs1 @ evs2"
      | "UncleanGenerations res = ws" "so = Some s2" "w' = notify_unclean (Some s2) ws w2" "evs = evs1 @ evs2"
      by (auto split: if_splits)
    then show ?thesis
    proof cases
      case 1
      with both show ?thesis by blast
    next
      case 2
      have "effects (ss_handle s) (ss_observer s) (map Notified (unclean_events (ss_observer s) ws)) w2 w'"
        using notify_unclean_effects [of "ss_handle s" s2 ws w2] 2(3) obs by simp
      moreover have "rotations_told (unclean_events (ss_observer s) ws) = 0"
        by (simp add: unclean_events_def unclean_event_def rotations_told_def)
      ultimately have "session_does c s w tr s2 w' ((es @ fs) @ map Notified (unclean_events (ss_observer s) ws)) (evs1 @ evs2)"
        by (rule session_does_notified [OF both])
      with 2 show ?thesis
        by (intro exI [of _ s2]) (auto simp: ws_def unclean_events_def)
    qed
  qed
qed

lemma run_loop_does:
  assumes "run_loop ts interval timeout s res w = Some (e, res', s', w', evs)"
    and "session_ok s" "list_all (honest_turn c) ts" "accounted c (ss_registry s) tr"
  shows "\<exists>es. session_does c s w tr s' w' es evs"
  using assms
proof (induction ts arbitrary: s res w evs tr)
  case (Cons t ts)
  have ht: "list_all (honest_pass c) (rt_passes t)"
    "list_all (\<lambda>d. list_all (honest_pass c) (dt_passes d)) (rt_drain t)" "list_all (honest_pass c) (rt_final t)"
    using Cons.prems(3) by (simp_all add: honest_turn_def)
  consider (idle) "s' = s" "w' = w" "evs = []"
    | (drain) d so where "DrainSource (rt_drain t) (rt_final t) (rt_last t) timeout interval True (Some s) w
          = Some (e, d, so, w', evs)" "s' = the so"
    | (reconcile) e1 rec so w1 evs1 where "Reconcile (rt_passes t) True (Some s) w = Some (e1, rec, so, w1, evs1)"
        "s' = the so \<and> w' = w1 \<and> evs = evs1
         \<or> (\<exists>res1 evs2. run_loop ts interval timeout (the so) res1 w1 = Some (e, res', s', w', evs2) \<and> evs = evs1 @ evs2)"
    using Cons.prems(1)
    by (auto simp: Let_def split: option.splits sum.splits prod.splits if_splits)
  then show ?case
  proof cases
    case idle
    with session_does_refl [OF Cons.prems(2,4)] show ?thesis by blast
  next
    case drain
    from DrainSource_does [OF drain(1) Cons.prems(2) ht(2,3) Cons.prems(4)] drain(2) show ?thesis by auto
  next
    case reconcile
    from Reconcile_does [OF reconcile(1) Cons.prems(2) ht(1) Cons.prems(4)] obtain s1 es where
      one: "so = Some s1" "session_does c s w tr s1 w1 es evs1" by blast
    from reconcile(2) show ?thesis
    proof (elim disjE exE conjE)
      fix res1 evs2
      assume rest: "run_loop ts interval timeout (the so) res1 w1 = Some (e, res', s', w', evs2)" "evs = evs1 @ evs2"
      from session_doesD [OF one(2)] Cons.IH [of s1 res1 w1 evs2 "tr @ es"] rest one(1) Cons.prems(3) obtain fs where
        "session_does c s1 w1 (tr @ es) s' w' fs evs2" by auto
      with one(2) rest(2) show ?thesis by (auto intro: session_does_trans)
    qed (use one in auto)
  qed
qed simp

section \<open>The life of a session\<close>

text \<open>
  The steps a caller can take with a session, in any order, with whatever the kernel, the clock and
  the contexts answer; each step shows the descriptors it opened and closed.
\<close>

inductive session_step ::
    "(generation_id \<Rightarrow> bytes) \<Rightarrow> 'w source_session \<Rightarrow> 'w \<Rightarrow> fd_event list \<Rightarrow> 'w source_session \<Rightarrow> 'w \<Rightarrow> bool"
  for c where
  step_reconcile:
    "Reconcile pvs True (Some s) w = Some (e, res, Some s', w', evs) \<Longrightarrow> list_all (honest_pass c) pvs \<Longrightarrow>
       session_step c s w evs s' w'"
| step_drain:
    "DrainSource turns final lastv timeout interval True (Some s) w = Some (e, sd, Some s', w', evs) \<Longrightarrow>
       list_all (\<lambda>d. list_all (honest_pass c) (dt_passes d)) turns \<Longrightarrow> list_all (honest_pass c) final \<Longrightarrow>
       session_step c s w evs s' w'"
| step_run:
    "session_Run ts True interval timeout (Some s) w = Some (e, rr, Some s', w', evs) \<Longrightarrow>
       list_all (honest_turn c) ts \<Longrightarrow> session_step c s w evs s' w'"

text \<open>A session's history: initialized with a logging handler, then any steps, perhaps observed.\<close>

inductive session_steps ::
    "(generation_id \<Rightarrow> bytes) \<Rightarrow> 'w source_session \<Rightarrow> 'w \<Rightarrow> fd_event list \<Rightarrow> 'w source_session \<Rightarrow> 'w \<Rightarrow> bool"
  for c where
  steps_none: "session_steps c s w [] s w"
| steps_one: "session_steps c s w evs s1 w1 \<Longrightarrow> session_step c s1 w1 evs' s2 w2 \<Longrightarrow>
    session_steps c s w (evs @ evs') s2 w2"

lemma session_step_does:
  assumes "session_step c s w evs s' w'" "session_ok s" "accounted c (ss_registry s) tr"
  shows "\<exists>es. session_does c s w tr s' w' es evs"
  using assms(1)
proof cases
  case step_reconcile
  from Reconcile_does [OF step_reconcile(1) assms(2) step_reconcile(2) assms(3)] show ?thesis by simp
next
  case step_drain
  from DrainSource_does [OF step_drain(1) assms(2) step_drain(2,3) assms(3)] show ?thesis by auto
next
  case (step_run ts interval timeout)
  show ?thesis
  proof (cases "0 < interval \<and> 0 < timeout")
    case True
    with step_run(1) obtain e rr where "run_loop ts interval timeout s zero_run w = Some (e, rr, s', w', evs)"
      by (auto simp: session_Run_def)
    from run_loop_does [OF this assms(2) step_run(2) assms(3)] show ?thesis .
  next
    case False
    with step_run(1) have "s' = s" "w' = w" "evs = []" by (auto simp: session_Run_def split: if_splits)
    with session_does_refl [OF assms(2,3)] show ?thesis by blast
  qed
qed

lemma session_steps_does:
  assumes "session_steps c s w evs s' w'" "session_ok s" "accounted c (ss_registry s) tr"
  shows "\<exists>es. session_does c s w tr s' w' es evs"
  using assms
proof (induction rule: session_steps.induct)
  case (steps_none s w)
  then show ?case by (intro exI [of _ "[]"]) (rule session_does_refl)
next
  case (steps_one s w evs s1 w1 evs' s2 w2)
  then obtain es where one: "session_does c s w tr s1 w1 es evs" by blast
  from session_doesD [OF one] session_step_does [OF steps_one.hyps(2), of "tr @ es"] obtain fs where
    "session_does c s1 w1 (tr @ es) s2 w2 fs evs'" by blast
  with one show ?case by (auto intro: session_does_trans)
qed

section \<open>What a handler makes of a session\<close>

text \<open>The records of a trace with their modes, over all generations, in the order they were applied.\<close>

fun applied_of :: "session_effect list \<Rightarrow> (record_mode \<times> source_record) list" where
  "applied_of [] = []"
| "applied_of (Applied g m r # es) = (m, r) # applied_of es"
| "applied_of (Notified ev # es) = applied_of es"

lemma applied_of_append [simp]: "applied_of (es @ fs) = applied_of es @ applied_of fs"
  by (induction es rule: applied_of.induct) auto

lemma map_fst_applied [simp]: "map fst (applied_of es) = modes_of es"
  by (induction es rule: applied_of.induct) auto

lemma applied_of_map [simp]: "applied_of (map (Applied g m) rs) = map (Pair m) rs" "applied_of (map Notified evs) = []"
  by (induction rs) (simp_all, induction evs, simp_all)

text \<open>
  The contract of a record handler and an observer: of the state they share, a view changes by
  \<open>step\<close> with each accepted record and by \<open>tell\<close> with each event, and not at all when a record is
  refused.
\<close>

locale session_sink =
  fixes h :: "'w record_handler" and obs :: "'w source_observer option"
    and view :: "'w \<Rightarrow> 'v" and step :: "record_mode \<Rightarrow> source_record \<Rightarrow> 'v \<Rightarrow> 'v"
    and tell :: "source_event \<Rightarrow> 'v \<Rightarrow> 'v"
  assumes accepts: "h m r w = (None, w') \<Longrightarrow> view w' = step m r (view w)"
    and refuses: "h m r w = (Some e, w') \<Longrightarrow> view w' = view w"
    and notifies: "obs = Some ob \<Longrightarrow> view (ob ev w) = tell ev (view w)"
begin

definition effect_on :: "session_effect \<Rightarrow> 'v \<Rightarrow> 'v" where
  "effect_on e = (case e of Applied g m r \<Rightarrow> step m r | Notified ev \<Rightarrow> tell ev)"

lemma view_effects: "effects h obs es w w' \<Longrightarrow> view w' = fold effect_on es (view w)"
proof (induction rule: effects.induct)
  case (effects_applied m r w w1 es w2 g)
  then show ?case using accepts by (simp add: effect_on_def)
next
  case (effects_refused m r w e w1 es w2)
  then show ?case using refuses by simp
next
  case (effects_notified ob ev es w w2)
  then show ?case using notifies by (simp add: effect_on_def)
qed simp

text \<open>When the observer leaves the view alone, only the applied records count.\<close>

lemma view_applied:
  assumes "effects h obs es w w'" "\<And>ev v. tell ev v = v"
  shows "view w' = fold (\<lambda>(m, r). step m r) (applied_of es) (view w)"
proof -
  have "fold effect_on es v = fold (\<lambda>(m, r). step m r) (applied_of es) v" for v
    by (induction es arbitrary: v rule: applied_of.induct) (simp_all add: effect_on_def assms(2))
  then show ?thesis using view_effects [OF assms(1)] by simp
qed

text \<open>When the handler leaves the view alone, only the events count.\<close>

lemma view_told:
  assumes "effects h obs es w w'" "\<And>m r v. step m r v = v"
  shows "view w' = fold tell (events_of es) (view w)"
proof -
  have "fold effect_on es v = fold tell (events_of es) v" for v
    by (induction es arbitrary: v rule: events_of.induct) (simp_all add: effect_on_def assms(2))
  then show ?thesis using view_effects [OF assms(1)] by simp
qed

end

text \<open>A handler with a log of the modes and records it accepted.\<close>

definition noted :: "'w record_handler \<Rightarrow> ('w \<times> (record_mode \<times> source_record) list) record_handler" where
  "noted h m r w = (case w of (u, l) \<Rightarrow>
     (case h m r u of (None, u') \<Rightarrow> (None, (u', l @ [(m, r)])) | (Some e, u') \<Rightarrow> (Some e, (u', l))))"

definition beside :: "'w source_observer option \<Rightarrow> ('w \<times> 'l) source_observer option" where
  "beside obs = map_option (\<lambda>ob ev w. (ob ev (fst w), snd w)) obs"

text \<open>An observer with a log of the events it was given.\<close>

definition logs_events :: "'w source_observer \<Rightarrow> ('w \<times> source_event list) source_observer" where
  "logs_events ob ev w = (ob ev (fst w), snd w @ [ev])"

definition aside :: "'w record_handler \<Rightarrow> ('w \<times> 'l) record_handler" where
  "aside h m r w = (case h m r (fst w) of (e, u') \<Rightarrow> (e, (u', snd w)))"

interpretation noted: session_sink "noted h" "beside obs" snd "\<lambda>m r l. l @ [(m, r)]" "\<lambda>ev l. l" for h obs
  by unfold_locales (auto simp: noted_def beside_def split: prod.splits option.splits)

interpretation told: session_sink "aside h" "Some (logs_events ob)" snd "\<lambda>m r l. l" "\<lambda>ev l. l @ [ev]" for h ob
  by unfold_locales (auto simp: aside_def logs_events_def split: prod.splits)

lemma fold_log: "fold (\<lambda>x l. l @ [x]) xs l = l @ xs" "fold (\<lambda>(m, r) l. l @ [(m, r)]) ys k = k @ ys"
  by (induction xs arbitrary: l) (simp_all, induction ys arbitrary: k, auto)

lemma noted_effects:
  "effects (noted h) (beside obs) es w w' \<Longrightarrow> snd w' = snd w @ applied_of es"
  using noted.view_applied [of h obs es w w'] by (simp add: fold_log)

lemma told_effects:
  "effects (aside h) (Some (logs_events ob)) es w w' \<Longrightarrow> snd w' = snd w @ events_of es"
  using told.view_told [of h ob es w w'] by (simp add: fold_log)

text \<open>Beside the log, the handler and the observer do what they do without it.\<close>

lemma aside_effects:
  "effects (aside h) (Some (logs_events ob)) es w w' \<Longrightarrow> effects h (Some ob) es (fst w) (fst w')"
proof (induction rule: effects.induct)
  case (effects_notified ob' ev es w w2)
  then show ?case by (auto simp: logs_events_def intro: effects.effects_notified)
qed (auto simp: aside_def intro: effects.intros split: prod.splits)

lemma aside_effects_unobserved:
  "effects (aside h) None es w w' \<Longrightarrow> effects h None es (fst w) (fst w') \<and> snd w' = snd w"
  by (induction rule: effects.induct) (auto simp: aside_def intro: effects.intros split: prod.splits)


end
