(* ===== verification/Session_Sample.thy ===== *)
theory Session_Sample
  imports Session_Facts Reader_Properties
begin

text \<open>
  A source session over one growing report, evaluated: what the witnesses of the session's
  properties run.
\<close>

section \<open>A session over one report\<close>

text \<open>A runtime that ranges over the map by device and inode.\<close>

definition range_sorted :: "readers \<Rightarrow> generation_id list" where
  "range_sorted rs = map (\<lambda>(d, i). \<lparr>Device = d, Inode = i\<rparr>)
     (sorted_list_of_set ((\<lambda>g. (Device g, Inode g)) ` dom rs))"

lemma range_sorted_ok: "finite (dom rs) \<Longrightarrow> enumerates (range_sorted rs) rs"
proof -
  assume f: "finite (dom rs)"
  let ?enc = "\<lambda>g. (Device g, Inode g)" and ?dec = "\<lambda>(d, i). \<lparr>Device = d, Inode = i\<rparr>"
  have inj: "inj_on ?dec S" for S by (auto simp: inj_on_def)
  have id: "?dec (?enc g) = g" for g :: generation_id by (simp add: generation_id.equality)
  have "?dec ` ?enc ` dom rs = dom rs"
    unfolding image_image id by (rule image_ident)
  with f inj [of "?enc ` dom rs"] show ?thesis by (simp add: enumerates_def range_sorted_def distinct_map)
qed

lemma range_sorted_single: "dom rs = {g} \<Longrightarrow> range_sorted rs = [g]"
  by (simp add: range_sorted_def)

definition quiet_scan :: scan_answers where
  "quiet_scan = \<lparr>scan_dup = Inr 4, scan_listing = Inr [''monitor_9.json''],
     scan_reports = (\<lambda>k. (\<lambda>dirfd name flags. Inr 10,
       Inr \<lparr>st_mode = 0x8180, st_uid = 5, st_dev = 1, st_ino = 20, st_size = 0, st_mtime = (101, 0)\<rparr>))\<rparr>"

definition quiet_pass :: "file_view list \<Rightarrow> pass_view" where
  "quiet_pass views = \<lparr>pv_ctx = None, pv_scan = quiet_scan, pv_range = range_sorted,
     pv_files = (\<lambda>g. views), pv_events = [WouldBlock], pv_wait = None, pv_closed = None,
     pv_close = (\<lambda>g. None)\<rparr>"

definition sample_options :: initialization_options where
  "sample_options = \<lparr>MaxRecordBytes = 16777216, io_RescanInterval = 5000000000,
     InitializationTimeout = 30000000000\<rparr>"

definition sample_watch :: watch_answers where
  "sample_watch = \<lparr>ans_init = Inr 5, ans_watch = (\<lambda>fd p m. Inr 1)\<rparr>"

lemma quiet_scan_result:
  "ScanReports quiet_scan (Some sample_directory) sample_identity =
     (Inr [\<lparr>Rotation = 0, Report = Some \<lparr>rf_file = Some 10, Generation = \<lparr>Device = 1, Inode = 20\<rparr>,
              Size = 0, ModificationTime = (101, 0)\<rparr>\<rparr>], [FdOpen 4, FdClose 4, FdOpen 10])"
  by code_simp

lemma sample_directory_fd [simp]: "dir_fd sample_directory = Some 3"
  by (simp add: sample_directory_def)

definition sample_decoder :: decoder where
  "sample_decoder = projr (NewDecoder 16777216)"

lemma sample_decoder: "NewDecoder 16777216 = Inr sample_decoder"
  by (simp add: sample_decoder_def NewDecoder_def)

definition sample_session ::
    "generation_registry \<Rightarrow> generation_watermark list \<Rightarrow> 'w record_handler \<Rightarrow> 'w source_session" where
  "sample_session reg cv h = \<lparr>ss_directory = sample_directory, ss_identity = sample_identity,
     ss_watcher = \<lparr>w_fd = Some 5, w_watch = 1\<rparr>, ss_registry = reg, ss_handle = h, ss_observer = None,
     ss_cutover = cv, ss_overflows = 0, ss_closed = False\<rparr>"

lemma sample_session_sel [simp]:
  "ss_directory (sample_session reg cv h) = sample_directory" "ss_identity (sample_session reg cv h) = sample_identity"
  "ss_watcher (sample_session reg cv h) = \<lparr>w_fd = Some 5, w_watch = 1\<rparr>"
  "ss_registry (sample_session reg cv h) = reg" "ss_handle (sample_session reg cv h) = h"
  "ss_observer (sample_session reg cv h) = None" "ss_overflows (sample_session reg cv h) = 0"
  "ss_closed (sample_session reg cv h) = False"
  "(sample_session reg cv h)\<lparr>ss_registry := reg', ss_overflows := 0\<rparr> = sample_session reg' cv h"
  by (simp_all add: sample_session_def)

definition empty_registry :: generation_registry where
  "empty_registry = \<lparr>reg_maxRecordBytes = 16777216, reg_readers = Some Map.empty\<rparr>"

lemma InitializeSource_sample:
  "InitializeSource sample_watch pvs True (Some sample_directory) sample_identity sample_options (Some h) w
     = map_option (\<lambda>(r, w', evs'). (r, w', FdOpen 5 # evs')) (init_loop pvs (sample_session empty_registry [] h) w)"
  by (simp add: InitializeSource_def sample_options_def newGenerationRegistry_def sample_decoder
    WatchReportDirectory_def sample_watch_def sample_session_def empty_registry_def)

definition sample_report :: report_file where
  "sample_report = \<lparr>rf_file = Some 10, Generation = \<lparr>Device = 1, Inode = 20\<rparr>, Size = 0, ModificationTime = (101, 0)\<rparr>"

lemma sample_report_sel [simp]: "rf_file sample_report = Some 10" "Generation sample_report = \<lparr>Device = 1, Inode = 20\<rparr>"
  by (simp_all add: sample_report_def)

lemma quiet_scan_again:
  "ScanReports quiet_scan (Some sample_directory) sample_identity =
     (Inr [\<lparr>Rotation = 0, Report = Some sample_report\<rparr>], [FdOpen 4, FdClose 4, FdOpen 10])"
  by (simp add: quiet_scan_result sample_report_def)

definition sample_rd :: "decoder \<Rightarrow> bytes \<Rightarrow> bool \<Rightarrow> generation_reader" where
  "sample_rd d fp has = \<lparr>report = Some sample_report, rd_decoder = d, rotation = 0,
     lastFingerprint = fp, hasLastFingerprint = has\<rparr>"

definition sample_registry :: "generation_reader \<Rightarrow> generation_registry" where
  "sample_registry rd = \<lparr>reg_maxRecordBytes = 16777216, reg_readers = Some [\<lparr>Device = 1, Inode = 20\<rparr> \<mapsto> rd]\<rparr>"

lemma oldest_single: "oldestFirst [\<lparr>Device = 1, Inode = 20\<rparr>] (sample_registry (sample_rd d fp b)) = [sample_rd d fp b]"
  by (simp add: oldestFirst_def sample_registry_def as_discovered_def OrderGenerationsOldestFirst_def sort_slice_def
     sample_rd_def)

lemma source_pass_quiet:
  assumes "ScanReports (pv_scan pv) (Some (ss_directory s)) (ss_identity s) = (Inr ds, evs)"
    and "register (ss_registry s) ds = (None, n, reg, evs')"
    and "drain_readers (ss_handle s m) (pv_files pv) (oldestFirst (range_of pv reg) reg) reg
      (res\<lparr>NewGenerations := NewGenerations res + n\<rparr>)
      (if m = RecordModeLive \<and> 0 < n then session_notify s (rotation_event n) w else w)
      = Some (None, reg2, res2, w2)"
    and "watcher_Drain (pv_events pv) (Some (ss_watcher s)) = Some (None, no_events)"
  shows "source_pass m pv s res w = Some (Inr (n, False), s\<lparr>ss_registry := reg2\<rparr>, res2, w2, evs @ evs')"
  unfolding source_pass_def assms(1,2) prod.case sum.case option.case Let_def assms(3,4)
  by (simp add: no_events_def)

definition g0 :: generation_id where "g0 = \<lparr>Device = 1, Inode = 20\<rparr>"

lemma generation_sample [simp]: "generation_of (sample_rd d fp b) = g0"
  by (simp add: generation_of_def sample_rd_def g0_def)

lemma put_sample [simp]: "put_reader (Some (sample_rd d fp b)) (sample_registry rd) = sample_registry (sample_rd d fp b)"
  by (simp add: put_reader_def sample_registry_def g0_def)

lemma sample_drain:
  assumes "drain (Some f) vs (Some (sample_rd d fp b)) w = Some (None, Some (sample_rd d' fp' b'), res, w')"
  shows "drain_readers f (pv_files (quiet_pass vs)) (oldestFirst (range_of (quiet_pass vs) (sample_registry (sample_rd d fp b))) (sample_registry (sample_rd d fp b)))
     (sample_registry (sample_rd d fp b)) r w
     = Some (None, sample_registry (sample_rd d' fp' b'),
         r\<lparr>lr_Records := lr_Records r + dr_records res, lr_Bytes := lr_Bytes r + dr_bytes res\<rparr>, w')"
proof -
  have "range_of (quiet_pass vs) (sample_registry (sample_rd d fp b)) = [g0]"
    by (simp add: range_of_def quiet_pass_def sample_registry_def range_sorted_single g0_def)
  then show ?thesis using assms oldest_single [of d fp b] by (simp add: quiet_pass_def flip: g0_def)
qed

lemma quiet_events: "watcher_Drain (pv_events (quiet_pass vs)) (Some (ss_watcher (sample_session reg cv h))) = Some (None, no_events)"
  by (simp add: watcher_Drain_def quiet_pass_def)

lemma register_new: "register empty_registry [\<lparr>Rotation = 0, Report = Some sample_report\<rparr>]
      = (None, 1, sample_registry (sample_rd sample_decoder zero_fingerprint False), [])"
  by (simp add: register_def empty_registry_def newGenerationReader_def sample_decoder sample_rd_def sample_registry_def)

lemma register_known: "register (sample_registry (sample_rd d fp b)) [\<lparr>Rotation = 0, Report = Some sample_report\<rparr>]
      = (None, 0, sample_registry (sample_rd d fp b), [FdClose 10])"
  by (simp add: register_def sample_registry_def sample_rd_def close_events_def report_Close_def)

lemma first_pass:
  assumes "drain (Some (h RecordModeBaseline)) vs (Some (sample_rd sample_decoder zero_fingerprint False)) w
    = Some (None, Some (sample_rd d fp b), res, w')"
  shows "\<exists>r. source_pass RecordModeBaseline (quiet_pass vs) (sample_session empty_registry [] h) zero_live w
    = Some (Inr (1, False), sample_session (sample_registry (sample_rd d fp b)) [] h, 
       r, w', [FdOpen 4, FdClose 4, FdOpen 10])"
  using source_pass_quiet [of "quiet_pass vs" "sample_session empty_registry [] h", OF _ _ _ quiet_events]
    sample_drain [OF assms] quiet_scan_again register_new
  by (fastforce simp: sample_session_def quiet_pass_def)

text \<open>A pass that finds no new report tells an observer nothing.\<close>

lemma next_pass_observed:
  assumes "drain (Some (h m)) vs (Some (sample_rd d fp b)) w = Some (None, Some (sample_rd d' fp' b'), res, w')"
  shows "\<exists>r. source_pass m (quiet_pass vs) ((sample_session (sample_registry (sample_rd d fp b)) cv h)\<lparr>ss_observer := obs\<rparr>) zero_live w
    = Some (Inr (0, False), (sample_session (sample_registry (sample_rd d' fp' b')) cv h)\<lparr>ss_observer := obs\<rparr>,
       r, w', [FdOpen 4, FdClose 4, FdOpen 10, FdClose 10])"
  using source_pass_quiet [of "quiet_pass vs" "(sample_session (sample_registry (sample_rd d fp b)) cv h)\<lparr>ss_observer := obs\<rparr>"]
    quiet_events [of vs "sample_registry (sample_rd d fp b)" cv h] sample_drain [OF assms] quiet_scan_again register_known
  by (fastforce simp: sample_session_def quiet_pass_def)

lemma unobserved_sample: "(sample_session reg cv h)\<lparr>ss_observer := None\<rparr> = sample_session reg cv h"
  by (simp add: sample_session_def)

lemmas next_pass = next_pass_observed [where obs = None, unfolded unobserved_sample]


text \<open>Initialization takes two passes: one that finds the report and one that finds nothing new.\<close>

lemma sample_init:
  assumes "drain (Some (h RecordModeBaseline)) vs (Some (sample_rd sample_decoder zero_fingerprint False)) w
      = Some (None, Some (sample_rd d fp b), res, w1)"
    and "drain (Some (h RecordModeBaseline)) vs' (Some (sample_rd d fp b)) w1
      = Some (None, Some (sample_rd d' fp' b'), res', w2)"
  shows "InitializeSource sample_watch [quiet_pass vs, quiet_pass vs'] True (Some sample_directory)
      sample_identity sample_options (Some h) w
    = Some (Inr (sample_session (sample_registry (sample_rd d' fp' b'))
               (watermarks [g0] (sample_registry (sample_rd d' fp' b'))) h), w2,
        [FdOpen 5, FdOpen 4, FdClose 4, FdOpen 10, FdOpen 4, FdClose 4, FdOpen 10, FdClose 10])"
proof -
  obtain r r' where p: "source_pass RecordModeBaseline (quiet_pass vs) (sample_session empty_registry [] h) zero_live w
      = Some (Inr (1, False), sample_session (sample_registry (sample_rd d fp b)) [] h, r, w1, [FdOpen 4, FdClose 4, FdOpen 10])"
    "source_pass RecordModeBaseline (quiet_pass vs') (sample_session (sample_registry (sample_rd d fp b)) [] h) zero_live w1
      = Some (Inr (0, False), sample_session (sample_registry (sample_rd d' fp' b')) [] h, r', w2,
          [FdOpen 4, FdClose 4, FdOpen 10, FdClose 10])"
    using first_pass [of h, OF assms(1)] next_pass [of h RecordModeBaseline, OF assms(2)] by blast
  have rng: "range_of (quiet_pass us) (sample_registry rd) = [g0]" for us rd
    by (simp add: range_of_def quiet_pass_def sample_registry_def range_sorted_single g0_def)
  have cut: "(sample_session reg [] h)\<lparr>ss_cutover := ws\<rparr> = sample_session reg ws h" for reg ws
    by (simp add: sample_session_def)
  have ctx: "pv_ctx (quiet_pass us) = None" for us by (simp add: quiet_pass_def)
  show ?thesis
    unfolding InitializeSource_sample by (simp add: ctx p len_readers_def rng cut)
qed

lemma sample_reconcile_observed:
  assumes "drain (Some (h RecordModeLive)) vs (Some (sample_rd d fp b)) w
      = Some (None, Some (sample_rd d' fp' b'), res, w')"
  shows "\<exists>r. Reconcile [quiet_pass vs] True (Some ((sample_session (sample_registry (sample_rd d fp b)) cv h)\<lparr>ss_observer := obs\<rparr>)) w
    = Some (None, r, Some ((sample_session (sample_registry (sample_rd d' fp' b')) cv h)\<lparr>ss_observer := obs\<rparr>), w',
        [FdOpen 4, FdClose 4, FdOpen 10, FdClose 10])"
proof -
  have ctx: "pv_ctx (quiet_pass vs) = None" by (simp add: quiet_pass_def)
  show ?thesis using next_pass_observed [of h RecordModeLive, OF assms, where cv = cv and obs = obs]
    by (auto simp: Reconcile_def ctx notifyDiscontinuity_def discontinuityForError_def)
qed

lemmas sample_reconcile = sample_reconcile_observed [where obs = None, unfolded unobserved_sample]

lemma sample_close_observed:
  "session_Close (quiet_pass vs) (Some ((sample_session (sample_registry (sample_rd d fp b)) cv h)\<lparr>ss_observer := obs\<rparr>))
    = (None, Some ((sample_session (sample_registry (sample_rd d fp b)) cv h)\<lparr>ss_observer := obs, ss_closed := True,
        ss_watcher := \<lparr>w_fd = None, w_watch = -1\<rparr>, ss_registry := \<lparr>reg_maxRecordBytes = 16777216, reg_readers = None\<rparr>\<rparr>),
       [FdClose 5, FdClose 10])"
  by (simp add: session_Close_def watcher_Close_def quiet_pass_def registry_close_def range_of_def
      sample_registry_def range_sorted_single reader_close_def report_Close_def sample_rd_def errors_join_def)

lemmas sample_close = sample_close_observed [where obs = None, unfolded unobserved_sample]

lemma file_at_honest: "prefix v c \<Longrightarrow> honest c (file_at v)"
proof -
  assume "prefix v c"
  then obtain zs where c: "c = v @ zs" by (auto simp: prefix_def)
  have "take n (drop off v) = take (min n (length v - off)) (drop off c)" for n off
    by (simp add: c take_drop min_def)
  then show ?thesis unfolding honest_def file_at_def by auto
qed

lemma quiet_pass_honest: "list_all (\<lambda>v. prefix v c) vs \<Longrightarrow> honest_pass (\<lambda>g. c) (quiet_pass (map file_at vs))"
  using file_at_honest range_sorted_ok by (auto simp: honest_pass_def quiet_pass_def list_all_iff)

text \<open>
  The report grows from one record to two; the second is read live.  The handler accepts every
  record.
\<close>

definition accept_all :: "unit record_handler" where
  "accept_all m r u = (None, u)"

definition initial_passes :: "pass_view list" where
  "initial_passes = [quiet_pass (map file_at [''[{},'', ''[{},'']), quiet_pass (map file_at [''[{},''])]"

definition later_passes :: "pass_view list" where
  "later_passes = [quiet_pass (map file_at [''[{},{}]''])]"

lemma sample_passes_honest:
  "list_all (honest_pass (\<lambda>g. ''[{},{}]'')) initial_passes" "list_all (honest_pass (\<lambda>g. ''[{},{}]'')) later_passes"
  using quiet_pass_honest [of "''[{},{}]''"]
  by (simp_all add: initial_passes_def later_passes_def del: list.map)

lemma sample_growth:
  "\<exists>d1 fp1 res1 d2 fp2 res2 d3 fp3 res3 r1 r2.
     drain (Some (noted accept_all RecordModeBaseline)) (map file_at [''[{},'', ''[{},''])
       (Some (sample_rd sample_decoder zero_fingerprint False)) ((), [])
       = Some (None, Some (sample_rd d1 fp1 True), res1, ((), [(RecordModeBaseline, r1)]))
   \<and> drain (Some (noted accept_all RecordModeBaseline)) (map file_at [''[{},''])
       (Some (sample_rd d1 fp1 True)) ((), [(RecordModeBaseline, r1)])
       = Some (None, Some (sample_rd d2 fp2 True), res2, ((), [(RecordModeBaseline, r1)]))
   \<and> drain (Some (noted accept_all RecordModeLive)) (map file_at [''[{},{}]''])
       (Some (sample_rd d2 fp2 True)) ((), [(RecordModeBaseline, r1)])
       = Some (None, Some (sample_rd d3 fp3 True), res3, ((), [(RecordModeBaseline, r1), (RecordModeLive, r2)]))
   \<and> Raw r1 = ''{}'' \<and> Raw r2 = ''{}''"
  by (simp add: sample_rd_def sample_report_def sample_decoder_def NewDecoder_def noted_def accept_all_def
      reader_run decoder_run json_run)

lemma sample_run:
  obtains s evs0 r1 r2 res s' evs1 so
  where "InitializeSource sample_watch initial_passes True (Some sample_directory) sample_identity sample_options
      (Some (noted accept_all)) ((), []) = Some (Inr s, ((), [(RecordModeBaseline, r1)]), evs0)"
    and "Reconcile later_passes True (Some s) ((), [(RecordModeBaseline, r1)])
      = Some (None, res, Some s', ((), [(RecordModeBaseline, r1), (RecordModeLive, r2)]), evs1)"
    and "session_Close (quiet_pass []) (Some s') = (None, so, [FdClose 5, FdClose 10])"
    and "session_owned s' = {#5, 10#}" and "ss_observer s = None" and "ss_closed s = False"
    and "dom (the (reg_readers (ss_registry s'))) = {g0}"
    and "Raw r1 = ''{}''" and "Raw r2 = ''{}''"
proof -
  obtain d1 fp1 res1 d2 fp2 res2 d3 fp3 res3 r1 r2 where g:
    "drain (Some (noted accept_all RecordModeBaseline)) (map file_at [''[{},'', ''[{},''])
       (Some (sample_rd sample_decoder zero_fingerprint False)) ((), [])
       = Some (None, Some (sample_rd d1 fp1 True), res1, ((), [(RecordModeBaseline, r1)]))"
    "drain (Some (noted accept_all RecordModeBaseline)) (map file_at [''[{},''])
       (Some (sample_rd d1 fp1 True)) ((), [(RecordModeBaseline, r1)])
       = Some (None, Some (sample_rd d2 fp2 True), res2, ((), [(RecordModeBaseline, r1)]))"
    "drain (Some (noted accept_all RecordModeLive)) (map file_at [''[{},{}]''])
       (Some (sample_rd d2 fp2 True)) ((), [(RecordModeBaseline, r1)])
       = Some (None, Some (sample_rd d3 fp3 True), res3, ((), [(RecordModeBaseline, r1), (RecordModeLive, r2)]))"
    and raw: "Raw r1 = ''{}''" "Raw r2 = ''{}''"
    using sample_growth by (elim exE conjE) (rule that)
  let ?cv = "watermarks [g0] (sample_registry (sample_rd d2 fp2 True))"
  let ?s' = "sample_session (sample_registry (sample_rd d3 fp3 True)) ?cv (noted accept_all)"
  obtain r where rec: "Reconcile later_passes True (Some (sample_session (sample_registry (sample_rd d2 fp2 True)) ?cv
       (noted accept_all))) ((), [(RecordModeBaseline, r1)])
     = Some (None, r, Some ?s', ((), [(RecordModeBaseline, r1), (RecordModeLive, r2)]),
         [FdOpen 4, FdClose 4, FdOpen 10, FdClose 10])"
    using sample_reconcile [of "noted accept_all", OF g(3)] unfolding later_passes_def by blast
  have owned: "session_owned ?s' = {#5, 10#}"
    by (simp add: session_owned_def watcher_fds_def registry_owned_def readers_owned_def sample_registry_def
        sample_rd_def report_fds_def)
  have dom: "dom (the (reg_readers (ss_registry ?s'))) = {g0}"
    by (simp add: sample_registry_def g0_def)
  show ?thesis
    by (rule that [OF sample_init [of "noted accept_all", OF g(1,2), folded initial_passes_def] rec sample_close owned _ _ dom raw])
      simp_all
qed

end
