(* ===== verification/Session_Properties.thy ===== *)
theory Session_Properties
  imports Session_Sample
begin

text \<open>
  The properties of the reading order, the registry, the watcher and the source session.
\<close>

section \<open>The reading order and the registry\<close>

text \<open>
  C29. Reports are read oldest first, whatever order the runtime ranges over the registry in: the
  list is the same for every order, holds each generation once, and is strictly ordered by the
  code's comparison, higher rotations first.
\<close>

theorem reading_order_is_deterministic:
  assumes "registry_ok reg" and "reg_readers reg = Some rs"
    and "enumerates order rs" and "enumerates order' rs"
  shows "oldestFirst order reg = oldestFirst order' reg
    \<and> sorted_wrt (\<lambda>a b. older_generation (as_discovered a) (as_discovered b)) (oldestFirst order reg)
    \<and> distinct (map generation_of (oldestFirst order reg))
    \<and> set (map generation_of (oldestFirst order reg)) = dom rs"
proof -
  note spec = oldestFirst_spec [OF assms(1-3)]
  have "inj_on (age_of \<circ> as_discovered) (set (oldestFirst order reg))"
  proof (rule inj_onI)
    fix a b assume ab: "a \<in> set (oldestFirst order reg)" "b \<in> set (oldestFirst order reg)"
      "(age_of \<circ> as_discovered) a = (age_of \<circ> as_discovered) b"
    then have "generation_of a = generation_of b"
      by (simp add: age_of_def as_discovered_def generation_of_def Let_def generation_id.equality)
    moreover have "rs (generation_of x) = Some x" if "x \<in> set (oldestFirst order reg)" for x
      using spec that unfolding list_all_iff by blast
    ultimately show "a = b" using ab(1,2) by (metis option.inject)
  qed
  then have "distinct (map (age_of \<circ> as_discovered) (oldestFirst order reg))"
    using spec by (simp add: distinct_map)
  then have "sorted_wrt (<) (map (age_of \<circ> as_discovered) (oldestFirst order reg))"
    using spec by (simp add: strict_sorted_iff)
  then have "sorted_wrt (\<lambda>a b. older_generation (as_discovered a) (as_discovered b)) (oldestFirst order reg)"
    by (simp add: sorted_wrt_map older_generation_iff)
  moreover have "oldestFirst order reg = oldestFirst order' reg"
    by (rule oldestFirst_order [OF assms(1)]) (use assms(2-4) in simp)
  ultimately show ?thesis using spec by simp
qed

definition two_readers :: readers where
  "two_readers = [g0 \<mapsto> sample_rd sample_decoder zero_fingerprint False,
     \<lparr>Device = 1, Inode = 21\<rparr> \<mapsto> (sample_rd sample_decoder zero_fingerprint False)
        \<lparr>report := Some (sample_report\<lparr>Generation := \<lparr>Device = 1, Inode = 21\<rparr>\<rparr>), rotation := 1\<rparr>]"

lemma two_readers_ok: "registry_ok \<lparr>reg_maxRecordBytes = 16777216, reg_readers = Some two_readers\<rparr>"
  by (simp add: registry_ok_def two_readers_def g0_def sample_rd_def)

lemma two_readers_orders:
  "enumerates [g0, \<lparr>Device = 1, Inode = 21\<rparr>] two_readers"
  "enumerates [\<lparr>Device = 1, Inode = 21\<rparr>, g0] two_readers"
  by (auto simp: enumerates_def two_readers_def g0_def)

theorem reading_order_is_deterministic_witness:
  "oldestFirst [g0, \<lparr>Device = 1, Inode = 21\<rparr>] \<lparr>reg_maxRecordBytes = 16777216, reg_readers = Some two_readers\<rparr>
     = oldestFirst [\<lparr>Device = 1, Inode = 21\<rparr>, g0] \<lparr>reg_maxRecordBytes = 16777216, reg_readers = Some two_readers\<rparr>
   \<and> map rotation (oldestFirst [g0, \<lparr>Device = 1, Inode = 21\<rparr>]
       \<lparr>reg_maxRecordBytes = 16777216, reg_readers = Some two_readers\<rparr>) = [1, 0]"
  using reading_order_is_deterministic [OF two_readers_ok _ two_readers_orders]
  by (simp add: oldestFirst_def OrderGenerationsOldestFirst_def sort_slice_def as_discovered_def
      older_generation_def two_readers_def g0_def sample_rd_def)

text \<open>
  Registering what a scan found loses nothing: every known reader stays, with its decoder and
  descriptor and at most a higher rotation; each new generation gets one reader; and the
  descriptors that are then open are exactly those of the readers, also when it fails half way.
\<close>

theorem registration_keeps_readers:
  assumes "register reg ds = (e, n, reg', evs)" and "registry_ok reg" and "reg_readers reg = Some rs"
  shows "\<exists>rs'. reg_readers reg' = Some rs' \<and> keeps_readers rs rs' \<and> card (dom rs') = card (dom rs) + n
    \<and> registry_ok reg' \<and> (\<forall>m. live_from (owned ds + registry_owned reg + m) evs = registry_owned reg' + m)"
  using register_ok [OF assms(1,2)] assms(3) by (auto simp: fd_flow_def)

theorem registration_keeps_readers_witness:
  "\<exists>rs'. reg_readers (sample_registry (sample_rd sample_decoder zero_fingerprint False)) = Some rs' \<and> card (dom rs') = 1
     \<and> live_from ({#10#} + {#10#} + {#3#}) [FdClose 10] = {#10#} + {#3#}"
proof -
  have ok: "registry_ok (sample_registry (sample_rd sample_decoder zero_fingerprint False))"
    by (simp add: registry_ok_def sample_registry_def sample_rd_def)
  have "reg_readers (sample_registry (sample_rd sample_decoder zero_fingerprint False)) = Some [g0 \<mapsto> sample_rd sample_decoder zero_fingerprint False]"
    by (simp add: sample_registry_def g0_def)
  from registration_keeps_readers [OF register_known ok this] this show ?thesis
    by (simp add: registry_owned_def readers_owned_def sample_registry_def sample_rd_def report_fds_def)
qed

section \<open>The watcher\<close>

text \<open>
  C30. A buffer of events is accepted exactly when it is a sequence of whole events as the kernel
  lays them out, however long their names are, and the flags then say: something changed if there
  was an event, overflow and invalidation if an event of theirs was among them.
\<close>

theorem event_buffers_parse_exactly:
  "collectDirectoryEvents buf ev0 = (None, ev) \<longleftrightarrow>
     (\<exists>es. list_all event_fits es \<and> buf = events_bytes es \<and> ev =
        \<lparr>Changed = (if es = [] then Changed ev0 else True),
         Overflowed = (Overflowed ev0 \<or> list_ex (\<lambda>e. ev_mask e AND IN_Q_OVERFLOW \<noteq> 0) es),
         Invalidated = (Invalidated ev0 \<or> list_ex (\<lambda>e. ev_mask e AND invalidating \<noteq> 0) es)\<rparr>)"
proof -
  have "(if es = [] then Changed ev0 else True) = (Changed ev0 \<or> es \<noteq> [])" for es :: "inotify_event list"
    by simp
  then show ?thesis
    using collect_complete [of buf ev0 ev] collect_events unfolding events_noted_eq by auto
qed

text \<open>
  C31. Draining the watcher reads every queued event: over any number of reads, interrupted or
  not, until the kernel has no more, the flags are those of all the events together, so a change
  during a pass is never missed.
\<close>

theorem drain_sees_every_event:
  assumes "\<forall>es. Some es \<in> set groups \<longrightarrow> es \<noteq> [] \<and> list_all event_fits es"
  shows "watcher_Drain (reads_of groups @ [WouldBlock]) (Some \<lparr>w_fd = Some fd, w_watch = wd\<rparr>) = Some (None,
    \<lparr>Changed = (all_events groups \<noteq> []),
     Overflowed = list_ex (\<lambda>e. ev_mask e AND IN_Q_OVERFLOW \<noteq> 0) (all_events groups),
     Invalidated = list_ex (\<lambda>e. ev_mask e AND invalidating \<noteq> 0) (all_events groups)\<rparr>)"
  using drain_events_all [OF assms] by (simp add: watcher_Drain_def events_noted_eq no_events_def)

definition overflow_event :: inotify_event where
  "overflow_event = \<lparr>ev_wd = 1, ev_mask = 0x4000, ev_cookie = 0, ev_name = []\<rparr>"

theorem drain_sees_every_event_witness:
  "\<exists>ev. watcher_Drain [ReadInterrupted, ReadBytes (event_bytes overflow_event), WouldBlock]
      (Some \<lparr>w_fd = Some 5, w_watch = 1\<rparr>) = Some (None, ev) \<and> Changed ev \<and> Overflowed ev \<and> \<not> Invalidated ev"
proof -
  have "\<forall>es. Some es \<in> set [None, Some [overflow_event]] \<longrightarrow> es \<noteq> [] \<and> list_all event_fits es"
    by (simp add: event_fits_def overflow_event_def)
  from drain_sees_every_event [OF this, of 5 1] show ?thesis
    by (simp add: reads_of_def all_events_def events_bytes_def overflow_event_def IN_Q_OVERFLOW_def
        invalidating_def IN_IGNORED_def IN_MOVE_SELF_def IN_DELETE_SELF_def)
qed

lemma wait_loop_polls:
  "wait_loop as w = Some (r, polls) \<Longrightarrow> list_all (\<lambda>p. 1 \<le> p \<and> p \<le> 100) polls"
proof (induction "as" arbitrary: polls)
  case (Cons a "as")
  have "1 \<le> pollMilliseconds (poll_duration (wa_remaining a)) \<and> pollMilliseconds (poll_duration (wa_remaining a)) \<le> 100"
    if "0 < wa_remaining a"
    using pollMilliseconds_bounds poll_duration_bounds [OF that] by blast
  with Cons show ?case
    by (auto simp: Let_def not_le split: option.splits if_splits poll_answer.splits)
qed simp

lemma wait_loop_returns:
  "a \<in> set as \<Longrightarrow> wa_ctx a \<noteq> None \<or> wa_remaining a \<le> 0 \<Longrightarrow> wait_loop as w \<noteq> None"
  by (induction "as") (auto simp: Let_def split: option.splits poll_answer.splits)

text \<open>
  C32. A wait returns as soon as its context is cancelled or its time is up, whatever \<open>poll\<close>
  answers before that, and it never asks \<open>poll\<close> to block for less than one or more than one
  hundred milliseconds, so a cancellation is noticed that soon.
\<close>

theorem wait_returns:
  assumes "0 < maxWait" and "a \<in> set answers" and "wa_ctx a \<noteq> None \<or> wa_remaining a \<le> 0"
  shows "\<exists>r polls. watcher_Wait answers True maxWait (Some w) = Some (r, polls)
    \<and> list_all (\<lambda>p. 1 \<le> p \<and> p \<le> 100) polls"
  using wait_loop_returns [OF assms(2,3), of w] wait_loop_polls assms(1)
  by (auto simp: watcher_Wait_def)

theorem wait_returns_witness:
  "\<exists>r polls. watcher_Wait [\<lparr>wa_ctx = None, wa_remaining = 1, wa_poll = PollTimeout\<rparr>,
       \<lparr>wa_ctx = None, wa_remaining = 0, wa_poll = PollTimeout\<rparr>] True 1 (Some \<lparr>w_fd = Some 5, w_watch = 1\<rparr>)
     = Some (r, polls) \<and> list_all (\<lambda>p. 1 \<le> p \<and> p \<le> 100) polls"
  by (rule wait_returns [of 1 "\<lparr>wa_ctx = None, wa_remaining = 0, wa_poll = PollTimeout\<rparr>"]) simp_all

section \<open>The session\<close>

text \<open>
  C28. A session loses no descriptor: a failed initialization leaves none open; a live session, after
  any reconciliations, drains and runs in any order, failed or not, has exactly its watcher and its
  readers open; and closing it closes them all.
\<close>

theorem sessions_leak_nothing:
  assumes "InitializeSource os pvs has_ctx dir i options handle w = Some (r, w1, evs)"
    and "list_all (honest_pass c) pvs"
    and "\<And>s. r = Inr s \<Longrightarrow> session_steps c s w1 evs' s' w2"
    and "session_Close pv (Some s') = (ce, so, evs'')" and "ranges pv"
  shows "case r of Inl e \<Rightarrow> live evs = {#}
    | Inr s \<Rightarrow> live (evs @ evs') = session_owned s' \<and> live (evs @ evs' @ evs'') = {#}"
proof -
  from InitializeSource_ok [OF assms(1,2)] obtain es where es:
    "case r of Inl e \<Rightarrow> fd_flow {#} evs {#}
      | Inr s \<Rightarrow> fd_flow {#} evs (session_owned s) \<and> session_ok s \<and> accounted c (ss_registry s) es"
    by (cases r) auto
  show ?thesis
  proof (cases r)
    case (Inl e)
    with es fd_flow_live show ?thesis by simp
  next
    case (Inr s)
    with es obtain fs where "session_does c s w1 es s' w2 fs evs'"
      using session_steps_does [OF assms(3) [OF Inr]] by auto
    then have k: "session_ok s'" "fd_flow (session_owned s) evs' (session_owned s')"
      by (simp_all add: session_does_def keeps_def)
    have f: "fd_flow {#} (evs @ evs') (session_owned s')" using es Inr k(2) by (auto intro: fd_flow_append)
    moreover have "fd_flow {#} ((evs @ evs') @ evs'') {#}"
      using f session_Close_ok [OF assms(4) k(1) assms(5)] by (intro fd_flow_append [OF f]) blast
    ultimately show ?thesis using Inr fd_flow_live by fastforce
  qed
qed

theorem sessions_leak_nothing_witness:
  "\<exists>s w1 evs evs' s' w2 so evs''.
     InitializeSource sample_watch initial_passes True (Some sample_directory) sample_identity sample_options
       (Some (noted accept_all)) ((), []) = Some (Inr s, w1, evs)
     \<and> session_steps (\<lambda>g. ''[{},{}]'') s w1 evs' s' w2 \<and> length (snd w2) = 2
     \<and> session_Close (quiet_pass []) (Some s') = (None, so, evs'')
     \<and> live (evs @ evs') = {#5, 10#} \<and> live (evs @ evs' @ evs'') = {#}"
proof -
  obtain s evs0 r1 r2 res s' evs1 so where
    i: "InitializeSource sample_watch initial_passes True (Some sample_directory) sample_identity sample_options
      (Some (noted accept_all)) ((), []) = Some (Inr s, ((), [(RecordModeBaseline, r1)]), evs0)" and
    r: "Reconcile later_passes True (Some s) ((), [(RecordModeBaseline, r1)])
      = Some (None, res, Some s', ((), [(RecordModeBaseline, r1), (RecordModeLive, r2)]), evs1)" and
    c: "session_Close (quiet_pass []) (Some s') = (None, so, [FdClose 5, FdClose 10])" and
    o: "session_owned s' = {#5, 10#}"
    by (rule sample_run)
  note steps = steps_one [OF steps_none step_reconcile [OF r sample_passes_honest(2)]]
  have "ranges (quiet_pass [])" using range_sorted_ok by (simp add: ranges_def quiet_pass_def)
  from sessions_leak_nothing [OF i sample_passes_honest(1) _ c this] steps o
  have "live (evs0 @ [] @ evs1) = {#5, 10#}" "live (evs0 @ ([] @ evs1) @ [FdClose 5, FdClose 10]) = {#}" by auto
  with i steps c show ?thesis by fastforce
qed

text \<open>The reports of a registry are tiled by the records of a trace, each by its own.\<close>

definition tiled :: "bytes \<Rightarrow> generation_reader \<Rightarrow> source_record list \<Rightarrow> bool" where
  "tiled content rd applied =
     (if opened (rd_decoder rd)
      then report_prefix (take (CommittedOffset (rd_decoder rd)) content) applied (Closed (rd_decoder rd))
      else CommittedOffset (rd_decoder rd) = 0 \<and> applied = [])"

definition applied_once :: "(generation_id \<Rightarrow> bytes) \<Rightarrow> generation_registry \<Rightarrow> session_effect list \<Rightarrow> bool" where
  "applied_once c reg es \<longleftrightarrow>
     (\<forall>g. case the (reg_readers reg) g of None \<Rightarrow> records_of g es = [] | Some rd \<Rightarrow> tiled (c g) rd (records_of g es))"

lemma accounted_once:
  assumes "accounted c reg es" "reg_readers reg \<noteq> None"
  shows "applied_once c reg es"
  unfolding applied_once_def
proof (intro allI)
  fix g
  have a: "accounted_readers c (the (reg_readers reg)) es" using assms by (auto simp: accounted_def)
  show "case the (reg_readers reg) g of None \<Rightarrow> records_of g es = [] | Some rd \<Rightarrow> tiled (c g) rd (records_of g es)"
  proof (cases "the (reg_readers reg) g")
    case None
    with accounted_readersD(1) [OF a] show ?thesis by simp
  next
    case (Some rd)
    from accounted_readersD(2) [OF a Some] obtain s where
      "prefix s (c g)" "reader_inv rd s (records_of g es)" by blast
    from reader_inv_report [OF this(2,1)] Some show ?thesis by (simp add: tiled_def)
  qed
qed

lemma applied_modes: "set (modes_of es) \<subseteq> {m} \<Longrightarrow> list_all (\<lambda>(m', r). m' = m) (applied_of es)"
  by (induction es rule: applied_of.induct) auto

text \<open>A session as it is initialized, or with an observer attached.\<close>

definition perhaps_observed :: "'w source_session \<Rightarrow> 'w source_observer option \<Rightarrow> 'w source_session \<Rightarrow> bool" where
  "perhaps_observed s obs s1 \<longleftrightarrow>
     obs = None \<and> s1 = s \<or> session_AttachObserver obs (Some s) = (None, Some s1)"

lemma perhaps_observed_cases:
  assumes "perhaps_observed s obs s1" "ss_observer s = None"
  shows "s1 = s\<lparr>ss_observer := obs\<rparr>"
  using assms by (auto simp: perhaps_observed_def session_AttachObserver_def split: if_splits)

lemma session_ok_observed [simp]: "session_ok (s\<lparr>ss_observer := obs\<rparr>) = session_ok s"
  by (simp add: session_ok_def)

text \<open>
  C2. Over the whole life of a session every record is applied exactly once: the records the
  handler accepted interleave, report by report, records that tile the report up to the offset the
  session has committed; those of the initialization are applied as baseline and all later ones
  live; whatever the kernel returns, whenever the handler refuses, observed or not.
\<close>

theorem sessions_apply_records_once:
  assumes "InitializeSource os pvs has_ctx dir i options (Some (noted f)) (u, []) = Some (Inr s, (u1, base), evs)"
    and "list_all (honest_pass c) pvs" and "perhaps_observed s (beside obs) s1"
    and "session_steps c s1 (u1, base) evs' s2 (u2, all)"
  shows "\<exists>es later. all = base @ later \<and> list_all (\<lambda>(m, r). m = RecordModeBaseline) base
    \<and> list_all (\<lambda>(m, r). m = RecordModeLive) later
    \<and> all = applied_of es \<and> applied_once c (ss_registry s2) es"
proof -
  from InitializeSource_ok [OF assms(1,2)] obtain es where es: "effects (noted f) None es (u, []) (u1, base)"
    "set (modes_of es) \<subseteq> {RecordModeBaseline}" "session_ok s" "\<exists>pv. cut_over pv s" "ss_handle s = noted f"
    "ss_observer s = None" "accounted c (ss_registry s) es" by auto
  have s1: "s1 = s\<lparr>ss_observer := beside obs\<rparr>" using perhaps_observed_cases [OF assms(3) es(6)] .
  have op: "\<not> ss_closed s" using es(4) by (auto simp: cut_over_def)
  obtain fs where "session_does c s1 (u1, base) es s2 (u2, all) fs evs'"
    using session_steps_does [OF assms(4), of es] es(3,7) by (auto simp: s1)
  then have fs: "effects (noted f) (beside obs) fs (u1, base) (u2, all)" "accounted c (ss_registry s2) (es @ fs)"
    "set (modes_of fs) \<subseteq> {RecordModeLive}" "session_ok s2" "\<not> ss_closed s2"
    using es(5) op by (auto simp: session_does_def traced_def keeps_def same_session_def s1)
  have "base = applied_of es" using noted_effects [of f None es "(u, [])" "(u1, base)"] es(1) by (simp add: beside_def)
  moreover have "all = base @ applied_of fs" using noted_effects [OF fs(1)] by simp
  moreover have "list_all (\<lambda>(m, r). m = RecordModeBaseline) (applied_of es)"
    "list_all (\<lambda>(m, r). m = RecordModeLive) (applied_of fs)"
    using es(2) fs(3) by (simp_all add: applied_modes)
  moreover have "applied_once c (ss_registry s2) (es @ fs)"
    using fs(2,4,5) by (intro accounted_once) (auto simp: session_ok_def)
  ultimately show ?thesis by (intro exI [of _ "es @ fs"] exI [of _ "applied_of fs"]) simp
qed

theorem sessions_apply_records_once_witness:
  "\<exists>s r1 r2 evs evs' s' es.
     InitializeSource sample_watch initial_passes True (Some sample_directory) sample_identity sample_options
       (Some (noted accept_all)) ((), []) = Some (Inr s, ((), [(RecordModeBaseline, r1)]), evs)
     \<and> session_steps (\<lambda>g. ''[{},{}]'') s ((), [(RecordModeBaseline, r1)]) evs' s'
         ((), [(RecordModeBaseline, r1), (RecordModeLive, r2)])
     \<and> [(RecordModeBaseline, r1), (RecordModeLive, r2)] = applied_of es
     \<and> applied_once (\<lambda>g. ''[{},{}]'') (ss_registry s') es"
proof -
  obtain s evs0 r1 r2 res s' evs1 so where
    i: "InitializeSource sample_watch initial_passes True (Some sample_directory) sample_identity sample_options
      (Some (noted accept_all)) ((), []) = Some (Inr s, ((), [(RecordModeBaseline, r1)]), evs0)" and
    r: "Reconcile later_passes True (Some s) ((), [(RecordModeBaseline, r1)])
      = Some (None, res, Some s', ((), [(RecordModeBaseline, r1), (RecordModeLive, r2)]), evs1)" and
    "ss_observer s = None"
    by (rule sample_run)
  note steps = steps_one [OF steps_none step_reconcile [OF r sample_passes_honest(2)]]
  have "perhaps_observed s (beside None) s" by (simp add: perhaps_observed_def beside_def)
  from sessions_apply_records_once [OF i sample_passes_honest(1) this steps] i steps show ?thesis by blast
qed

text \<open>
  C26. A successful initialization hands over a live session at a consistent cutover: there is at
  least one report, the cutover lists each report once, oldest first, and the records applied so
  far, all as baseline and none announced, tile each report up to its offset in the cutover.
\<close>

theorem initialization_cuts_over:
  assumes "InitializeSource os pvs has_ctx dir i options (Some (noted f)) (u, []) = Some (Inr s, (u1, base), evs)"
    and "list_all (honest_pass c) pvs"
  shows "\<exists>rs rds es. reg_readers (ss_registry s) = Some rs \<and> rds \<noteq> []
    \<and> session_Cutover (Some s) = map watermark rds
    \<and> distinct (map generation_of rds) \<and> set (map generation_of rds) = dom rs
    \<and> list_all (\<lambda>rd. rs (generation_of rd) = Some rd) rds
    \<and> base = applied_of es \<and> list_all (\<lambda>(m, r). m = RecordModeBaseline) base \<and> events_of es = []
    \<and> list_all (\<lambda>rd. tiled (c (generation_of rd)) rd (records_of (generation_of rd) es)) rds"
proof -
  from InitializeSource_ok [OF assms(1,2)] obtain es pv where es: "effects (noted f) None es (u, []) (u1, base)"
    "set (modes_of es) \<subseteq> {RecordModeBaseline}" "events_of es = []" "session_ok s" "pv \<in> set pvs" "cut_over pv s"
    "accounted c (ss_registry s) es" by auto
  have op: "\<not> ss_closed s" "0 < len_readers pv (ss_registry s)"
    "ss_cutover s = watermarks (range_of pv (ss_registry s)) (ss_registry s)"
    using es(6) by (simp_all add: cut_over_def)
  obtain rs where rs: "reg_readers (ss_registry s) = Some rs" using es(4) op(1) by (auto simp: session_ok_def)
  let ?order = "range_of pv (ss_registry s)"
  have "ranges pv" using assms(2) es(5) by (auto simp: list_all_iff honest_pass_def ranges_def)
  then have order: "enumerates ?order rs" using es(4) rs by (auto simp: session_ok_def intro: range_of_enumerates)
  have reg: "registry_ok (ss_registry s)" using es(4) by (simp add: session_ok_def)
  define rds where "rds = oldestFirst ?order (ss_registry s)"
  note spec = oldestFirst_spec [OF reg rs order, folded rds_def]
  have "?order \<noteq> []" using op(2) by (auto simp: len_readers_def)
  then have "rds \<noteq> []" using spec order by (auto simp: enumerates_def)
  moreover have "session_Cutover (Some s) = map watermark rds"
    by (simp add: session_Cutover_def op(3) watermarks_def rds_def)
  moreover have "base = applied_of es"
    using noted_effects [of f None es "(u, [])" "(u1, base)"] es(1) by (simp add: beside_def)
  moreover have "list_all (\<lambda>(m, r). m = RecordModeBaseline) (applied_of es)"
    using es(2) by (rule applied_modes)
  moreover have "list_all (\<lambda>rd. tiled (c (generation_of rd)) rd (records_of (generation_of rd) es)) rds"
    unfolding list_all_iff
  proof
    fix rd assume "rd \<in> set rds"
    then have "rs (generation_of rd) = Some rd" using spec unfolding list_all_iff by blast
    with accounted_once [OF es(7)] rs show "tiled (c (generation_of rd)) rd (records_of (generation_of rd) es)"
      unfolding applied_once_def by (metis option.distinct(1) option.sel option.simps(5))
  qed
  ultimately show ?thesis using rs spec es(3) by blast
qed

theorem initialization_cuts_over_witness:
  "\<exists>s w1 evs. InitializeSource sample_watch initial_passes True (Some sample_directory) sample_identity sample_options
       (Some (noted accept_all)) ((), []) = Some (Inr s, w1, evs)
     \<and> session_Cutover (Some s) \<noteq> [] \<and> map fst (snd w1) = [RecordModeBaseline]"
proof -
  obtain s evs0 r1 where
    i: "InitializeSource sample_watch initial_passes True (Some sample_directory) sample_identity sample_options
      (Some (noted accept_all)) ((), []) = Some (Inr s, ((), [(RecordModeBaseline, r1)]), evs0)"
    by (rule sample_run)
  from initialization_cuts_over [OF i sample_passes_honest(1)] obtain rds where
    "rds \<noteq> []" "session_Cutover (Some s) = map watermark rds" by blast
  with i show ?thesis by (intro exI conjI) (assumption, auto)
qed

text \<open>
  C27. A reconciliation reports what happened: its observer is told once of every group of new
  reports, before their records are read, and last, if and only if the error is one, of the
  discontinuity; the result counts exactly the new reports and, when it succeeds, exactly the
  records that were applied.
\<close>

theorem reconciliations_are_reported:
  assumes "Reconcile pvs True (Some s) (u, before) = Some (e, res, Some s', (u', told), evs)"
    and "session_ok s" and "\<not> ss_closed s" and "list_all (honest_pass c) pvs" and "accounted c (ss_registry s) tr"
    and "ss_handle s = aside f" and "ss_observer s = Some (logs_events ob)"
  shows "\<exists>ns es. told = before @ map rotation_event ns
      @ (case discontinuityForError e of None \<Rightarrow> []
         | Some reason \<Rightarrow> [\<lparr>Kind = SourceEventDiscontinuity, Count = 1, Reason = Some reason\<rparr>])
    \<and> list_all (\<lambda>n. 0 < n) ns \<and> NewGenerations res = sum_list ns
    \<and> effects (aside f) (Some (logs_events ob)) es (u, before) (u', told)
    \<and> lr_Records res \<le> length (modes_of es) \<and> (e = None \<longrightarrow> lr_Records res = length (modes_of es))"
proof -
  from Reconcile_trace [OF assms(1-5)] obtain es ns where es: "traced c s (u, before) tr s' (u', told) es"
    "events_of es = map rotation_event ns @ discontinuity_events (Some (logs_events ob)) e"
    "list_all (\<lambda>n. 0 < n) ns" "NewGenerations res = sum_list ns"
    "lr_Records res \<le> length (modes_of es)" "e = None \<longrightarrow> lr_Records res = length (modes_of es)"
    by (auto simp: assms(7) rotation_events_def)
  from es(1) have ef: "effects (aside f) (Some (logs_events ob)) es (u, before) (u', told)"
    by (simp add: traced_def assms(6,7))
  from told_effects [OF ef] es(2) have "told = before @ map rotation_event ns
      @ (case discontinuityForError e of None \<Rightarrow> []
         | Some reason \<Rightarrow> [\<lparr>Kind = SourceEventDiscontinuity, Count = 1, Reason = Some reason\<rparr>])"
    by (simp add: discontinuity_events_def split: option.splits)
  with es ef show ?thesis by blast
qed


text \<open>A session that finds a report, reads it, and then finds it truncated.\<close>

definition truncating_passes :: "pass_view list" where
  "truncating_passes = [quiet_pass (map file_at [''[{},'', ''[{},'']), quiet_pass (map file_at [[]])]"

definition told_session :: "(unit \<times> source_event list) source_session" where
  "told_session = (sample_session empty_registry [] (aside accept_all))
     \<lparr>ss_observer := Some (logs_events (\<lambda>ev u. u))\<rparr>"

lemma told_growth:
  "\<exists>d1 fp1 res1 res2.
     drain (Some (aside accept_all RecordModeLive)) (map file_at [''[{},'', ''[{},''])
       (Some (sample_rd sample_decoder zero_fingerprint False)) ((), evs)
       = Some (None, Some (sample_rd d1 fp1 True), res1, ((), evs))
   \<and> drain (Some (aside accept_all RecordModeLive)) (map file_at [[]])
       (Some (sample_rd d1 fp1 True)) ((), evs)
       = Some (Some (generation_truncated 0 (Suc (Suc (Suc (Suc 0))))), Some (sample_rd d1 fp1 True), res2, ((), evs))"
  by (simp add: sample_rd_def sample_report_def sample_decoder_def NewDecoder_def aside_def accept_all_def
      reader_run decoder_run json_run)

lemma source_pass_failed:
  assumes "ScanReports (pv_scan pv) (Some (ss_directory s)) (ss_identity s) = (Inr ds, evs)"
    and "register (ss_registry s) ds = (None, 0, reg, evs')"
    and "drain_readers (ss_handle s m) (pv_files pv) (oldestFirst (range_of pv reg) reg) reg res w
      = Some (Some e, reg2, res2, w2)"
  shows "source_pass m pv s res w = Some (Inl e, s\<lparr>ss_registry := reg2\<rparr>, res2, w2, evs @ evs')"
  unfolding source_pass_def assms(1,2) prod.case sum.case option.case Let_def using assms(3) by simp

lemma told_passes:
  "\<exists>res rd err. Reconcile truncating_passes True (Some told_session) ((), [])
      = Some (Some err, res, Some (told_session\<lparr>ss_registry := sample_registry rd\<rparr>),
          ((), [rotation_event 1, \<lparr>Kind = SourceEventDiscontinuity, Count = 1,
                                   Reason = Some SourceDiscontinuityGenerationTruncated\<rparr>]),
          [FdOpen 4, FdClose 4, FdOpen 10, FdOpen 4, FdClose 4, FdOpen 10, FdClose 10])
     \<and> discontinuityForError (Some err) = Some SourceDiscontinuityGenerationTruncated"
proof -
  obtain d1 fp1 res1 res2 where g:
    "drain (Some (aside accept_all RecordModeLive)) (map file_at [''[{},'', ''[{},''])
       (Some (sample_rd sample_decoder zero_fingerprint False)) ((), [rotation_event 1])
       = Some (None, Some (sample_rd d1 fp1 True), res1, ((), [rotation_event 1]))"
    "drain (Some (aside accept_all RecordModeLive)) (map file_at [[]])
       (Some (sample_rd d1 fp1 True)) ((), [rotation_event 1])
       = Some (Some (generation_truncated 0 (Suc (Suc (Suc (Suc 0))))), Some (sample_rd d1 fp1 True), res2, ((), [rotation_event 1]))"
    using told_growth [of "[rotation_event 1]"] by (elim exE conjE) (rule that)
  let ?s1 = "told_session\<lparr>ss_registry := sample_registry (sample_rd d1 fp1 True)\<rparr>"
  have sel: "ss_directory told_session = sample_directory" "ss_identity told_session = sample_identity"
    "ss_watcher told_session = \<lparr>w_fd = Some 5, w_watch = 1\<rparr>" "ss_registry told_session = empty_registry"
    "ss_handle told_session = aside accept_all" "ss_closed told_session = False"
    "ss_observer told_session = Some (logs_events (\<lambda>ev u. u))"
    by (simp_all add: told_session_def)
  have tell: "session_notify s ev ((), evs) = ((), evs @ [ev])"
    if "ss_observer s = Some (logs_events (\<lambda>ev u. u))" "0 < Count ev" for s ev evs
    using that by (simp add: session_notify_def logs_events_def)
  have scan: "ScanReports (pv_scan (quiet_pass vs)) (Some sample_directory) sample_identity =
     (Inr [\<lparr>Rotation = 0, Report = Some sample_report\<rparr>], [FdOpen 4, FdClose 4, FdOpen 10])" for vs
    using quiet_scan_again by (simp add: quiet_pass_def)
  have ev: "watcher_Drain (pv_events (quiet_pass vs)) (Some \<lparr>w_fd = Some 5, w_watch = 1\<rparr>) = Some (None, no_events)" for vs
    by (simp add: watcher_Drain_def quiet_pass_def)
  obtain r1 where p1: "source_pass RecordModeLive (quiet_pass (map file_at [''[{},'', ''[{},''])) told_session zero_live ((), [])
    = Some (Inr (1, False), ?s1, r1, ((), [rotation_event 1]), [FdOpen 4, FdClose 4, FdOpen 10])"
    using source_pass_quiet [of _ told_session, unfolded sel, OF scan register_new _ ev]
      sample_drain [OF g(1)] by (simp add: tell sel rotation_event_def)
  have p2: "source_pass RecordModeLive (quiet_pass (map file_at [[]])) ?s1 res ((), [rotation_event 1])
    = Some (Inl (generation_truncated 0 (Suc (Suc (Suc (Suc 0))))), ?s1, res, ((), [rotation_event 1]),
        [FdOpen 4, FdClose 4, FdOpen 10, FdClose 10])" for res
  proof -
    have "range_of (quiet_pass (map file_at [[]])) (sample_registry (sample_rd d1 fp1 True)) = [g0]"
      by (simp add: range_of_def quiet_pass_def sample_registry_def range_sorted_single g0_def)
    then have o: "oldestFirst (range_of (quiet_pass (map file_at [[]])) (sample_registry (sample_rd d1 fp1 True)))
        (sample_registry (sample_rd d1 fp1 True)) = [sample_rd d1 fp1 True]"
      using oldest_single by (simp flip: g0_def)
    have f: "pv_files (quiet_pass vs) g = vs" for vs g by (simp add: quiet_pass_def)
    have "drain_readers (ss_handle ?s1 RecordModeLive) (pv_files (quiet_pass (map file_at [[]])))
        [sample_rd d1 fp1 True] (sample_registry (sample_rd d1 fp1 True)) res ((), [rotation_event 1])
      = Some (Some (generation_truncated 0 (Suc (Suc (Suc (Suc 0))))), sample_registry (sample_rd d1 fp1 True), res,
          ((), [rotation_event 1]))"
      using g(2) by (simp add: f sel del: list.map)
    with source_pass_failed [of "quiet_pass (map file_at [[]])" ?s1] scan register_known o show ?thesis
      by (simp add: sel del: list.map)
  qed
  have d: "discontinuityForError (Some (generation_truncated 0 (Suc (Suc (Suc (Suc 0))))))
      = Some SourceDiscontinuityGenerationTruncated"
    by (simp add: discontinuityForError_def generation_truncated_def)
  have ctx: "pv_ctx (quiet_pass vs) = None" for vs by (simp add: quiet_pass_def)
  have "\<exists>r. reconcile_loop truncating_passes told_session zero_live ((), [])
      = Some (Some (generation_truncated 0 (Suc (Suc (Suc (Suc 0))))), r, ?s1, ((), [rotation_event 1]),
          [FdOpen 4, FdClose 4, FdOpen 10, FdOpen 4, FdClose 4, FdOpen 10, FdClose 10])"
    unfolding truncating_passes_def reconcile_loop_pass [OF ctx p1] reconcile_loop_pass [OF ctx p2]
    by (simp add: goes_on_def)
  then show ?thesis
    using d by (auto simp: Reconcile_def sel notifyDiscontinuity_def tell)
qed

theorem reconciliations_are_reported_witness:
  "\<exists>err res s' evs. Reconcile truncating_passes True (Some told_session) ((), [])
      = Some (Some err, res, Some s', ((), [rotation_event 1, \<lparr>Kind = SourceEventDiscontinuity, Count = 1,
                                   Reason = Some SourceDiscontinuityGenerationTruncated\<rparr>]), evs)
     \<and> NewGenerations res = 1"
proof -
  obtain res rd err where r: "Reconcile truncating_passes True (Some told_session) ((), [])
      = Some (Some err, res, Some (told_session\<lparr>ss_registry := sample_registry rd\<rparr>),
          ((), [rotation_event 1, \<lparr>Kind = SourceEventDiscontinuity, Count = 1,
                                   Reason = Some SourceDiscontinuityGenerationTruncated\<rparr>]),
          [FdOpen 4, FdClose 4, FdOpen 10, FdOpen 4, FdClose 4, FdOpen 10, FdClose 10])"
    "discontinuityForError (Some err) = Some SourceDiscontinuityGenerationTruncated"
    using told_passes by blast
  have ok: "session_ok told_session" "\<not> ss_closed told_session" "accounted (\<lambda>g. ''[{},'') (ss_registry told_session) []"
    "ss_handle told_session = aside accept_all" "ss_observer told_session = Some (logs_events (\<lambda>ev u. u))"
    by (simp_all add: told_session_def session_ok_def empty_registry_def registry_ok_def accounted_def
        accounted_readers_def)
  have honest: "list_all (honest_pass (\<lambda>g. ''[{},'')) truncating_passes"
    using quiet_pass_honest [of "''[{},''"] by (simp add: truncating_passes_def del: list.map)
  from reconciliations_are_reported [OF r(1) ok(1,2) honest ok(3-5), unfolded r(2) option.case append_Nil]
  obtain ns where "rotation_event 1 # [\<lparr>Kind = SourceEventDiscontinuity, Count = 1, Reason = Some SourceDiscontinuityGenerationTruncated\<rparr>]
      = map rotation_event ns @ [\<lparr>Kind = SourceEventDiscontinuity, Count = 1, Reason = Some SourceDiscontinuityGenerationTruncated\<rparr>]"
    "NewGenerations res = sum_list ns" by blast
  then have "NewGenerations res = 1" by (cases ns) (auto simp: rotation_event_def)
  with r(1) show ?thesis by blast
qed

end
