(* ===== verification/Go_Url.thy ===== *)
theory Go_Url
  imports Go_Strings
begin

text \<open>
  What the program uses of Go's \<open>net/url\<close> package as of Go 1.25.0, the version \<open>go.mod\<close> names:
  \<open>url.Parse\<close>, \<open>Hostname\<close> and \<open>EscapedPath\<close>.  A failed parse is \<open>None\<close>; the program drops the
  error's text.
\<close>

section \<open>Escaping\<close>

datatype encoding = EncodePath | EncodeHost | EncodeZone | EncodeUserPassword | EncodeFragment

definition is_letter :: "char \<Rightarrow> bool" where
  "is_letter c \<longleftrightarrow>
     (byte_code (CHR ''a'') \<le> byte_code c \<and> byte_code c \<le> byte_code (CHR ''z'')
      \<or> byte_code (CHR ''A'') \<le> byte_code c \<and> byte_code c \<le> byte_code (CHR ''Z''))"

definition sub_delims :: "char list" where
  "sub_delims = ''!$&'' @ [CHR 0x27] @ ''()*+,;=''"

definition shouldEscape :: "char \<Rightarrow> encoding \<Rightarrow> bool" where
  "shouldEscape c mode =
     (if is_letter c \<or> is_digit c then False
      else if mode \<in> {EncodeHost, EncodeZone} \<and> c \<in> set (sub_delims @ '':[]<>'' @ [CHR 0x22]) then False
      else if c \<in> set ''-_.~'' then False
      else if c \<in> set ''$&+,/:;=?@'' \<and> mode = EncodePath then c = CHR ''?''
      else if c \<in> set ''$&+,/:;=?@'' \<and> mode = EncodeUserPassword then c \<in> set ''@/?:''
      else if c \<in> set ''$&+,/:;=?@'' \<and> mode = EncodeFragment then False
      else if mode = EncodeFragment \<and> c \<in> set ''!()*'' then False
      else True)"

definition unhex :: "char \<Rightarrow> nat" where
  "unhex c = hex_digit c"

fun unescape :: "encoding \<Rightarrow> bytes \<Rightarrow> bytes option" where
  "unescape mode [] = Some []"
| "unescape mode (c # cs) =
     (if c = CHR ''%'' then
        (case cs of
           h # l # rest \<Rightarrow>
             if \<not> is_hex h \<or> \<not> is_hex l then None
             else if mode = EncodeHost \<and> unhex h < 8 \<and> \<not> (h = CHR ''2'' \<and> l = CHR ''5'') then None
             else if mode = EncodeZone \<and> \<not> (h = CHR ''2'' \<and> l = CHR ''5'')
                  \<and> byte_of (unhex h * 16 + unhex l) \<noteq> CHR '' ''
                  \<and> shouldEscape (byte_of (unhex h * 16 + unhex l)) EncodeHost then None
             else map_option ((#) (byte_of (unhex h * 16 + unhex l))) (unescape mode rest)
         | _ \<Rightarrow> None)
      else if mode \<in> {EncodeHost, EncodeZone} \<and> byte_code c < 128 \<and> shouldEscape c mode then None
      else map_option ((#) c) (unescape mode cs))"

definition upper_hex :: "nat \<Rightarrow> char" where
  "upper_hex n = ''0123456789ABCDEF'' ! n"

definition escape_path :: "bytes \<Rightarrow> bytes" where
  "escape_path s = concat (map (\<lambda>c. if shouldEscape c EncodePath
     then [CHR ''%'', upper_hex (byte_code c div 16), upper_hex (byte_code c mod 16)] else [c]) s)"

definition validEncoded :: "bytes \<Rightarrow> bool" where
  "validEncoded s = list_all (\<lambda>c. c \<in> set (sub_delims @ '':@[]%'') \<or> \<not> shouldEscape c EncodePath) s"

section \<open>Cutting\<close>

text \<open>\<open>strings.Cut\<close> at a byte: what is before it, what is after it, and whether it is there.\<close>

definition cut_at :: "char \<Rightarrow> bytes \<Rightarrow> bytes \<times> bytes \<times> bool" where
  "cut_at c s = (case IndexByte s c of None \<Rightarrow> (s, [], False) | Some i \<Rightarrow> (take i s, drop (Suc i) s, True))"

section \<open>Parsing\<close>

record parsed_url =
  Scheme :: bytes
  Opaque :: bytes
  User :: "(bytes \<times> bytes option) option"
  Host :: bytes
  Path :: bytes
  RawPath :: bytes
  ForceQuery :: bool
  RawQuery :: bytes
  Fragment :: bytes

definition zero_url :: parsed_url where
  "zero_url = \<lparr>Scheme = [], Opaque = [], User = None, Host = [], Path = [], RawPath = [],
     ForceQuery = False, RawQuery = [], Fragment = []\<rparr>"

text \<open>\<open>getScheme\<close>: the scheme and what follows its colon; no scheme when another byte comes first.\<close>

fun scheme_end :: "bytes \<Rightarrow> nat \<Rightarrow> nat option option" where
  "scheme_end [] i = Some None"
| "scheme_end (c # cs) i =
     (if is_letter c then scheme_end cs (Suc i)
      else if is_digit c \<or> c \<in> set ''+-.'' then (if i = 0 then Some None else scheme_end cs (Suc i))
      else if c = CHR '':'' then (if i = 0 then None else Some (Some i))
      else Some None)"

definition getScheme :: "bytes \<Rightarrow> (bytes \<times> bytes) option" where
  "getScheme s =
     (case scheme_end s 0 of
        None \<Rightarrow> None
      | Some None \<Rightarrow> Some ([], s)
      | Some (Some i) \<Rightarrow> Some (take i s, drop (Suc i) s))"

definition validOptionalPort :: "bytes \<Rightarrow> bool" where
  "validOptionalPort p = (case p of [] \<Rightarrow> True | c # ds \<Rightarrow> c = CHR '':'' \<and> list_all is_digit ds)"

text \<open>The first position at which the text continues with \<open>pat\<close>.\<close>

fun find_sub :: "bytes \<Rightarrow> bytes \<Rightarrow> nat option" where
  "find_sub pat [] = (if pat = [] then Some 0 else None)"
| "find_sub pat (c # cs) =
     (if take (length pat) (c # cs) = pat then Some 0 else map_option Suc (find_sub pat cs))"

definition parseHost :: "bytes \<Rightarrow> bytes option" where
  "parseHost host =
     (if host \<noteq> [] \<and> hd host = CHR ''['' then
        (case LastIndexByte host (CHR '']'') of
           None \<Rightarrow> None
         | Some i \<Rightarrow>
             if \<not> validOptionalPort (drop (Suc i) host) then None
             else (case find_sub ''%25'' (take i host) of
                     Some z \<Rightarrow>
                       (case (unescape EncodeHost (take z host),
                              unescape EncodeZone (drop z (take i host)),
                              unescape EncodeHost (drop i host)) of
                          (Some h1, Some h2, Some h3) \<Rightarrow> Some (h1 @ h2 @ h3)
                        | _ \<Rightarrow> None)
                   | None \<Rightarrow> unescape EncodeHost host))
      else (case LastIndexByte host (CHR '':'') of
              None \<Rightarrow> unescape EncodeHost host
            | Some i \<Rightarrow> if validOptionalPort (drop i host) then unescape EncodeHost host else None))"

definition validUserinfo :: "bytes \<Rightarrow> bool" where
  "validUserinfo s =
     list_all (\<lambda>c. is_letter c \<or> is_digit c \<or> c \<in> set (''-._:~%@'' @ sub_delims)) s"

definition parseAuthority :: "bytes \<Rightarrow> ((bytes \<times> bytes option) option \<times> bytes) option" where
  "parseAuthority authority =
     (case LastIndexByte authority (CHR ''@'') of
        None \<Rightarrow> map_option (Pair None) (parseHost authority)
      | Some i \<Rightarrow>
          (case parseHost (drop (Suc i) authority) of
             None \<Rightarrow> None
           | Some host \<Rightarrow>
               (let info = take i authority
                in if \<not> validUserinfo info then None
                   else (case cut_at (CHR '':'') info of
                           (u, p, has) \<Rightarrow>
                             if \<not> has
                             then map_option (\<lambda>u'. (Some (u', None), host)) (unescape EncodeUserPassword info)
                             else (case (unescape EncodeUserPassword u, unescape EncodeUserPassword p) of
                                     (Some u', Some p') \<Rightarrow> Some (Some (u', Some p'), host)
                                   | _ \<Rightarrow> None)))))"

definition setPath :: "bytes \<Rightarrow> parsed_url \<Rightarrow> parsed_url option" where
  "setPath p u =
     map_option (\<lambda>path. u\<lparr>Path := path, RawPath := (if p = escape_path path then [] else p)\<rparr>)
       (unescape EncodePath p)"

definition ctl_byte :: "char \<Rightarrow> bool" where
  "ctl_byte c \<longleftrightarrow> byte_code c < 32 \<or> byte_code c = 127"

text \<open>The query of a URL: a single question mark at the end forces an empty query.\<close>

definition split_query :: "bytes \<Rightarrow> parsed_url \<Rightarrow> bytes \<times> parsed_url" where
  "split_query rest u =
     (if rest \<noteq> [] \<and> last rest = CHR ''?'' \<and> count_list rest (CHR ''?'') = 1
      then (butlast rest, u\<lparr>ForceQuery := True\<rparr>)
      else (case cut_at (CHR ''?'') rest of (path, query, _) \<Rightarrow> (path, u\<lparr>RawQuery := query\<rparr>)))"

definition parse_hierarchy :: "bytes \<Rightarrow> parsed_url \<Rightarrow> parsed_url option" where
  "parse_hierarchy rest u =
     (if take 2 rest = ''//'' \<and> (Scheme u \<noteq> [] \<or> take 3 rest \<noteq> ''///'')
      then (let authority = takeWhile (\<lambda>c. c \<noteq> CHR ''/'') (drop 2 rest);
                path = dropWhile (\<lambda>c. c \<noteq> CHR ''/'') (drop 2 rest)
            in case parseAuthority authority of
                 None \<Rightarrow> None
               | Some (user, host) \<Rightarrow> setPath path (u\<lparr>User := user, Host := host\<rparr>))
      else setPath rest u)"

definition parse_url :: "bytes \<Rightarrow> parsed_url option" where
  "parse_url raw =
     (if list_ex ctl_byte raw then None
      else if raw = ''*'' then Some (zero_url\<lparr>Path := ''*''\<rparr>)
      else (case getScheme raw of
              None \<Rightarrow> None
            | Some (scheme, after) \<Rightarrow>
                (case split_query after (zero_url\<lparr>Scheme := map lower scheme\<rparr>) of
                   (rest, u) \<Rightarrow>
                     if rest = [] \<or> hd rest \<noteq> CHR ''/'' then
                       (if Scheme u \<noteq> [] then Some (u\<lparr>Opaque := rest\<rparr>)
                        else if CHR '':'' \<in> set (takeWhile (\<lambda>c. c \<noteq> CHR ''/'') rest) then None
                        else parse_hierarchy rest u)
                     else parse_hierarchy rest u)))"

definition url_Parse :: "bytes \<Rightarrow> parsed_url option" where
  "url_Parse raw =
     (case cut_at (CHR ''#'') raw of
        (u, frag, _) \<Rightarrow>
          (case parse_url u of
             None \<Rightarrow> None
           | Some url \<Rightarrow>
               if frag = [] then Some url
               else map_option (\<lambda>f. url\<lparr>Fragment := f\<rparr>) (unescape EncodeFragment frag)))"

definition Hostname :: "parsed_url \<Rightarrow> bytes" where
  "Hostname u =
     (let h = (case LastIndexByte (Host u) (CHR '':'') of
                 None \<Rightarrow> Host u
               | Some i \<Rightarrow> if validOptionalPort (drop i (Host u)) then take i (Host u) else Host u)
      in if h \<noteq> [] \<and> hd h = CHR ''['' \<and> last h = CHR '']'' then butlast (tl h) else h)"

definition EscapedPath :: "parsed_url \<Rightarrow> bytes" where
  "EscapedPath u =
     (if RawPath u \<noteq> [] \<and> validEncoded (RawPath u) \<and> unescape EncodePath (RawPath u) = Some (Path u)
      then RawPath u
      else if Path u = ''*'' then ''*''
      else escape_path (Path u))"

end
