(* ===== verification/Go_Net.thy ===== *)
theory Go_Net
  imports Go_Strings
begin

text \<open>
  What the program uses of Go's \<open>net\<close> package: \<open>net.ParseIP\<close> (\<open>netip.ParseAddr\<close> without a
  zone) and \<open>IP.IsLoopback\<close>.  An address is its sixteen bytes; an IPv4 address is the
  IPv4-mapped one, as in \<open>net.IP\<close>.
\<close>

type_synonym ip = "nat list"

text \<open>
  \<open>parseIPv4Fields\<close>: four decimal fields of at most 255 without leading zeros.  The state is the
  fields so far, the value and length of the current field.
\<close>

fun ipv4_fields :: "bytes \<Rightarrow> nat list \<Rightarrow> nat \<Rightarrow> nat \<Rightarrow> nat list option" where
  "ipv4_fields [] fs val len = (if length fs < 3 then None else Some (fs @ [val]))"
| "ipv4_fields (c # cs) fs val len =
     (if is_digit c then
        (if len = 1 \<and> val = 0 then None
         else if 255 < val * 10 + digit_value c then None
         else ipv4_fields cs fs (val * 10 + digit_value c) (len + 1))
      else if c = CHR ''.'' then
        (if len = 0 \<or> cs = [] then None
         else if length fs = 3 then None
         else ipv4_fields cs (fs @ [val]) 0 0)
      else None)"

definition v4_mapped :: "nat list \<Rightarrow> ip" where
  "v4_mapped fs = replicate 10 0 @ [255, 255] @ fs"

definition parseIPv4 :: "bytes \<Rightarrow> ip option" where
  "parseIPv4 s = map_option v4_mapped (ipv4_fields s [] 0 0)"

text \<open>The hexadecimal digits at the head: at most four of them.\<close>

fun hex_group :: "bytes \<Rightarrow> nat \<Rightarrow> nat \<Rightarrow> (nat \<times> nat \<times> bytes) option" where
  "hex_group [] acc off = Some (acc, off, [])"
| "hex_group (c # cs) acc off =
     (if is_hex c then
        (if 3 < off then None else hex_group cs (acc * 16 + hex_digit c) (off + 1))
      else Some (acc, off, c # cs))"

text \<open>
  The loop of \<open>parseIPv6\<close>: the bytes so far and where the double colon was.  It ends with sixteen
  bytes, at the end of the text, or after an IPv4 tail, which takes all that is left.
\<close>

function ipv6_loop :: "bytes \<Rightarrow> nat list \<Rightarrow> nat option \<Rightarrow> (nat list \<times> nat option \<times> bytes) option" where
  "ipv6_loop s bs ellipsis =
     (if 16 \<le> length bs then Some (bs, ellipsis, s)
      else (case hex_group s 0 0 of
              None \<Rightarrow> None
            | Some (acc, off, rest) \<Rightarrow>
                if off = 0 then None
                else if rest \<noteq> [] \<and> hd rest = CHR ''.'' then
                  (if ellipsis = None \<and> length bs \<noteq> 12 then None
                   else if 16 < length bs + 4 then None
                   else (case ipv4_fields s [] 0 0 of
                           None \<Rightarrow> None
                         | Some fs \<Rightarrow> Some (bs @ fs, ellipsis, [])))
                else (let bs' = bs @ [acc div 256, acc mod 256]
                      in case rest of
                           [] \<Rightarrow> Some (bs', ellipsis, [])
                         | c # t \<Rightarrow>
                             if c \<noteq> CHR '':'' then None
                             else if t = [] then None
                             else if hd t = CHR '':'' then
                               (if ellipsis \<noteq> None then None
                                else if tl t = [] then Some (bs', Some (length bs'), [])
                                else ipv6_loop (tl t) bs' (Some (length bs')))
                             else ipv6_loop t bs' ellipsis)))"
  by pat_completeness auto
termination
  by (relation "measure (\<lambda>(s, bs, e). 16 - length bs)") auto

declare ipv6_loop.simps [simp del]

definition parseIPv6 :: "bytes \<Rightarrow> ip option" where
  "parseIPv6 s =
     (let leading = (2 \<le> length s \<and> s ! 0 = CHR '':'' \<and> s ! 1 = CHR '':'')
      in if leading \<and> length s = 2 then Some (replicate 16 0)
         else (case ipv6_loop (if leading then drop 2 s else s) [] (if leading then Some 0 else None) of
                 None \<Rightarrow> None
               | Some (bs, ellipsis, rest) \<Rightarrow>
                   if rest \<noteq> [] then None
                   else if length bs < 16 then
                     (case ellipsis of
                        None \<Rightarrow> None
                      | Some e \<Rightarrow> Some (take e bs @ replicate (16 - length bs) 0 @ drop e bs))
                   else if ellipsis \<noteq> None then None
                   else Some bs))"

text \<open>
  \<open>ParseAddr\<close> looks for the first of the three characters that decide the kind of address; a
  percent sign starts a zone, with which \<open>net.ParseIP\<close> accepts no address.
\<close>

definition address_mark :: "bytes \<Rightarrow> char option" where
  "address_mark s = List.find (\<lambda>c. c = CHR ''.'' \<or> c = CHR '':'' \<or> c = CHR ''%'') s"

definition ParseIP :: "bytes \<Rightarrow> ip option" where
  "ParseIP s =
     (if address_mark s = Some (CHR ''.'') then parseIPv4 s
      else if address_mark s = Some (CHR '':'') then (if CHR ''%'' \<in> set s then None else parseIPv6 s)
      else None)"

definition IsLoopback :: "ip \<Rightarrow> bool" where
  "IsLoopback a = (if take 12 a = replicate 10 0 @ [255, 255] then a ! 12 = 127
                   else a = replicate 15 0 @ [1])"

section \<open>Loopback addresses\<close>

lemma ipv4_fields_length: "ipv4_fields s fs val len = Some r \<Longrightarrow> length fs \<le> 3 \<Longrightarrow> length r = 4"
  by (induction s fs val len rule: ipv4_fields.induct) (auto split: if_splits)

lemma ipv4_fields_small:
  "ipv4_fields s fs val len = Some r \<Longrightarrow> list_all (\<lambda>x. x \<le> 255) fs \<Longrightarrow> val \<le> 255 \<Longrightarrow> list_all (\<lambda>x. x \<le> 255) r"
  by (induction s fs val len rule: ipv4_fields.induct) (auto split: if_splits)

text \<open>The text of an IPv4 address, as \<open>IP.String\<close> prints it.\<close>

definition dotted :: "nat list \<Rightarrow> bytes" where
  "dotted fs = concat (map (\<lambda>f. digits_of f @ ''.'') (butlast fs)) @ digits_of (last fs)"

end
