(* ===== verification/Endpoint.thy ===== *)
theory Endpoint
  imports Go_Url Go_Net
begin

text \<open>
  \<open>internal/config/endpoint.go\<close>: the endpoint the metrics are sent to must be a plain HTTP URL of
  this host.
\<close>

text \<open>
  \<open>strings.EqualFold\<close> with a lower-case ASCII word: besides its two ASCII cases, the letter s folds
  with U+017F and the letter k with U+212A.
\<close>

definition folds_to :: "nat \<Rightarrow> char \<Rightarrow> bool" where
  "folds_to r c \<longleftrightarrow>
     r = byte_code c \<or> (is_letter c \<and> r + 32 = byte_code c)
     \<or> (c = CHR ''s'' \<and> r = 0x17F) \<or> (c = CHR ''k'' \<and> r = 0x212A)"

fun EqualFold :: "bytes \<Rightarrow> bytes \<Rightarrow> bool" where
  "EqualFold s [] \<longleftrightarrow> s = []"
| "EqualFold s (p # ps) \<longleftrightarrow>
     s \<noteq> [] \<and> folds_to (fst (decode_rune s)) p \<and> EqualFold (drop (snd (decode_rune s)) s) ps"

definition isLoopbackHost :: "bytes \<Rightarrow> bool" where
  "isLoopbackHost host =
     (if EqualFold host ''localhost'' then True
      else (case ParseIP host of None \<Rightarrow> False | Some a \<Rightarrow> IsLoopback a))"

definition ParseOTLPEndpoint :: "bytes \<Rightarrow> error + parsed_url" where
  "ParseOTLPEndpoint v =
     (case url_Parse v of
        None \<Rightarrow> Inl (Text ''OTLP endpoint is not a valid URL'')
      | Some u \<Rightarrow>
          if Scheme u \<noteq> ''http'' \<or> Opaque u \<noteq> [] then Inl (Text ''OTLP endpoint must use HTTP'')
          else if User u \<noteq> None then Inl (Text ''OTLP endpoint must not contain user information'')
          else if RawQuery u \<noteq> [] \<or> ForceQuery u \<or> Fragment u \<noteq> []
          then Inl (Text ''OTLP endpoint must not contain a query or fragment'')
          else if Host u = [] \<or> Hostname u = [] then Inl (Text ''OTLP endpoint must contain a host'')
          else if \<not> isLoopbackHost (Hostname u) then Inl (Text ''OTLP endpoint host must be loopback'')
          else if \<not> HasSuffix (Path u) ''/v1/metrics''
          then Inl (Text ''OTLP endpoint path must end in /v1/metrics'')
          else if RawPath u \<noteq> [] \<and> \<not> HasSuffix (EscapedPath u) ''/v1/metrics''
          then Inl (Text ''OTLP endpoint path must end in /v1/metrics'')
          else Inr u)"

end
