(* ===== verification/Config.thy ===== *)
theory Config
  imports Endpoint
begin

text \<open>
  \<open>internal/config/config.go\<close>: the settings of a run, their defaults and what makes them valid.
  Durations are nanoseconds.
\<close>

definition second :: int where "second = 1000000000"

definition MinimumRecordBytes :: int where "MinimumRecordBytes = 1 * 1024 * 1024"
definition MaximumRecordBytes :: int where "MaximumRecordBytes = 64 * 1024 * 1024"

record config =
  ReportDirectory :: bytes
  cfg_PID :: int
  OTLPEndpoint :: bytes
  RescanInterval :: int
  cfg_InitializationTimeout :: int
  SourceDrainTimeout :: int
  ExportInterval :: int
  ExportTimeout :: int
  ShutdownTimeout :: int
  cfg_MaxRecordBytes :: int
  AllowInsecureSource :: bool
  LogLevel :: bytes

definition Default :: config where
  "Default = \<lparr>ReportDirectory = [], cfg_PID = 0,
     OTLPEndpoint = ''http://127.0.0.1:4318/v1/metrics'',
     RescanInterval = 5 * second, cfg_InitializationTimeout = 30 * second,
     SourceDrainTimeout = 10 * second, ExportInterval = 30 * second, ExportTimeout = 10 * second,
     ShutdownTimeout = 5 * second, cfg_MaxRecordBytes = 16 * 1024 * 1024,
     AllowInsecureSource = False, LogLevel = ''info''\<rparr>"

definition IsAbs :: "bytes \<Rightarrow> bool" where
  "IsAbs path \<longleftrightarrow> path \<noteq> [] \<and> hd path = CHR ''/''"

definition validLogLevel :: "bytes \<Rightarrow> bool" where
  "validLogLevel v \<longleftrightarrow> v \<in> {''debug'', ''info'', ''warn'', ''error''}"

text \<open>The table of durations, in the order they are checked; the first that is not positive.\<close>

definition durations :: "config \<Rightarrow> (bytes \<times> int) list" where
  "durations c =
    [(''rescan interval'', RescanInterval c),
     (''initialization timeout'', cfg_InitializationTimeout c),
     (''source drain timeout'', SourceDrainTimeout c),
     (''export interval'', ExportInterval c),
     (''export timeout'', ExportTimeout c),
     (''shutdown timeout'', ShutdownTimeout c)]"

definition Validate :: "config \<Rightarrow> error option" where
  "Validate c =
     (if ReportDirectory c = [] then Some (Text ''report directory is required'')
      else if \<not> IsAbs (ReportDirectory c) then Some (Text ''report directory must be absolute'')
      else if cfg_PID c \<le> 0 then Some (Text ''PID must be positive'')
      else (case ParseOTLPEndpoint (OTLPEndpoint c) of
              Inl e \<Rightarrow> Some e
            | Inr _ \<Rightarrow>
                (case List.find (\<lambda>(name, v). v \<le> 0) (durations c) of
                   Some (name, _) \<Rightarrow> Some (Text (name @ '' must be positive''))
                 | None \<Rightarrow>
                     if ExportInterval c \<le> ExportTimeout c
                     then Some (Text ''export timeout must be less than export interval'')
                     else if cfg_MaxRecordBytes c < MinimumRecordBytes \<or> MaximumRecordBytes < cfg_MaxRecordBytes c
                     then Some (Text ''maximum record size must be between 1 MiB and 64 MiB'')
                     else if \<not> validLogLevel (LogLevel c)
                     then Some (Text ''log level must be debug, info, warn, or error'')
                     else None)))"

definition EndpointURL :: "config \<Rightarrow> error + parsed_url" where
  "EndpointURL c = ParseOTLPEndpoint (OTLPEndpoint c)"

lemma Validate_None:
  "Validate c = None \<longleftrightarrow>
     IsAbs (ReportDirectory c) \<and> 0 < cfg_PID c \<and> (\<exists>u. ParseOTLPEndpoint (OTLPEndpoint c) = Inr u)
     \<and> list_all (\<lambda>(name, v). 0 < v) (durations c) \<and> ExportTimeout c < ExportInterval c
     \<and> MinimumRecordBytes \<le> cfg_MaxRecordBytes c \<and> cfg_MaxRecordBytes c \<le> MaximumRecordBytes
     \<and> validLogLevel (LogLevel c)"
proof -
  have "List.find (\<lambda>(name, v). v \<le> 0) (durations c) = None \<longleftrightarrow> list_all (\<lambda>(name, v). 0 < v) (durations c)"
    by (auto simp: find_None_iff list_all_iff not_le)
  then show ?thesis
    by (auto simp: Validate_def IsAbs_def split: sum.split option.split)
qed

end
