(* ===== verification/Flags.thy ===== *)
theory Flags
  imports Config Go_Float
begin

text \<open>
  \<open>internal/config/flags.go\<close> with what it uses of Go's \<open>flag\<close>, \<open>strconv\<close> and \<open>time\<close> packages:
  the command line is a list of arguments, the settings start from the defaults.
\<close>

section \<open>Values\<close>

text \<open>\<open>strconv.ParseInt(s, 0, 64)\<close>: a sign, a base prefix, digits and underscores.\<close>

definition base_prefix :: "bytes \<Rightarrow> nat \<times> bytes" where
  "base_prefix s =
     (if s \<noteq> [] \<and> hd s = CHR ''0'' then
        (if 3 \<le> length s \<and> lower (s ! 1) = CHR ''b'' then (2, drop 2 s)
         else if 3 \<le> length s \<and> lower (s ! 1) = CHR ''o'' then (8, drop 2 s)
         else if 3 \<le> length s \<and> lower (s ! 1) = CHR ''x'' then (16, drop 2 s)
         else (8, drop 1 s))
      else (10, s))"

definition alnum_digit :: "char \<Rightarrow> nat option" where
  "alnum_digit c =
     (if is_digit c then Some (digit_value c)
      else if byte_code (CHR ''a'') \<le> byte_code (lower c) \<and> byte_code (lower c) \<le> byte_code (CHR ''z'')
      then Some (byte_code (lower c) - byte_code (CHR ''a'') + 10)
      else None)"

fun read_digits :: "nat \<Rightarrow> bytes \<Rightarrow> nat \<Rightarrow> nat option" where
  "read_digits b [] n = Some n"
| "read_digits b (c # cs) n =
     (if c = CHR ''_'' then read_digits b cs n
      else (case alnum_digit c of
              None \<Rightarrow> None
            | Some d \<Rightarrow> if b \<le> d then None else read_digits b cs (n * b + d)))"

definition ParseIntAny :: "bytes \<Rightarrow> int option" where
  "ParseIntAny s =
     (case strip_sign s of
        (neg, t) \<Rightarrow>
          if t = [] then None
          else (case base_prefix t of
                  (b, ds) \<Rightarrow>
                    (case read_digits b ds 0 of
                       None \<Rightarrow> None
                     | Some n \<Rightarrow>
                         if CHR ''_'' \<in> set ds \<and> \<not> underscoreOK t then None
                         else if neg then (if n \<le> 2 ^ 63 then Some (- int n) else None)
                         else if n < 2 ^ 63 then Some (int n) else None)))"

definition ParseBool :: "bytes \<Rightarrow> bool option" where
  "ParseBool s =
     (if s \<in> {''1'', ''t'', ''T'', ''true'', ''TRUE'', ''True''} then Some True
      else if s \<in> {''0'', ''f'', ''F'', ''false'', ''FALSE'', ''False''} then Some False
      else None)"

text \<open>\<open>time.ParseDuration\<close>: a sign and numbers with units, added up in unsigned 64-bit nanoseconds.\<close>

definition unit_map :: "(bytes \<times> nat) list" where
  "unit_map =
    [(''ns'', 1), (''us'', 1000), ([CHR 0xC2, CHR 0xB5, CHR ''s''], 1000),
     ([CHR 0xCE, CHR 0xBC, CHR ''s''], 1000), (''ms'', 1000000), (''s'', 1000000000),
     (''m'', 60000000000), (''h'', 3600000000000)]"

fun leadingInt :: "bytes \<Rightarrow> nat \<Rightarrow> (nat \<times> bytes) option" where
  "leadingInt [] x = Some (x, [])"
| "leadingInt (c # cs) x =
     (if \<not> is_digit c then Some (x, c # cs)
      else if 2 ^ 63 div 10 < x then None
      else if 2 ^ 63 < x * 10 + digit_value c then None
      else leadingInt cs (x * 10 + digit_value c))"

fun leadingFraction :: "bytes \<Rightarrow> nat \<Rightarrow> nat \<Rightarrow> bool \<Rightarrow> nat \<times> nat \<times> bytes" where
  "leadingFraction [] x scale over = (x, scale, [])"
| "leadingFraction (c # cs) x scale over =
     (if \<not> is_digit c then (x, scale, c # cs)
      else if over \<or> (2 ^ 63 - 1) div 10 < x \<or> 2 ^ 63 < x * 10 + digit_value c
      then leadingFraction cs x scale True
      else leadingFraction cs (x * 10 + digit_value c) (scale * 10) False)"

definition f64_to_u64 :: "f64 \<Rightarrow> u64" where
  "f64_to_u64 x =
     (case x of
        Fin neg m e \<Rightarrow> of_nat (if 0 \<le> e then m * 2 ^ nat e else m div 2 ^ nat (- e))
      | _ \<Rightarrow> 0)"

text \<open>One number with its unit: its nanoseconds and what follows.\<close>

definition duration_part :: "bytes \<Rightarrow> (u64 \<times> bytes) option" where
  "duration_part s =
     (if s = [] \<or> \<not> (hd s = CHR ''.'' \<or> is_digit (hd s)) then None
      else (case leadingInt s 0 of
              None \<Rightarrow> None
            | Some (v, s1) \<Rightarrow>
                (let pre = (length s1 \<noteq> length s);
                     dot = (s1 \<noteq> [] \<and> hd s1 = CHR ''.'');
                     (f, scale, s2) = (if dot then leadingFraction (tl s1) 0 1 False else (0, 1, s1));
                     post = (dot \<and> length s2 \<noteq> length (tl s1));
                     u = takeWhile (\<lambda>c. c \<noteq> CHR ''.'' \<and> \<not> is_digit c) s2;
                     s3 = dropWhile (\<lambda>c. c \<noteq> CHR ''.'' \<and> \<not> is_digit c) s2
                 in if \<not> pre \<and> \<not> post then None
                    else if u = [] then None
                    else (case map_of unit_map u of
                            None \<Rightarrow> None
                          | Some unit \<Rightarrow>
                              if 2 ^ 63 div unit < v then None
                              else (let w = (of_nat (v * unit) :: u64)
                                      + (if 0 < f
                                         then f64_to_u64 (f64_mult (f64_of_nat f)
                                                (f64_div (f64_of_nat unit) (f64_of_nat scale)))
                                         else 0)
                                    in if 0 < f \<and> 2 ^ 63 < w then None else Some (w, s3))))))"

lemma length_leadingInt: "leadingInt s x = Some (v, r) \<Longrightarrow> length r \<le> length s"
  by (induction s x rule: leadingInt.induct) (auto split: if_splits)

lemma length_leadingFraction: "leadingFraction s x k over = (f, sc, r) \<Longrightarrow> length r \<le> length s"
  by (induction s x k over rule: leadingFraction.induct) (auto split: if_splits)

lemma length_dropWhile_less: "takeWhile P xs \<noteq> [] \<Longrightarrow> length (dropWhile P xs) < length xs"
  by (metis dropWhile_eq_drop length_drop length_greater_0_conv diff_less takeWhile.simps(1))

lemma duration_part_shorter: "duration_part s = Some (w, r) \<Longrightarrow> length r < length s"
  by (auto simp: duration_part_def Let_def split: if_splits option.splits prod.splits
      dest!: length_leadingFraction length_leadingInt length_dropWhile_less)

function duration_sum :: "bytes \<Rightarrow> u64 \<Rightarrow> u64 option" where
  "duration_sum s d =
     (if s = [] then Some d
      else (case duration_part s of
              None \<Rightarrow> None
            | Some (v, rest) \<Rightarrow> if 2 ^ 63 < d + v then None else duration_sum rest (d + v)))"
  by pat_completeness auto
termination
  by (relation "measure (length \<circ> fst)") (auto dest: duration_part_shorter)

declare duration_sum.simps [simp del]

definition ParseDuration :: "bytes \<Rightarrow> int option" where
  "ParseDuration orig =
     (case strip_sign orig of
        (neg, s) \<Rightarrow>
          if s = ''0'' then Some 0
          else if s = [] then None
          else (case duration_sum s 0 of
                  None \<Rightarrow> None
                | Some d \<Rightarrow>
                    if neg then Some (sint (- d))
                    else if 2 ^ 63 - 1 < d then None
                    else Some (sint d)))"

section \<open>Flags\<close>

datatype flag_error = UnknownFlag | InvalidFlagValue

text \<open>Setting a defined flag.\<close>

definition set_with :: "('v \<Rightarrow> config \<Rightarrow> config) \<Rightarrow> 'v option \<Rightarrow> config \<Rightarrow> flag_error + config" where
  "set_with f v c = (case v of None \<Rightarrow> Inl InvalidFlagValue | Some x \<Rightarrow> Inr (f x c))"

definition set_flag :: "bytes \<Rightarrow> bytes \<Rightarrow> config \<Rightarrow> flag_error + config" where
  "set_flag name v c =
     (if name = ''report-dir'' then Inr (c\<lparr>ReportDirectory := v\<rparr>)
      else if name = ''pid'' then set_with (\<lambda>x. cfg_PID_update (\<lambda>_. x)) (ParseIntAny v) c
      else if name = ''otlp-endpoint'' then Inr (c\<lparr>OTLPEndpoint := v\<rparr>)
      else if name = ''rescan-interval'' then set_with (\<lambda>x. RescanInterval_update (\<lambda>_. x)) (ParseDuration v) c
      else if name = ''initialization-timeout''
      then set_with (\<lambda>x. cfg_InitializationTimeout_update (\<lambda>_. x)) (ParseDuration v) c
      else if name = ''source-drain-timeout'' then set_with (\<lambda>x. SourceDrainTimeout_update (\<lambda>_. x)) (ParseDuration v) c
      else if name = ''export-interval'' then set_with (\<lambda>x. ExportInterval_update (\<lambda>_. x)) (ParseDuration v) c
      else if name = ''export-timeout'' then set_with (\<lambda>x. ExportTimeout_update (\<lambda>_. x)) (ParseDuration v) c
      else if name = ''shutdown-timeout'' then set_with (\<lambda>x. ShutdownTimeout_update (\<lambda>_. x)) (ParseDuration v) c
      else if name = ''max-record-bytes'' then set_with (\<lambda>x. cfg_MaxRecordBytes_update (\<lambda>_. x)) (ParseIntAny v) c
      else if name = ''allow-insecure-source'' then set_with (\<lambda>x. AllowInsecureSource_update (\<lambda>_. x)) (ParseBool v) c
      else if name = ''log-level'' then Inr (c\<lparr>LogLevel := v\<rparr>)
      else Inl UnknownFlag)"

definition defined_flags :: "bytes list" where
  "defined_flags =
    [''report-dir'', ''pid'', ''otlp-endpoint'', ''rescan-interval'', ''initialization-timeout'',
     ''source-drain-timeout'', ''export-interval'', ''export-timeout'', ''shutdown-timeout'',
     ''max-record-bytes'', ''allow-insecure-source'', ''log-level'']"

text \<open>
  \<open>FlagSet.Parse\<close>: an argument is a flag when it starts with a minus sign and more follows; two
  minus signs alone end the flags.  A flag's value follows an equals sign or, unless the flag is
  boolean, is the next argument.
\<close>

definition flag_name :: "bytes \<Rightarrow> bytes" where
  "flag_name s = (if s ! 1 = CHR ''-'' then drop 2 s else drop 1 s)"

definition split_value :: "bytes \<Rightarrow> bytes \<times> bytes option" where
  "split_value name =
     (case IndexByte (tl name) (CHR ''='') of
        None \<Rightarrow> (name, None)
      | Some i \<Rightarrow> (take (Suc i) name, Some (drop (Suc (Suc i)) name)))"

definition bad_flag :: "bytes \<Rightarrow> bytes \<Rightarrow> error" where
  "bad_flag what name = Wrap ''parse command line'' [Text (what @ name)]"

fun parse_flags :: "bytes list \<Rightarrow> config \<Rightarrow> error + config \<times> bytes list" where
  "parse_flags [] c = Inr (c, [])"
| "parse_flags (s # args) c =
     (if length s < 2 \<or> hd s \<noteq> CHR ''-'' then Inr (c, s # args)
      else if s = ''--'' then Inr (c, args)
      else if flag_name s = [] \<or> hd (flag_name s) = CHR ''-'' \<or> hd (flag_name s) = CHR ''=''
      then Inl (bad_flag ''bad flag syntax: '' s)
      else (case split_value (flag_name s) of
              (name, v) \<Rightarrow>
                if name \<notin> set defined_flags then
                  (if name = ''help'' \<or> name = ''h'' then Inl (Sentinel ErrHelp)
                   else Inl (bad_flag ''flag provided but not defined: -'' name))
                else if name = ''allow-insecure-source'' then
                  (case set_flag name (case v of None \<Rightarrow> ''true'' | Some x \<Rightarrow> x) c of
                     Inl _ \<Rightarrow> Inl (bad_flag ''invalid boolean value for -'' name)
                   | Inr c' \<Rightarrow> parse_flags args c')
                else (case v of
                        Some x \<Rightarrow>
                          (case set_flag name x c of
                             Inl _ \<Rightarrow> Inl (bad_flag ''invalid value for flag -'' name)
                           | Inr c' \<Rightarrow> parse_flags args c')
                      | None \<Rightarrow>
                          (case args of
                             [] \<Rightarrow> Inl (bad_flag ''flag needs an argument: -'' name)
                           | x # rest \<Rightarrow>
                               (case set_flag name x c of
                                  Inl _ \<Rightarrow> Inl (bad_flag ''invalid value for flag -'' name)
                                | Inr c' \<Rightarrow> parse_flags rest c')))))"

definition config_Parse :: "bytes list \<Rightarrow> error + config" where
  "config_Parse args =
     (case parse_flags args Default of
        Inl e \<Rightarrow> Inl e
      | Inr (c, rest) \<Rightarrow>
          if rest \<noteq> [] then Inl (Text ''positional arguments are not supported'')
          else (case Validate c of Some e \<Rightarrow> Inl e | None \<Rightarrow> Inr c))"

end
