(* ===== verification/Config_Properties.thy ===== *)
theory Config_Properties
  imports Flags Go_Time
begin

text \<open>
  The properties of the configuration: which endpoints are accepted, and that every valid
  configuration can be given on the command line.
\<close>

section \<open>Arguments\<close>

lemma digits_value_from: "foldl (\<lambda>acc c. acc * 10 + digit_value c) x ds = x * 10 ^ length ds + digits_value ds"
  for x :: nat
proof (induction ds rule: rev_induct)
  case (snoc c ds)
  then show ?case by (simp add: digits_value_snoc algebra_simps)
qed (simp add: digits_value_def)

lemma digits_of_nonzero: "0 < n \<Longrightarrow> hd (digits_of n) \<noteq> CHR ''0''"
proof (induction n rule: digits_of.induct)
  case (1 n)
  show ?case
  proof (cases "n < 10")
    case True
    have "byte_of (48 + n) \<noteq> CHR ''0''"
    proof
      assume "byte_of (48 + n) = CHR ''0''"
      then have "byte_code (byte_of (48 + n)) = 48" by simp
      with True 1(2) show False by (simp add: byte_code_byte_of)
    qed
    with True show ?thesis by (subst digits_of.simps) simp
  next
    case False
    then have "hd (digits_of (n div 10)) \<noteq> CHR ''0''" using 1 by simp
    with False digits_of_head [of "n div 10"] show ?thesis by (subst digits_of.simps) simp
  qed
qed

lemma is_digit_alnum: "is_digit c \<Longrightarrow> alnum_digit c = Some (digit_value c) \<and> digit_value c < 10 \<and> c \<noteq> CHR ''_''"
  by (auto simp: alnum_digit_def is_digit_def digit_value_def byte_code_def)

lemma read_digits_all: "list_all is_digit ds \<Longrightarrow> read_digits 10 ds n = Some (n * 10 ^ length ds + digits_value ds)"
proof (induction ds arbitrary: n)
  case (Cons c cs)
  then show ?case
    using is_digit_alnum [of c] digits_value_from [of "digit_value c" cs]
    by (simp add: digits_value_def algebra_simps)
qed (simp add: digits_value_def)

lemma ParseIntAny_digits: "0 < n \<Longrightarrow> n < 2 ^ 63 \<Longrightarrow> ParseIntAny (digits_of n) = Some (int n)"
proof -
  assume n: "0 < n" "n < 2 ^ 63"
  obtain c cs where ds: "digits_of n = c # cs" "is_digit c" using digits_of_head [of n] by (cases "digits_of n") auto
  then have "c \<noteq> CHR ''-''" "c \<noteq> CHR ''+''" by (auto simp: is_digit_def byte_code_def)
  then have "strip_sign (digits_of n) = (False, digits_of n)" by (simp add: strip_sign_def ds)
  moreover have "base_prefix (digits_of n) = (10, digits_of n)"
    using digits_of_nonzero [OF n(1)] by (simp add: base_prefix_def)
  moreover have "list_all is_digit (digits_of n)" using digits_of_value [of n] by (simp add: all_digits_def)
  moreover from this have "CHR ''_'' \<notin> set (digits_of n)" by (auto simp: list_all_iff is_digit_def byte_code_def)
  ultimately show ?thesis
    using n digits_of_value [of n] digits_of_head [of n] by (simp add: ParseIntAny_def read_digits_all)
qed

lemma leadingInt_digits:
  "list_all is_digit ds \<Longrightarrow> (rest = [] \<or> \<not> is_digit (hd rest)) \<Longrightarrow> x * 10 ^ length ds + digits_value ds < 2 ^ 63 \<Longrightarrow>
     leadingInt (ds @ rest) x = Some (x * 10 ^ length ds + digits_value ds, rest)"
proof (induction ds arbitrary: x)
  case Nil
  then show ?case by (cases rest) (auto simp: digits_value_def)
next
  case (Cons c cs)
  have v: "x * 10 ^ length (c # cs) + digits_value (c # cs)
      = (x * 10 + digit_value c) * 10 ^ length cs + digits_value cs"
    using digits_value_from [of "digit_value c" cs] by (simp add: digits_value_def algebra_simps)
  have "x * 10 + digit_value c \<le> (x * 10 + digit_value c) * 10 ^ length cs" by simp
  with v Cons.prems(3) have b: "x * 10 + digit_value c < 2 ^ 63" by linarith
  then have "\<not> 2 ^ 63 div 10 < x" by simp
  with b Cons v show ?case by simp
qed

lemma ParseDuration_digits: "0 < n \<Longrightarrow> n < 2 ^ 63 \<Longrightarrow> ParseDuration (digits_of n @ ''ns'') = Some (int n)"
proof -
  assume n: "0 < n" "n < 2 ^ 63"
  obtain c cs where ds: "digits_of n = c # cs" "is_digit c" using digits_of_head [of n] by (cases "digits_of n") auto
  then have c: "c \<noteq> CHR ''-''" "c \<noteq> CHR ''+''" by (auto simp: is_digit_def byte_code_def)
  have all: "list_all is_digit (digits_of n)" "digits_value (digits_of n) = n"
    using digits_of_value [of n] by (simp_all add: all_digits_def)
  have nd: "\<not> is_digit (CHR ''n'')" "\<not> is_digit (CHR ''s'')" by (simp_all add: is_digit_def byte_code_def)
  have "leadingInt (digits_of n @ ''ns'') 0 = Some (n, ''ns'')"
    using leadingInt_digits [of "digits_of n" "''ns''" 0] all n nd by simp
  then have "duration_part (digits_of n @ ''ns'') = Some (of_nat n, [])"
    using n ds nd by (simp add: duration_part_def Let_def unit_map_def)
  moreover have "(of_nat n :: u64) \<le> 2 ^ 63 - 1"
    using n by (simp add: word_le_nat_alt unat_of_nat)
  moreover have "(of_nat n :: u64) \<le> 2 ^ 63"
    using n by (simp add: word_le_nat_alt unat_of_nat)
  moreover have "sint (of_nat n :: u64) = int n"
    using n sint_small [of "of_nat n"] by (simp add: uint_nat unat_of_nat)
  ultimately show ?thesis
    using ds c by (simp add: ParseDuration_def strip_sign_def duration_sum.simps not_less)
qed

lemma Itoa_digits: "0 < i \<Longrightarrow> Itoa i = digits_of (nat i)"
  by (simp add: Itoa_def)

text \<open>One flag given with an equals sign.\<close>

definition flag_arg :: "bytes \<Rightarrow> bytes \<Rightarrow> bytes" where
  "flag_arg name v = ''--'' @ name @ ''='' @ v"

lemma parse_flag_arg:
  assumes "name \<in> set defined_flags"
  shows "parse_flags (flag_arg name v # args) c =
    (case set_flag name v c of
       Inl _ \<Rightarrow> Inl (bad_flag (if name = ''allow-insecure-source'' then ''invalid boolean value for -''
                            else ''invalid value for flag -'') name)
     | Inr c' \<Rightarrow> parse_flags args c')"
proof -
  have "split_value (name @ ''='' @ v) = (name, Some v)"
    using assms(1) by (auto simp: split_value_def defined_flags_def)
  moreover have "flag_name (flag_arg name v) = name @ ''='' @ v" by (simp add: flag_name_def flag_arg_def)
  moreover have "\<not> (length (flag_arg name v) < 2 \<or> hd (flag_arg name v) \<noteq> CHR ''-'')" "flag_arg name v \<noteq> ''--''"
    by (simp_all add: flag_arg_def)
  moreover have "name \<noteq> []" "hd name \<noteq> CHR ''-''" "hd name \<noteq> CHR ''=''" using assms(1) by (auto simp: defined_flags_def)
  ultimately show ?thesis using assms by auto
qed

text \<open>The command line that gives every setting, durations in nanoseconds.\<close>

definition in_nanoseconds :: "int \<Rightarrow> bytes" where
  "in_nanoseconds d = Itoa d @ ''ns''"

definition command_line :: "config \<Rightarrow> bytes list" where
  "command_line c =
    [flag_arg ''report-dir'' (ReportDirectory c),
     flag_arg ''pid'' (Itoa (cfg_PID c)),
     flag_arg ''otlp-endpoint'' (OTLPEndpoint c),
     flag_arg ''rescan-interval'' (in_nanoseconds (RescanInterval c)),
     flag_arg ''initialization-timeout'' (in_nanoseconds (cfg_InitializationTimeout c)),
     flag_arg ''source-drain-timeout'' (in_nanoseconds (SourceDrainTimeout c)),
     flag_arg ''export-interval'' (in_nanoseconds (ExportInterval c)),
     flag_arg ''export-timeout'' (in_nanoseconds (ExportTimeout c)),
     flag_arg ''shutdown-timeout'' (in_nanoseconds (ShutdownTimeout c)),
     flag_arg ''max-record-bytes'' (Itoa (cfg_MaxRecordBytes c)),
     flag_arg ''allow-insecure-source'' (if AllowInsecureSource c then ''true'' else ''false''),
     flag_arg ''log-level'' (LogLevel c)]"

text \<open>Every integer setting is an \<open>int\<close> or a \<open>Duration\<close> of 64 bits.\<close>

definition fits_int64 :: "config \<Rightarrow> bool" where
  "fits_int64 c \<longleftrightarrow> cfg_PID c < 2 ^ 63 \<and> list_all (\<lambda>(name, v). v < 2 ^ 63) (durations c)"

lemma read_int: "0 < i \<Longrightarrow> i < 2 ^ 63 \<Longrightarrow> ParseIntAny (Itoa i) = Some i"
  using ParseIntAny_digits [of "nat i"] by (simp add: Itoa_digits)

lemma read_duration: "0 < i \<Longrightarrow> i < 2 ^ 63 \<Longrightarrow> ParseDuration (in_nanoseconds i) = Some i"
  using ParseDuration_digits [of "nat i"] by (simp add: Itoa_digits in_nanoseconds_def)

lemma parse_command_line:
  assumes "Validate c = None" "fits_int64 c"
  shows "parse_flags (command_line c) c0 = Inr (c, [])"
proof -
  have pos: "0 < cfg_PID c" "list_all (\<lambda>(name, v). 0 < v) (durations c)"
    "0 < cfg_MaxRecordBytes c" "cfg_MaxRecordBytes c < 2 ^ 63"
    using assms(1) by (auto simp: Validate_None MinimumRecordBytes_def MaximumRecordBytes_def)
  have bool: "ParseBool (if AllowInsecureSource c then ''true'' else ''false'') = Some (AllowInsecureSource c)"
    by (simp add: ParseBool_def)
  show ?thesis
    using pos assms(2) bool
    by (simp add: command_line_def parse_flag_arg set_flag_def set_with_def defined_flags_def
        read_int read_duration durations_def fits_int64_def config.equality
        del: parse_flags.simps(2))
qed

text \<open>
  C34. Every valid configuration can be given on the command line: printed as flags it is parsed
  back to exactly the same settings, whatever the defaults are.
\<close>

theorem valid_configurations_round_trip:
  assumes "Validate c = None" and "fits_int64 c"
  shows "config_Parse (command_line c) = Inr c"
  using parse_command_line [OF assms] assms(1) by (simp add: config_Parse_def)

lemma sample_config_valid:
  "Validate (Default\<lparr>ReportDirectory := ''/var/run'', cfg_PID := 9\<rparr>) = None"
proof -
  have "case ParseOTLPEndpoint ''http://127.0.0.1:4318/v1/metrics'' of Inl e \<Rightarrow> False | Inr u \<Rightarrow> True"
    by code_simp
  then have "\<exists>u. ParseOTLPEndpoint ''http://127.0.0.1:4318/v1/metrics'' = Inr u"
    by (auto split: sum.splits)
  then show ?thesis
    by (simp add: Validate_None Default_def IsAbs_def durations_def second_def MinimumRecordBytes_def
        MaximumRecordBytes_def validLogLevel_def)
qed

theorem valid_configurations_round_trip_witness:
  "config_Parse (command_line (Default\<lparr>ReportDirectory := ''/var/run'', cfg_PID := 9\<rparr>))
     = Inr (Default\<lparr>ReportDirectory := ''/var/run'', cfg_PID := 9\<rparr>)"
  by (rule valid_configurations_round_trip [OF sample_config_valid])
     (simp add: fits_int64_def durations_def Default_def second_def)

section \<open>Endpoints\<close>

lemma IndexByte_None: "IndexByte s c = None \<longleftrightarrow> c \<notin> set s"
  by (induction s) auto

lemma IndexByte_first: "IndexByte s c = Some i \<Longrightarrow> i < length s \<and> s ! i = c \<and> c \<notin> set (take i s)"
  by (induction s arbitrary: i) (auto split: if_splits)

lemma cut_at_split:
  assumes "cut_at c s = (a, b, has)"
  shows "c \<notin> set a \<and> s = a @ (if has then c # b else []) \<and> (\<not> has \<longrightarrow> b = [])"
proof (cases "IndexByte s c")
  case None
  with assms show ?thesis by (auto simp: cut_at_def IndexByte_None)
next
  case (Some i)
  with assms IndexByte_first [OF Some] show ?thesis
    by (auto simp: cut_at_def id_take_nth_drop [symmetric] simp flip: id_take_nth_drop)
qed

lemma scheme_end_colon:
  "scheme_end s i = Some (Some j) \<Longrightarrow> i \<le> j \<and> j - i < length s \<and> s ! (j - i) = CHR '':''"
proof (induction s i rule: scheme_end.induct)
  case (2 c cs i)
  then show ?case by (fastforce split: if_splits simp: nth_Cons')
qed simp

lemma unescape_Nil: "unescape mode s = Some [] \<Longrightarrow> s = []"
  by (cases s) (auto split: if_splits list.splits)

lemma LastIndexByte_None: "LastIndexByte s c = None \<longleftrightarrow> c \<notin> set s"
  by (simp add: LastIndexByte_def IndexByte_None)

text \<open>What the query of a URL leaves.\<close>

lemma split_query_plain:
  assumes "split_query after u0 = (rest, u)" "RawQuery u = []" "\<not> ForceQuery u"
  shows "after = rest \<and> CHR ''?'' \<notin> set rest \<and> u = u0\<lparr>RawQuery := []\<rparr>"
proof -
  obtain path query has where c: "cut_at (CHR ''?'') after = (path, query, has)" by (metis surj_pair)
  note split = cut_at_split [OF c]
  have plain: "rest = path" "u = u0\<lparr>RawQuery := query\<rparr>"
    "\<not> (after \<noteq> [] \<and> last after = CHR ''?'' \<and> count_list after (CHR ''?'') = 1)"
    using assms c by (auto simp: split_query_def split: if_splits)
  have "\<not> has"
  proof
    assume has
    with split plain assms(2) have "after = path @ ''?''" "CHR ''?'' \<notin> set path" by simp_all
    with plain(3) show False by (simp add: count_list_append)
  qed
  with split plain assms(2) show ?thesis by simp
qed

lemma parse_hierarchy_host:
  assumes "parse_hierarchy rest u0 = Some u" "Host u0 = []" "Host u \<noteq> []" "User u = None"
  obtains authority path where "rest = ''//'' @ authority @ path" "CHR ''/'' \<notin> set authority"
    "CHR ''@'' \<notin> set authority" "parseHost authority = Some (Host u)"
    "unescape EncodePath path = Some (Path u)" "Scheme u = Scheme u0" "RawQuery u = RawQuery u0"
    "ForceQuery u = ForceQuery u0" "Opaque u = Opaque u0" "Fragment u = Fragment u0"
proof -
  have h: "take 2 rest = ''//''"
    using assms(1-3) by (auto simp: parse_hierarchy_def setPath_def split: if_splits)
  let ?a = "takeWhile (\<lambda>c. c \<noteq> CHR ''/'') (drop 2 rest)" and ?p = "dropWhile (\<lambda>c. c \<noteq> CHR ''/'') (drop 2 rest)"
  obtain user host where a: "parseAuthority ?a = Some (user, host)" "setPath ?p (u0\<lparr>User := user, Host := host\<rparr>) = Some u"
    using assms by (auto simp: parse_hierarchy_def setPath_def Let_def split: if_splits option.splits)
  have "user = None" "host = Host u" using a(2) assms(4) by (auto simp: setPath_def)
  with a(1) have "CHR ''@'' \<notin> set ?a" "parseHost ?a = Some (Host u)"
    by (auto simp: parseAuthority_def Let_def LastIndexByte_None split: option.splits if_splits prod.splits)
  moreover have "rest = ''//'' @ ?a @ ?p" using h by (metis append_take_drop_id takeWhile_dropWhile_id)
  moreover have "CHR ''/'' \<notin> set ?a" by (auto dest: set_takeWhileD)
  ultimately show ?thesis using a(2) by (intro that [of ?a ?p]) (auto simp: setPath_def)
qed

text \<open>
  C33. An accepted endpoint is plain HTTP to this host: its text is \<open>http\<close> in any case, a colon and
  two slashes, an authority without user information, and a path that ends in \<open>/v1/metrics\<close>, with no
  query and at most an empty fragment; and its host is a loopback address or folds to
  \<open>localhost\<close>.
\<close>

theorem accepted_endpoints_are_local:
  assumes "ParseOTLPEndpoint v = Inr u"
  shows "\<exists>s authority path tail. v = s @ ''://'' @ authority @ path @ tail \<and> map lower s = ''http''
    \<and> list_all (\<lambda>c. c \<notin> set ''/@?#'') authority \<and> list_all (\<lambda>c. c \<notin> set ''?#'') path
    \<and> tail \<in> {[], ''#''} \<and> parseHost authority = Some (Host u) \<and> unescape EncodePath path = Some (Path u)
    \<and> HasSuffix (Path u) ''/v1/metrics''
    \<and> (case ParseIP (Hostname u) of None \<Rightarrow> EqualFold (Hostname u) ''localhost''
       | Some a \<Rightarrow> if EqualFold (Hostname u) ''localhost'' then True else IsLoopback a)"
proof -
  have url: "url_Parse v = Some u" and ok: "Scheme u = ''http''" "Opaque u = []" "User u = None" "RawQuery u = []"
    "\<not> ForceQuery u" "Fragment u = []" "Host u \<noteq> []" "isLoopbackHost (Hostname u)" "HasSuffix (Path u) ''/v1/metrics''"
    using assms by (cases "User u"; simp add: ParseOTLPEndpoint_def split: option.splits if_splits)+
  obtain r frag has where c: "cut_at (CHR ''#'') v = (r, frag, has)" by (metis surj_pair)
  have "frag = []" and p: "parse_url r = Some u"
    using url c ok(6) by (auto simp: url_Parse_def split: option.splits if_splits dest: unescape_Nil)
  then have v: "v = r @ (if has then ''#'' else [])" "CHR ''#'' \<notin> set r" using cut_at_split [OF c] by simp_all
  obtain scheme after where g: "getScheme r = Some (scheme, after)"
    using p ok(7) by (auto simp: parse_url_def zero_url_def split: if_splits option.splits)
  obtain rest u1 where q: "split_query after (zero_url\<lparr>Scheme := map lower scheme\<rparr>) = (rest, u1)" by force
  have z: "Opaque u1 = []" "User u1 = None" "Host u1 = []" "Fragment u1 = []" "Scheme u1 = map lower scheme"
    using q by (auto simp: split_query_def zero_url_def split: if_splits prod.splits)
  have "parse_hierarchy rest u1 = Some u"
    using p g q ok(7) z(3) by (auto simp: parse_url_def zero_url_def split: if_splits)
  from parse_hierarchy_host [OF this z(3) ok(7,3)] obtain authority path where h:
    "rest = ''//'' @ authority @ path" "CHR ''/'' \<notin> set authority" "CHR ''@'' \<notin> set authority"
    "parseHost authority = Some (Host u)" "unescape EncodePath path = Some (Path u)" "Scheme u = Scheme u1"
    "RawQuery u = RawQuery u1" "ForceQuery u = ForceQuery u1" by metis
  have after: "after = rest" "CHR ''?'' \<notin> set rest" using split_query_plain [OF q] h(7,8) ok(4,5) by auto
  have s: "map lower scheme = ''http''" using h(6) z(5) ok(1) by simp
  obtain i where i: "scheme_end r 0 = Some (Some i)" "scheme = take i r" "after = drop (Suc i) r"
    using g s by (auto simp: getScheme_def split: option.splits)
  have "r = scheme @ '':'' @ after"
    using scheme_end_colon [OF i(1)] i(2,3) id_take_nth_drop [of i r] by simp
  then have "v = scheme @ ''://'' @ authority @ path @ (if has then ''#'' else [])"
    using v(1) after(1) h(1) by simp
  moreover have "list_all (\<lambda>c. c \<notin> set ''/@?#'') authority" "list_all (\<lambda>c. c \<notin> set ''?#'') path"
    using h(1-3) after v(2) \<open>r = scheme @ '':'' @ after\<close> by (auto simp: list_all_iff)
  moreover have "(if has then ''#'' else []) \<in> {[], ''#''}" by simp
  moreover have "case ParseIP (Hostname u) of None \<Rightarrow> EqualFold (Hostname u) ''localhost''
       | Some a \<Rightarrow> if EqualFold (Hostname u) ''localhost'' then True else IsLoopback a"
    using ok(8) by (simp add: isLoopbackHost_def del: EqualFold.simps split: option.splits if_splits)
  ultimately show ?thesis using s h(4,5) ok(9)
    by - (rule exI [of _ scheme], rule exI [of _ authority], rule exI [of _ path],
      rule exI [of _ "if has then ''#'' else []"], intro conjI)
qed

theorem accepted_endpoints_are_local_witness:
  "\<exists>u. ParseOTLPEndpoint ''HTTP://127.1.2.3:80/v1/metrics#'' = Inr u
     \<and> Hostname u = ''127.1.2.3'' \<and> HasSuffix (Path u) ''/v1/metrics''"
proof -
  have "case ParseOTLPEndpoint ''HTTP://127.1.2.3:80/v1/metrics#'' of Inl e \<Rightarrow> False
      | Inr u \<Rightarrow> Hostname u = ''127.1.2.3''" by code_simp
  then obtain u where u: "ParseOTLPEndpoint ''HTTP://127.1.2.3:80/v1/metrics#'' = Inr u"
    "Hostname u = ''127.1.2.3''" by (auto split: sum.splits)
  from accepted_endpoints_are_local [OF u(1)] have "HasSuffix (Path u) ''/v1/metrics''"
    by (elim exE conjE)
  with u show ?thesis by (intro exI [of _ u] conjI)
qed

end
