(* ===== verification/Process_Recorder.thy ===== *)
theory Process_Recorder
  imports Recorder Identity
begin

text \<open>
  \<open>internal/metrics/process_otel_linux.go\<close>: the CPU time and resident memory of the monitored
  process, read whenever the SDK collects.  What a read returns is an argument of the callback.
  Both instruments are observable; the CPU time is listed with the kind of the counters.
\<close>

definition process_instruments :: "descriptor list" where
  "process_instruments =
    [\<lparr>Name = ''process.cpu.time'', Description = ''Total CPU seconds broken down by different states.'',
      Unit = ''s'', Kind = InstrumentCounter\<rparr>,
     \<lparr>Name = ''process.memory.usage'', Description = ''The amount of physical memory in use.'',
      Unit = ''By'', Kind = InstrumentObservableUpDownCounter\<rparr>]"

type_synonym process_reading = "process_identity \<Rightarrow> error + process_metrics"

record process_recorder =
  pr_identity :: process_identity
  pr_registered :: bool
  pr_readErrors :: u64

text \<open>\<open>registration\<close> is the SDK's answer to registering the callback; \<open>has_read\<close> whether there is a reader.\<close>

definition newProcessRecorder ::
    "meter option \<Rightarrow> process_identity \<Rightarrow> bool \<Rightarrow> error option \<Rightarrow> error + process_recorder" where
  "newProcessRecorder meter i has_read registration =
     (case meter of
        None \<Rightarrow> Inl (Text ''OpenTelemetry meter is required'')
      | Some m \<Rightarrow>
          if PID i \<le> 0 \<or> StartTicks i = 0 then Inl (Text ''process identity is invalid'')
          else if \<not> has_read then Inl (Text ''process metric reader is required'')
          else (case first_refusal m process_instruments of
                  Some e \<Rightarrow> Inl e
                | None \<Rightarrow>
                    (case registration of
                       Some e \<Rightarrow> Inl e
                     | None \<Rightarrow> Inr \<lparr>pr_identity = i, pr_registered = True, pr_readErrors = 0\<rparr>)))"

definition NewProcessRecorder ::
    "meter option \<Rightarrow> process_identity \<Rightarrow> error option \<Rightarrow> error + process_recorder" where
  "NewProcessRecorder meter i registration = newProcessRecorder meter i True registration"

definition process_Close :: "error option \<Rightarrow> process_recorder option \<Rightarrow> error option" where
  "process_Close unregister rec =
     (case rec of None \<Rightarrow> None | Some r \<Rightarrow> if pr_registered r then unregister else None)"

definition ReadErrors :: "process_recorder option \<Rightarrow> u64" where
  "ReadErrors rec = (case rec of None \<Rightarrow> 0 | Some r \<Rightarrow> pr_readErrors r)"

text \<open>The callback: the floating-point and the integer points it observes.\<close>

definition cpu_point :: "string \<Rightarrow> f64 \<Rightarrow> f64 point" where
  "cpu_point state v = \<lparr>point_instrument = ''process.cpu.time'', point_value = v,
     point_attributes = [\<lparr>Key = ''process.cpu.state'', Value = state\<rparr>]\<rparr>"

definition process_observe ::
    "process_reading \<Rightarrow> process_recorder \<Rightarrow> process_recorder \<times> f64 point list \<times> int point list" where
  "process_observe read rec =
     (case read (pr_identity rec) of
        Inl e \<Rightarrow> (rec\<lparr>pr_readErrors := pr_readErrors rec + 1\<rparr>, [], [])
      | Inr m \<Rightarrow>
          (rec,
           [cpu_point ''user'' (CPUUserSeconds m), cpu_point ''system'' (CPUSystemSeconds m)],
           [\<lparr>point_instrument = ''process.memory.usage'', point_value = MemoryUsageBytes m,
             point_attributes = []\<rparr>]))"

text \<open>A run of collections, each with its own reading.\<close>

fun process_collections ::
    "process_reading list \<Rightarrow> process_recorder \<Rightarrow> process_recorder \<times> int point list" where
  "process_collections [] rec = (rec, [])"
| "process_collections (r # rs) rec =
     (case process_observe r rec of
        (rec', _, ps) \<Rightarrow> (case process_collections rs rec' of (rec'', qs) \<Rightarrow> (rec'', ps @ qs)))"

end
