(* ===== verification/Go_Format.thy ===== *)
theory Go_Format
  imports Go_Time
begin

text \<open>
  \<open>t.UTC().Format(time.RFC3339Nano)\<close>, with the calendar it needs, and that parsing what it
  prints gives the time back.
\<close>

section \<open>Calendar\<close>

definition year_length :: "nat \<Rightarrow> nat" where
  "year_length y = (if is_leap y then 366 else 365)"

text \<open>The year a day falls in, counted from the first day of year \<open>y\<close>, and the day of that year.\<close>

function year_from :: "nat \<Rightarrow> nat \<Rightarrow> nat \<times> nat" where
  "year_from y r = (if r < year_length y then (y, r) else year_from (y + 1) (r - year_length y))"
  by pat_completeness auto
termination
  by (relation "measure snd") (auto simp: year_length_def)

declare year_from.simps [simp del]

text \<open>The month of a day of the year, from 0, and the day of the month, from 0.\<close>

fun month_from :: "nat list \<Rightarrow> nat \<Rightarrow> nat \<times> nat" where
  "month_from [] r = (0, r)"
| "month_from (l # ls) r =
     (if r < l then (0, r) else (case month_from ls (r - l) of (m, d) \<Rightarrow> (Suc m, d)))"

text \<open>The date of a day counted from the first day of year 0: the calendar repeats every 400 years.\<close>

definition civil_date :: "int \<Rightarrow> int \<times> nat \<times> nat" where
  "civil_date day =
     (case year_from 0 (nat (day mod 146097)) of
        (y, r) \<Rightarrow>
          (case month_from (month_lengths y) r of
             (m, d) \<Rightarrow> (400 * (day div 146097) + int y, Suc m, Suc d)))"

section \<open>Printing\<close>

fun pad_digits :: "nat \<Rightarrow> nat \<Rightarrow> bytes" where
  "pad_digits 0 n = []"
| "pad_digits (Suc w) n = pad_digits w (n div 10) @ [byte_of (48 + n mod 10)]"

text \<open>\<open>appendInt\<close>: at least \<open>w\<close> digits, a minus sign before them when negative.\<close>

definition appendInt :: "int \<Rightarrow> nat \<Rightarrow> bytes" where
  "appendInt x w =
     (let n = nat \<bar>x\<bar>; ds = (if n < 10 ^ w then pad_digits w n else digits_of n)
      in if x < 0 then CHR ''-'' # ds else ds)"

text \<open>\<open>appendNano\<close>: nine digits after a period, without trailing zeros, and nothing for zero.\<close>

definition trim_zeros :: "bytes \<Rightarrow> bytes" where
  "trim_zeros ds = rev (dropWhile (\<lambda>c. c = CHR ''0'') (rev ds))"

definition appendNano :: "nat \<Rightarrow> bytes" where
  "appendNano ns = (if ns = 0 then [] else CHR ''.'' # trim_zeros (pad_digits 9 ns))"

definition FormatRFC3339Nano :: "go_time \<Rightarrow> bytes" where
  "FormatRFC3339Nano t =
     (case civil_date (fst t div 86400 + epoch_day) of
        (y, m, d) \<Rightarrow>
          (let secs = nat (fst t mod 86400)
           in appendInt y 4 @ ''-'' @ appendInt (int m) 2 @ ''-'' @ appendInt (int d) 2 @ ''T''
              @ appendInt (int (secs div 3600)) 2 @ '':'' @ appendInt (int (secs div 60 mod 60)) 2
              @ '':'' @ appendInt (int (secs mod 60)) 2 @ appendNano (snd t) @ ''Z''))"

section \<open>Dates round trip\<close>

definition year_start :: "nat \<Rightarrow> nat" where
  "year_start y = 365 * y + (y + 3) div 4 - (y + 99) div 100 + (y + 399) div 400"

lemma year_start_bound: "(y + 99) div 100 \<le> 365 * y + (y + 3) div 4" for y :: nat
  by linarith

lemma div_up_Suc:
  assumes "0 < n"
  shows "(Suc y + (n - 1)) div n = (y + (n - 1)) div n + (if y mod n = 0 then 1 else 0)"
proof -
  have y: "y = y mod n + y div n * n" by simp
  show ?thesis
  proof (cases "y mod n = 0")
    case True
    then have "y + (n - 1) = (n - 1) + y div n * n" "Suc y + (n - 1) = 0 + (y div n + 1) * n"
      using y assms by (simp_all add: mult.commute)
    then show ?thesis using True assms by (simp only: div_mult_self1) simp
  next
    case False
    define k where "k = y mod n - 1"
    have k: "y mod n = Suc k" "Suc k < n" using False assms mod_less_divisor [OF assms, of y] by (simp_all add: k_def)
    have "y + (n - 1) = k + (y div n + 1) * n" "Suc y + (n - 1) = Suc k + (y div n + 1) * n"
      using y k by (simp_all add: algebra_simps)
    then show ?thesis using False k assms by (simp only: div_mult_self1) simp
  qed
qed

lemma year_start_Suc: "year_start (Suc y) = year_start y + year_length y"
proof -
  have d: "(Suc y + 3) div 4 = (y + 3) div 4 + (if y mod 4 = 0 then 1 else 0)"
    "(Suc y + 99) div 100 = (y + 99) div 100 + (if y mod 100 = 0 then 1 else 0)"
    "(Suc y + 399) div 400 = (y + 399) div 400 + (if y mod 400 = 0 then 1 else 0)"
    using div_up_Suc [of 4 y] div_up_Suc [of 100 y] div_up_Suc [of 400 y] by simp_all
  have "y mod 400 = 0 \<longrightarrow> y mod 100 = 0" "y mod 100 = 0 \<longrightarrow> y mod 4 = 0"
    using mod_mod_cancel [of 100 400 y] mod_mod_cancel [of 4 100 y] by auto
  then show ?thesis
    unfolding year_start_def d year_length_def is_leap_def using year_start_bound [of y]
    by (auto simp: ac_simps)
qed

lemma year_start_cycle: "year_start (400 * c + y) = 146097 * c + year_start y"
proof -
  have d: "(400 * c + y + 3) div 4 = 100 * c + (y + 3) div 4"
    "(400 * c + y + 99) div 100 = 4 * c + (y + 99) div 100"
    "(400 * c + y + 399) div 400 = c + (y + 399) div 400"
    using div_mult_self1 [of 4 "y + 3" "100 * c"] div_mult_self1 [of 100 "y + 99" "4 * c"]
      div_mult_self1 [of 400 "y + 399" c] by (simp_all add: algebra_simps)
  show ?thesis unfolding year_start_def d using year_start_bound [of y] by (simp add: ac_simps)
qed

lemma is_leap_cycle [simp]: "is_leap (400 * c + y) = is_leap y"
proof -
  have "(400 * c + y) mod k = y mod k" if "k dvd 400" for k
    using that by (metis dvd_mult2 mod_add_left_eq mod_0 add_0 mod_0_imp_dvd dvd_imp_mod_0)
  from this [of 4] this [of 100] this [of 400] show ?thesis by (simp add: is_leap_def)
qed

lemma year_from_start:
  "year_from y r = (y', r') \<Longrightarrow> year_start y' + r' = year_start y + r \<and> r' < year_length y'"
proof (induction y r rule: year_from.induct)
  case (1 y r)
  show ?case
  proof (cases "r < year_length y")
    case True
    with 1 show ?thesis by (simp add: year_from.simps)
  next
    case False
    with 1 have "year_from (y + 1) (r - year_length y) = (y', r')" by (subst (asm) (2) year_from.simps) simp
    with 1(1) [OF False] False year_start_Suc [of y] show ?thesis by simp
  qed
qed

lemma month_from_sum:
  "month_from ls r = (m, d) \<Longrightarrow> r < sum_list ls \<Longrightarrow> m < length ls \<and> d < ls ! m \<and> r = sum_list (take m ls) + d"
proof (induction ls arbitrary: r m)
  case (Cons l ls)
  then show ?case by (fastforce split: if_splits prod.splits)
qed simp

lemma sum_month_lengths: "sum_list (month_lengths y) = year_length y"
  by (simp add: month_lengths_def year_length_def)

lemma month_lengths_cycle [simp]: "month_lengths (400 * c + y) = month_lengths y"
  by (simp add: month_lengths_def)

lemma civil_date_number:
  assumes "civil_date day = (y, m, d)" "0 \<le> day"
  shows "0 \<le> y \<and> 1 \<le> m \<and> m \<le> 12 \<and> 1 \<le> d \<and> d \<le> daysIn m (nat y) \<and> int (day_number (nat y) m d) = day"
proof -
  obtain y0 r where yr: "year_from 0 (nat (day mod 146097)) = (y0, r)" by force
  obtain m0 d0 where md: "month_from (month_lengths y0) r = (m0, d0)" by force
  have out: "y = 400 * (day div 146097) + int y0" "m = Suc m0" "d = Suc d0"
    using assms(1) yr md by (simp_all add: civil_date_def)
  from year_from_start [OF yr] have r: "year_start y0 + r = nat (day mod 146097)" "r < year_length y0"
    by (simp_all add: year_start_def)
  from month_from_sum [OF md] r(2) sum_month_lengths [of y0] have m0: "m0 < length (month_lengths y0)"
    "d0 < month_lengths y0 ! m0" "r = sum_list (take m0 (month_lengths y0)) + d0" by simp_all
  have ny: "nat y = 400 * nat (day div 146097) + y0" using assms(2) out(1) by simp
  have num: "day_number Y m d = year_start Y + sum_list (take m0 (month_lengths Y)) + d0" for Y
    by (simp add: day_number_def year_start_def out)
  have "day_number (nat y) m d = 146097 * nat (day div 146097) + nat (day mod 146097)"
    unfolding num ny using r(1) m0(3) by (simp add: year_start_cycle)
  moreover have "0 \<le> day div 146097" "0 \<le> day mod 146097" using assms(2) by simp_all
  ultimately have "int (day_number (nat y) m d) = day" by simp
  moreover have "length (month_lengths y0) = 12" by (simp add: month_lengths_def)
  ultimately show ?thesis using m0 assms(2) unfolding ny daysIn_def by (simp add: out)
qed

section \<open>Printing and parsing\<close>

lemma length_pad_digits [simp]: "length (pad_digits w n) = w"
  by (induction w arbitrary: n) auto

lemma pad_digits_value:
  "n < 10 ^ w \<Longrightarrow> digits_value (pad_digits w n) = n \<and> list_all is_digit (pad_digits w n)"
proof (induction w arbitrary: n)
  case (Suc w)
  then have "n div 10 < 10 ^ w" by (simp add: div_less_iff_less_mult mult.commute)
  with Suc.IH [OF this] digit_byte [of "n mod 10"] show ?case by (simp add: digits_value_snoc)
qed (simp add: digits_value_def)

lemma getnum_pad: "n < 100 \<Longrightarrow> getnum fixed (pad_digits 2 n @ rest) = Some (n, rest)"
proof -
  assume n: "n < 100"
  obtain a b where ab: "pad_digits 2 n = [a, b]"
    by (metis length_pad_digits length_0_conv length_Suc_conv numeral_2_eq_2)
  with pad_digits_value [of n 2] n show ?thesis by (simp add: getnum_def digits_value_def)
qed

lemma get_year_pad: "n < 10000 \<Longrightarrow> get_year (pad_digits 4 n @ rest) = Some (n, rest)"
  using pad_digits_value [of n 4] by (simp add: get_year_def)

lemma digits_value_zeros: "digits_value (ds @ replicate j (CHR ''0'')) = digits_value ds * 10 ^ j"
proof (induction j)
  case (Suc j)
  have "replicate (Suc j) (CHR ''0'') = replicate j (CHR ''0'') @ ''0''" by (simp add: replicate_append_same)
  then have "ds @ replicate (Suc j) (CHR ''0'') = (ds @ replicate j (CHR ''0'')) @ ''0''" by (simp only: append_assoc)
  then show ?case using Suc by (simp only: digits_value_snoc) (simp add: digit_value_def)
qed simp

lemma trim_zeros_split: "ds = trim_zeros ds @ replicate (length ds - length (trim_zeros ds)) (CHR ''0'')"
proof -
  let ?P = "\<lambda>c. c = CHR ''0''"
  have "takeWhile ?P (rev ds) = replicate (length (takeWhile ?P (rev ds))) (CHR ''0'')"
    by (induction "rev ds" arbitrary: ds) (auto simp: replicate_length_same dest: set_takeWhileD intro!: replicate_length_same [symmetric])
  then have "ds = trim_zeros ds @ replicate (length (takeWhile ?P (rev ds))) (CHR ''0'')"
    by (metis rev_append rev_replicate rev_rev_ident takeWhile_dropWhile_id trim_zeros_def)
  then show ?thesis by (metis add_diff_cancel_left' length_append length_replicate)
qed

lemma get_fraction_nano:
  assumes "ns < 10 ^ 9"
  shows "get_fraction (appendNano ns @ ''Z'') = (ns, ''Z'')"
proof (cases "ns = 0")
  case True
  then show ?thesis by (simp add: appendNano_def get_fraction_def)
next
  case False
  define t where "t = trim_zeros (pad_digits 9 ns)"
  have p: "digits_value (pad_digits 9 ns) = ns" "list_all is_digit (pad_digits 9 ns)"
    using pad_digits_value [OF assms] by simp_all
  have split: "pad_digits 9 ns = t @ replicate (9 - length t) (CHR ''0'')"
    using trim_zeros_split [of "pad_digits 9 ns"] by (simp add: t_def)
  then have v: "digits_value t * 10 ^ (9 - length t) = ns" and d: "list_all is_digit t"
    using p digits_value_zeros by (metis, metis list_all_append)
  have len: "length t \<le> 9" using arg_cong [OF split, of length] by simp
  have "t \<noteq> []" using v False by (auto simp: digits_value_def)
  then obtain a as where t: "t = a # as" by (cases t) auto
  have z: "\<not> is_digit (CHR ''Z'')" by (simp add: is_digit_def byte_code_def)
  have "takeWhile is_digit (t @ ''Z'') = t" "dropWhile is_digit (t @ ''Z'') = ''Z''"
    using d z by (simp_all add: list_all_iff)
  with False v len d t show ?thesis
    by (simp add: appendNano_def get_fraction_def Let_def flip: t_def)
qed

lemma appendInt_pad: "0 \<le> x \<Longrightarrow> x < 10 ^ w \<Longrightarrow> appendInt x w = pad_digits w (nat x)"
  by (simp add: appendInt_def Let_def nat_less_iff)

lemma date_parses:
  assumes "civil_date day = (y, m, d)" "0 \<le> day" "y < 10000"
  shows "parse_date (appendInt y 4 @ ''-'' @ appendInt (int m) 2 @ ''-'' @ appendInt (int d) 2 @ rest)
    = Some (day - epoch_day, rest)"
proof -
  from civil_date_number [OF assms(1,2)] have c: "0 \<le> y" "1 \<le> m" "m \<le> 12" "1 \<le> d" "d \<le> daysIn m (nat y)"
    "int (day_number (nat y) m d) = day" by simp_all
  have "month_lengths (nat y) ! (m - 1) \<in> set (month_lengths (nat y))"
    using c(2,3) by (intro nth_mem) (simp add: month_lengths_def)
  then have "daysIn m (nat y) \<le> 31" by (auto simp: daysIn_def month_lengths_def)
  with c assms(3) show ?thesis
    by (simp add: parse_date_def appendInt_pad get_year_pad getnum_pad skip_byte_def)
qed

lemma clock_parses:
  assumes "secs < 86400" "ns < 10 ^ 9"
  shows "parse_clock (appendInt (int (secs div 3600)) 2 @ '':'' @ appendInt (int (secs div 60 mod 60)) 2
    @ '':'' @ appendInt (int (secs mod 60)) 2 @ appendNano ns @ ''Z'') = Some (secs, ns, ''Z'')"
proof -
  have h: "secs div 3600 < 24" using assms(1) by (simp add: div_less_iff_less_mult)
  have "(secs div 3600 * 60 + secs div 60 mod 60) * 60 + secs mod 60 = secs"
    using div_mult2_eq [of secs 60 60] by simp
  with h get_fraction_nano [OF assms(2)] show ?thesis
    by (simp add: parse_clock_def appendInt_pad getnum_pad skip_byte_def not_le del: of_nat_div of_nat_mod)
qed

lemma FormatRFC3339Nano_parses:
  assumes "civil_date (fst t div 86400 + epoch_day) = (y, m, d)" "0 \<le> fst t div 86400 + epoch_day" "y < 10000"
    and "snd t < 10 ^ 9"
  shows "ParseRFC3339 (FormatRFC3339Nano t) = Some t"
proof -
  have "nat (fst t mod 86400) < 86400" by (simp add: nat_less_iff)
  from clock_parses [OF this assms(4)] date_parses [OF assms(1-3)] show ?thesis
    unfolding FormatRFC3339Nano_def assms(1) prod.case Let_def ParseRFC3339_def
    by (simp only: bind.bind_lunit prod.case skip_byte_def append_Cons append_Nil list.case if_True simp_thms)
       (simp add: get_zone_def)
qed

end
