(* ===== verification/Resource.thy ===== *)
theory Resource
  imports Go_Format Identity
begin

text \<open>
  \<open>internal/telemetry/resource.go\<close>: the resources metrics are exported under.  The semantic
  conventions and the SDK's \<open>resource.NewWithAttributes\<close> are not part of the repository: an
  attribute is the call that makes it, and a resource is the list of attributes it is made of, all
  under the conventions' schema.
\<close>

datatype resource_attribute =
    ServiceName string
  | ServiceInstanceID string
  | ProcessPID int
  | ProcessCreationTime string
  | StringAttribute string string

definition MonitorSourceAttribute :: string where
  "MonitorSourceAttribute = ''azure.blobfuse.monitor.source''"

definition NewAdapterResource :: "resource_attribute list" where
  "NewAdapterResource = [ServiceName ''blobfuse-health-exporter'']"

definition NewBlobFuseResource :: "process_identity \<Rightarrow> error + resource_attribute list" where
  "NewBlobFuseResource i =
     (if BootID i = [] \<or> PID i \<le> 0 \<or> StartTicks i = 0 \<or> IsZero (CreationTime i)
      then Inl (Text ''process identity is incomplete'')
      else Inr [ServiceName ''blobfuse2'', ServiceInstanceID (InstanceID i), ProcessPID (PID i),
                ProcessCreationTime (FormatRFC3339Nano (CreationTime i)),
                StringAttribute MonitorSourceAttribute ''bfusemon_json''])"

text \<open>The texts of creation times are read back, up to the year 9999.\<close>

lemma year_start_mono: "y \<le> y' \<Longrightarrow> year_start y \<le> year_start y'"
  by (rule lift_Suc_mono_le) (simp_all add: year_start_Suc)

lemma civil_date_year:
  assumes "civil_date day = (y, m, d)" "0 \<le> day" "day < 3652425"
  shows "y < 10000"
proof -
  obtain y0 r where yr: "year_from 0 (nat (day mod 146097)) = (y0, r)" by force
  then have y: "y = 400 * (day div 146097) + int y0"
    using assms(1) by (auto simp: civil_date_def split: prod.splits)
  have "year_start y0 + r = nat (day mod 146097)"
    using year_from_start [OF yr] by (simp add: year_start_def [of 0])
  moreover have "nat (day mod 146097) < 146097" by (simp add: nat_less_iff)
  moreover have "year_start 400 = 146097" by (simp add: year_start_def)
  ultimately have "year_start y0 < year_start 400" by linarith
  then have "y0 < 400" using year_start_mono [of 400 y0] by (cases "y0 < 400") auto
  moreover have "day div 146097 < 25" using assms(3) by simp
  ultimately show ?thesis unfolding y by linarith
qed

text \<open>Times from the year 0 to the year 9999, in seconds of the Unix epoch.\<close>

definition printable :: "go_time \<Rightarrow> bool" where
  "printable t \<longleftrightarrow> - 62167219200 \<le> fst t \<and> fst t < 253402300800 \<and> snd t < 10 ^ 9"

lemma printable_parses:
  assumes "printable t"
  shows "ParseRFC3339 (FormatRFC3339Nano t) = Some t"
proof -
  obtain y m d where c: "civil_date (fst t div 86400 + epoch_day) = (y, m, d)" by (metis surj_pair)
  have day: "0 \<le> fst t div 86400 + epoch_day" "fst t div 86400 + epoch_day < 3652425"
    using zdiv_mono1 [of "- 62167219200" "fst t" 86400] zdiv_mono1 [of "fst t" 253402300799 86400] assms
    by (simp_all add: printable_def epoch_day_def)
  from FormatRFC3339Nano_parses [OF c day(1) civil_date_year [OF c day]] assms show ?thesis
    by (simp add: printable_def)
qed

end
