(* ===== verification/Export.thy ===== *)
theory Export
  imports Recorder
begin

text \<open>
  \<open>internal/telemetry/resource_exporter.go\<close>: the exporter that sends the metrics of the monitored
  process and then the exporter's own, and counts what failed.  The SDK's exporter and manual
  reader are parameters that change a world \<open>'x\<close> and answer; \<open>onError\<close> is a callback on that
  world, and a context is asked for its error in it.  The mutex makes every call atomic.
\<close>

record 'm resource_metrics =
  ScopeMetrics :: "'m list list"

record ('m, 'x) metric_exporter =
  exp_Export :: "'m resource_metrics \<Rightarrow> 'x \<Rightarrow> error option \<times> 'x"
  exp_ForceFlush :: "'x \<Rightarrow> error option \<times> 'x"
  exp_Shutdown :: "'x \<Rightarrow> error option \<times> 'x"

type_synonym ('m, 'x) manual_reader = "'x \<Rightarrow> (error option \<times> 'm resource_metrics) \<times> 'x"
type_synonym 'x export_context = "'x \<Rightarrow> error option"

record ('m, 'x) resource_exporter =
  re_exporter :: "('m, 'x) metric_exporter"
  re_selfReader :: "('m, 'x) manual_reader"
  re_onError :: "(export_error_type \<Rightarrow> 'x \<Rightarrow> 'x) option"

definition newResourceExporter ::
    "('m, 'x) metric_exporter option \<Rightarrow> ('m, 'x) manual_reader option
      \<Rightarrow> (export_error_type \<Rightarrow> 'x \<Rightarrow> 'x) option \<Rightarrow> error + ('m, 'x) resource_exporter" where
  "newResourceExporter exporter reader onError =
     (case exporter of
        None \<Rightarrow> Inl (Text ''metric exporter is required'')
      | Some e \<Rightarrow>
          (case reader of
             None \<Rightarrow> Inl (Text ''self-metric reader is required'')
           | Some r \<Rightarrow> Inr \<lparr>re_exporter = e, re_selfReader = r, re_onError = onError\<rparr>))"

definition deadline_exceeded :: "error option \<Rightarrow> bool" where
  "deadline_exceeded e = (case e of None \<Rightarrow> False | Some err \<Rightarrow> errors_is Context_DeadlineExceeded err)"

definition classifyExportError :: "error option \<Rightarrow> error option \<Rightarrow> export_error_type" where
  "classifyExportError ctx_err err =
     (if deadline_exceeded err \<or> deadline_exceeded ctx_err then ExportErrorTimeout else ExportErrorTransport)"

definition hasMetricData :: "'m resource_metrics \<Rightarrow> bool" where
  "hasMetricData rm = list_ex (\<lambda>ms. 0 < length ms) (ScopeMetrics rm)"

definition recordError ::
    "('m, 'x) resource_exporter \<Rightarrow> export_error_type \<Rightarrow> error option \<Rightarrow> 'x \<Rightarrow> 'x" where
  "recordError re t err x =
     (case (err, re_onError re) of (Some _, Some onError) \<Rightarrow> onError t x | _ \<Rightarrow> x)"

definition exporter_export ::
    "'x export_context \<Rightarrow> ('m, 'x) resource_exporter \<Rightarrow> 'm resource_metrics \<Rightarrow> 'x \<Rightarrow> error option \<times> 'x" where
  "exporter_export ctx re data x =
     (case exp_Export (re_exporter re) data x of
        (None, x1) \<Rightarrow> (None, x1)
      | (Some err, x1) \<Rightarrow> (Some err, recordError re (classifyExportError (ctx x1) (Some err)) (Some err) x1))"

definition resource_Export ::
    "'x export_context \<Rightarrow> 'm resource_metrics option \<Rightarrow> ('m, 'x) resource_exporter \<Rightarrow> 'x \<Rightarrow> error option \<times> 'x" where
  "resource_Export ctx target re x =
     (case target of
        None \<Rightarrow> (Some (Text ''target resource metrics are required''), x)
      | Some data \<Rightarrow>
          (case exporter_export ctx re data x of
             (targetErr, x1) \<Rightarrow>
               (case re_selfReader re x1 of
                  ((collectErr, self), x2) \<Rightarrow>
                    if collectErr \<noteq> None \<or> \<not> hasMetricData self
                    then (errors_join [targetErr, collectErr], x2)
                    else (case exporter_export ctx re self x2 of
                            (selfErr, x3) \<Rightarrow> (errors_join [targetErr, selfErr], x3)))))"

definition resource_ForceFlush ::
    "'x export_context \<Rightarrow> ('m, 'x) resource_exporter \<Rightarrow> 'x \<Rightarrow> error option \<times> 'x" where
  "resource_ForceFlush ctx re x =
     (case exp_ForceFlush (re_exporter re) x of
        (err, x1) \<Rightarrow> (err, recordError re (classifyExportError (ctx x1) err) err x1))"

definition resource_Shutdown :: "('m, 'x) resource_exporter \<Rightarrow> 'x \<Rightarrow> error option \<times> 'x" where
  "resource_Shutdown re x =
     (case exp_Shutdown (re_exporter re) x of
        (err, x1) \<Rightarrow> (err, recordError re ExportErrorShutdown err x1))"

section \<open>Any sequence of calls\<close>

datatype 'm exporter_call = CallExport "'m resource_metrics option" | CallForceFlush | CallShutdown

fun call_exporter ::
    "'x export_context \<Rightarrow> ('m, 'x) resource_exporter \<Rightarrow> 'm exporter_call \<Rightarrow> 'x \<Rightarrow> error option \<times> 'x" where
  "call_exporter ctx re (CallExport target) x = resource_Export ctx target re x"
| "call_exporter ctx re CallForceFlush x = resource_ForceFlush ctx re x"
| "call_exporter ctx re CallShutdown x = resource_Shutdown re x"

fun exporter_calls ::
    "'x export_context \<Rightarrow> ('m, 'x) resource_exporter \<Rightarrow> 'm exporter_call list \<Rightarrow> 'x \<Rightarrow> error option list \<times> 'x" where
  "exporter_calls ctx re [] x = ([], x)"
| "exporter_calls ctx re (c # cs) x =
     (case call_exporter ctx re c x of
        (e, x1) \<Rightarrow> (case exporter_calls ctx re cs x1 of (es, x2) \<Rightarrow> (e # es, x2)))"

text \<open>
  An exporter watched from outside: beside its world \<open>'x\<close>, the calls it answered, each with its
  error and the context's at that moment, and the types that were reported.
\<close>

datatype exporter_answer = AnswerExport | AnswerFlush | AnswerShutdown

type_synonym 'x watched = "'x \<times> (exporter_answer \<times> error option \<times> error option) list \<times> export_error_type list"

definition watch ::
    "'x export_context \<Rightarrow> exporter_answer \<Rightarrow> error option \<times> 'x \<Rightarrow> 'x watched \<Rightarrow> error option \<times> 'x watched" where
  "watch ctx kind answer w =
     (case (answer, w) of
        ((err, x'), (x, answers, reported)) \<Rightarrow>
          (err, (x', answers @ [(kind, err, ctx x')], reported)))"

definition watched_exporter ::
    "'x export_context \<Rightarrow> ('m, 'x) metric_exporter \<Rightarrow> ('m, 'x watched) metric_exporter" where
  "watched_exporter ctx e =
     \<lparr>exp_Export = (\<lambda>data w. watch ctx AnswerExport (exp_Export e data (fst w)) w),
      exp_ForceFlush = (\<lambda>w. watch ctx AnswerFlush (exp_ForceFlush e (fst w)) w),
      exp_Shutdown = (\<lambda>w. watch ctx AnswerShutdown (exp_Shutdown e (fst w)) w)\<rparr>"

definition report_type :: "export_error_type \<Rightarrow> 'x watched \<Rightarrow> 'x watched" where
  "report_type t w = (case w of (x, answers, reported) \<Rightarrow> (x, answers, reported @ [t]))"

text \<open>What has to be reported of the answers.\<close>

fun reported_for :: "(exporter_answer \<times> error option \<times> error option) list \<Rightarrow> export_error_type list" where
  "reported_for [] = []"
| "reported_for ((kind, None, ctx_err) # as) = reported_for as"
| "reported_for ((AnswerShutdown, Some e, ctx_err) # as) = ExportErrorShutdown # reported_for as"
| "reported_for ((kind, Some e, ctx_err) # as) =
     (if errors_is Context_DeadlineExceeded e
         \<or> (case ctx_err of None \<Rightarrow> False | Some c \<Rightarrow> errors_is Context_DeadlineExceeded c)
      then ExportErrorTimeout else ExportErrorTransport) # reported_for as"

text \<open>A reader beside the log, and the exporter built on both.\<close>

definition watched_reader :: "('m, 'x) manual_reader \<Rightarrow> ('m, 'x watched) manual_reader" where
  "watched_reader r w = (case w of (x, rest) \<Rightarrow> (case r x of (a, x') \<Rightarrow> (a, (x', rest))))"

definition watched_resource_exporter ::
    "'x export_context \<Rightarrow> ('m, 'x) metric_exporter \<Rightarrow> ('m, 'x) manual_reader \<Rightarrow> ('m, 'x watched) resource_exporter" where
  "watched_resource_exporter ctx e r =
     \<lparr>re_exporter = watched_exporter ctx e, re_selfReader = watched_reader r, re_onError = Some report_type\<rparr>"

abbreviation aside_context :: "'x export_context \<Rightarrow> ('x watched) export_context" where
  "aside_context ctx \<equiv> \<lambda>w. ctx (fst w)"

lemma reported_for_append [simp]: "reported_for (as @ bs) = reported_for as @ reported_for bs"
  by (induction "as" rule: reported_for.induct) simp_all

lemmas watched_simps = watched_resource_exporter_def watched_exporter_def watch_def recordError_def
  report_type_def classifyExportError_def deadline_exceeded_def

text \<open>One step keeps the reports in line with the answers.\<close>

definition in_line :: "'x watched \<Rightarrow> 'x watched \<Rightarrow> bool" where
  "in_line w w' \<longleftrightarrow> (\<exists>as. fst (snd w') = fst (snd w) @ as \<and> snd (snd w') = snd (snd w) @ reported_for as)"

lemma in_line_refl [simp]: "in_line w w"
  by (simp add: in_line_def)

lemma in_line_trans: "in_line w w1 \<Longrightarrow> in_line w1 w2 \<Longrightarrow> in_line w w2"
  by (force simp: in_line_def)

lemma exporter_export_in_line:
  assumes "exporter_export (aside_context ctx) (watched_resource_exporter ctx e r) data w = (err, w')"
  shows "in_line w w'"
proof -
  obtain x answers reported where w: "w = (x, answers, reported)" by (metis surj_pair)
  obtain err1 x1 where a: "exp_Export e data x = (err1, x1)" by force
  show ?thesis
    using assms
    by (cases err1)
       (auto simp: exporter_export_def watched_simps w a in_line_def)
qed

lemma collect_in_line: "watched_reader r w = (a, w') \<Longrightarrow> in_line w w'"
  by (auto simp: watched_reader_def in_line_def split: prod.splits)

lemma call_exporter_in_line:
  assumes "call_exporter (aside_context ctx) (watched_resource_exporter ctx e r) c w = (err, w')"
  shows "in_line w w'"
proof (cases c)
  case (CallExport target)
  let ?re = "watched_resource_exporter ctx e r"
  have reader: "re_selfReader ?re = watched_reader r" by (simp add: watched_resource_exporter_def)
  show ?thesis
  proof (cases target)
    case None
    with assms CallExport show ?thesis by (simp add: resource_Export_def)
  next
    case (Some data)
    obtain e1 w1 where 1: "exporter_export (aside_context ctx) ?re data w = (e1, w1)" by (metis surj_pair)
    obtain ce self w2 where 2: "watched_reader r w1 = ((ce, self), w2)" by (metis surj_pair)
    obtain e3 w3 where 3: "exporter_export (aside_context ctx) ?re self w2 = (e3, w3)" by (metis surj_pair)
    have "w' = w2 \<or> w' = w3"
      using assms CallExport Some 1 2 3 by (auto simp: resource_Export_def reader split: if_splits)
    moreover have "in_line w w2"
      using exporter_export_in_line [OF 1] collect_in_line [OF 2] by (rule in_line_trans)
    moreover from this exporter_export_in_line [OF 3] have "in_line w w3" by (rule in_line_trans)
    ultimately show ?thesis by auto
  qed
next
  case CallForceFlush
  obtain x answers reported where w: "w = (x, answers, reported)" by (metis surj_pair)
  obtain err1 x1 where a: "exp_ForceFlush e x = (err1, x1)" by force
  show ?thesis
    using assms unfolding CallForceFlush
    by (cases err1)
       (auto simp: resource_ForceFlush_def watched_simps w a in_line_def)
next
  case CallShutdown
  obtain x answers reported where w: "w = (x, answers, reported)" by (metis surj_pair)
  obtain err1 x1 where a: "exp_Shutdown e x = (err1, x1)" by force
  show ?thesis
    using assms unfolding CallShutdown
    by (cases err1)
       (auto simp: resource_Shutdown_def watched_simps w a in_line_def)
qed

lemma exporter_calls_in_line:
  "exporter_calls (aside_context ctx) (watched_resource_exporter ctx e r) cs w = (errs, w') \<Longrightarrow> in_line w w'"
proof (induction cs arbitrary: w errs)
  case (Cons c cs)
  obtain err1 w1 where 1: "call_exporter (aside_context ctx) (watched_resource_exporter ctx e r) c w = (err1, w1)" by (metis surj_pair)
  with Cons obtain errs2 where
    "exporter_calls (aside_context ctx) (watched_resource_exporter ctx e r) cs w1 = (errs2, w')"
    by (auto split: prod.splits)
  from call_exporter_in_line [OF 1] Cons.IH [OF this] show ?case by (rule in_line_trans)
qed simp

end
