(* ===== verification/Otlp.thy ===== *)
theory Otlp
  imports Config "HOL-Library.Signed_Division"
begin

text \<open>
  \<open>internal/telemetry/exporter.go\<close>: how the OTLP transport is set up.  The transport is not part
  of the repository: its constructor is a parameter that refuses the options or not, and what the
  code settles is the options; the aggregation is the default of the SDK.
\<close>

definition MaxOTLPRequestBytes :: int where "MaxOTLPRequestBytes = 1 * 1024 * 1024"

datatype otlp_compression = NoCompression | GzipCompression
datatype otlp_temporality = CumulativeTemporality | DeltaTemporality

text \<open>The proxy a request is sent through; \<open>None\<close> sends it directly.\<close>

type_synonym proxy = "bytes \<Rightarrow> error + parsed_url option"

record retry_config =
  RetryEnabled :: bool
  InitialInterval :: int
  MaxInterval :: int
  MaxElapsedTime :: int

record otlp_options =
  opt_EndpointURL :: bytes
  opt_Insecure :: bool
  opt_Headers :: "(bytes \<times> bytes) list"
  opt_Compression :: otlp_compression
  opt_Proxy :: proxy
  opt_Timeout :: int
  opt_Retry :: retry_config
  opt_Temporality :: otlp_temporality
  opt_MaxRequestSize :: int

definition directProxy :: proxy where
  "directProxy request = Inr None"

definition minDuration :: "int \<Rightarrow> int \<Rightarrow> int" where
  "minDuration left right = (if left < right then left else right)"

text \<open>The retry intervals: a quarter of the timeout up to a second, and half of it up to five.\<close>

definition retryInitial :: "config \<Rightarrow> int" where
  "retryInitial settings =
     (let initial = minDuration second (ExportTimeout settings sdiv 4)
      in if initial \<le> 0 then 1 else initial)"

definition retryMaximum :: "config \<Rightarrow> int" where
  "retryMaximum settings =
     (let maximum = minDuration (5 * second) (ExportTimeout settings sdiv 2)
      in if maximum < retryInitial settings then retryInitial settings else maximum)"

definition otlp_settings :: "config \<Rightarrow> otlp_options" where
  "otlp_settings settings =
     \<lparr>opt_EndpointURL = OTLPEndpoint settings, opt_Insecure = True, opt_Headers = [],
      opt_Compression = NoCompression, opt_Proxy = directProxy, opt_Timeout = ExportTimeout settings,
      opt_Retry = \<lparr>RetryEnabled = True, InitialInterval = retryInitial settings,
        MaxInterval = retryMaximum settings, MaxElapsedTime = ExportTimeout settings\<rparr>,
      opt_Temporality = CumulativeTemporality, opt_MaxRequestSize = MaxOTLPRequestBytes\<rparr>"

definition NewOTLPHTTPExporter ::
    "(otlp_options \<Rightarrow> error option) \<Rightarrow> bool \<Rightarrow> config \<Rightarrow> error + otlp_options" where
  "NewOTLPHTTPExporter new has_ctx settings =
     (if \<not> has_ctx then Inl (Text ''exporter context is required'')
      else (case Validate settings of
              Some e \<Rightarrow> Inl e
            | None \<Rightarrow>
                (case new (otlp_settings settings) of
                   Some e \<Rightarrow> Inl (Wrap ''create OTLP HTTP exporter'' [e])
                 | None \<Rightarrow> Inr (otlp_settings settings))))"

lemma retry_bounds:
  assumes "0 < ExportTimeout settings"
  shows "0 < retryInitial settings" "retryInitial settings \<le> retryMaximum settings"
    "retryMaximum settings \<le> ExportTimeout settings" "retryInitial settings \<le> second"
    "retryMaximum settings \<le> 5 * second"
proof -
  have d: "ExportTimeout settings sdiv 4 = ExportTimeout settings div 4"
    "ExportTimeout settings sdiv 2 = ExportTimeout settings div 2"
    using assms by (simp_all add: signed_divide_int_def sgn_if)
  show "0 < retryInitial settings" "retryInitial settings \<le> retryMaximum settings"
    "retryMaximum settings \<le> ExportTimeout settings" "retryInitial settings \<le> second"
    "retryMaximum settings \<le> 5 * second"
    using assms by (auto simp: retryInitial_def retryMaximum_def minDuration_def d second_def Let_def)
qed

end
