(* ===== verification/Telemetry.thy ===== *)
theory Telemetry
  imports Session Pipeline Process_Recorder Resource Export Otlp
begin

text \<open>
  \<open>internal/telemetry/source_events.go\<close> and \<open>pipeline.go\<close>: what becomes of source events, and the
  life of the pipeline between the processor and the SDK.  The SDK is a parameter: which options,
  instruments and callbacks it accepts and what it answers when it is flushed and shut down.  The
  parts of it that are running are followed by the events of starting and stopping them.  A
  pipeline's recorders are those of its sink, which the observer changes.  \<open>newResourceExporter\<close>
  is given a transport and a reader, so its errors do not occur here.
\<close>

section \<open>Source events\<close>

definition selfDiscontinuityReason :: "source_discontinuity option \<Rightarrow> discontinuity_reason option" where
  "selfDiscontinuityReason reason =
     (case reason of
        Some SourceDiscontinuityGenerationMissing \<Rightarrow> Some DiscontinuityGenerationMissing
      | Some SourceDiscontinuityGenerationTruncated \<Rightarrow> Some DiscontinuityGenerationTruncated
      | Some SourceDiscontinuityOversizeRecord \<Rightarrow> Some DiscontinuityOversizeRecord
      | Some SourceDiscontinuityStaleGeneration \<Rightarrow> Some DiscontinuityStaleGeneration
      | Some SourceDiscontinuityUncleanClose \<Rightarrow> Some DiscontinuityUncleanClose
      | None \<Rightarrow> None)"

text \<open>
  The points an event adds; there is no self recorder when the pipeline is nil or has none.  The
  zero reason is one the code does not know.
\<close>

definition source_event_points :: "self_recorder option \<Rightarrow> source_event \<Rightarrow> int point list" where
  "source_event_points self event =
     (if self = None \<or> Count event = 0 then []
      else (case source_event.Kind event of
              SourceEventRotations \<Rightarrow> RecordRotations (int (Count event)) self
            | SourceEventDiscontinuity \<Rightarrow>
                (case selfDiscontinuityReason (Reason event) of
                   None \<Rightarrow> []
                 | Some reason \<Rightarrow> concat (replicate (Count event) (RecordDiscontinuity reason self)))))"

definition RecordSourceEvent :: "source_event \<Rightarrow> pipeline_sink \<Rightarrow> pipeline_sink" where
  "RecordSourceEvent event w =
     w\<lparr>sink_self_points := sink_self_points w @ source_event_points (Some (sink_self w)) event\<rparr>"

section \<open>The parts of the SDK\<close>

datatype sdk_part = Transport | SelfProvider | MetricProvider | GaugeCallback | ProcessCallback

datatype sdk_event = Started sdk_part | Halted sdk_part | Flushed

text \<open>
  Shutting down a meter provider shuts down its reader and, through the resource exporter, the
  transport, which belongs to the provider of the monitored process once there is one.
\<close>

fun stops :: "sdk_part \<Rightarrow> sdk_part set" where
  "stops MetricProvider = {MetricProvider, Transport}"
| "stops p = {p}"

fun running :: "sdk_part set \<Rightarrow> sdk_event list \<Rightarrow> sdk_part set" where
  "running ps [] = ps"
| "running ps (Started p # es) = running (insert p ps) es"
| "running ps (Halted p # es) = running (ps - stops p) es"
| "running ps (Flushed # es) = running ps es"

record sdk_answers =
  sdk_transport :: "otlp_options \<Rightarrow> error option"
  sdk_selfMeter :: meter
  sdk_meter :: meter
  sdk_gauges :: "error option"
  sdk_process :: "error option"
  sdk_now :: go_time

section \<open>The pipeline\<close>

record pipeline =
  pl_process :: process_recorder
  pl_epoch :: go_time
  pl_closed :: bool

definition fresh_sink :: "otel_recorder \<Rightarrow> self_recorder \<Rightarrow> int point list \<Rightarrow> pipeline_sink" where
  "fresh_sink rec self points =
     \<lparr>sink_recorder = rec, sink_self = self, sink_points = [], sink_self_points = points\<rparr>"

text \<open>Closing a recorder unregisters its callback; the answers are ignored when the constructor fails.\<close>

definition close_gauges :: "otel_recorder \<Rightarrow> sdk_event list" where
  "close_gauges rec = (if registered rec then [Halted GaugeCallback] else [])"

definition close_process :: "process_recorder \<Rightarrow> sdk_event list" where
  "close_process rec = (if pr_registered rec then [Halted ProcessCallback] else [])"

definition NewPipeline ::
    "sdk_answers \<Rightarrow> bool \<Rightarrow> config \<Rightarrow> process_identity \<Rightarrow> pipeline_sink processor option \<Rightarrow> string
      \<Rightarrow> (error + pipeline \<times> pipeline_sink) \<times> pipeline_sink processor option \<times> sdk_event list" where
  "NewPipeline sdk has_ctx settings identity processor version =
     (if \<not> has_ctx then (Inl (Text ''pipeline context is required''), processor, [])
      else (case processor of
        None \<Rightarrow> (Inl (Text ''metric processor is required''), processor, [])
      | Some p \<Rightarrow>
          if version = [] then (Inl (Text ''instrumentation version is required''), processor, [])
          else (case NewBlobFuseResource identity of
            Inl e \<Rightarrow> (Inl e, processor, [])
          | Inr target \<Rightarrow>
              (case NewOTLPHTTPExporter (sdk_transport sdk) True settings of
                Inl e \<Rightarrow> (Inl e, processor, [])
              | Inr transport \<Rightarrow>
                  (let evs = [Started Transport, Started SelfProvider]
                   in case NewSelfRecorder (Some (sdk_selfMeter sdk)) of
                        Inl e \<Rightarrow> (Inl e, processor, evs @ [Halted SelfProvider, Halted Transport])
                      | Inr self \<Rightarrow>
                          (let points = RecordProcessingStats (processor_Stats p) (Some self);
                               evs1 = evs @ [Started MetricProvider]
                           in case NewOTelRecorder (Some (sdk_meter sdk)) (processor_State processor) (sdk_gauges sdk) of
                                Inl e \<Rightarrow> (Inl e, processor, evs1 @ [Halted MetricProvider, Halted SelfProvider])
                              | Inr rec \<Rightarrow>
                                  (let evs2 = evs1 @ [Started GaugeCallback]
                                   in case NewProcessRecorder (Some (sdk_meter sdk)) identity (sdk_process sdk) of
                                        Inl e \<Rightarrow> (Inl e, processor,
                                          evs2 @ close_gauges rec @ [Halted MetricProvider, Halted SelfProvider])
                                      | Inr process \<Rightarrow>
                                          (let evs3 = evs2 @ [Started ProcessCallback]
                                           in case AttachObserver (Some pipeline_observer) p of
                                                (Some e, p') \<Rightarrow> (Inl e, Some p',
                                                  evs3 @ close_process process @ close_gauges rec
                                                    @ [Halted MetricProvider, Halted SelfProvider])
                                              | (None, p') \<Rightarrow>
                                                  (Inr (\<lparr>pl_process = process, pl_epoch = sdk_now sdk, pl_closed = False\<rparr>,
                                                        fresh_sink rec self points), Some p', evs3)))))))))"

definition Epoch :: "pipeline option \<Rightarrow> go_time" where
  "Epoch pl = (case pl of None \<Rightarrow> zero_time | Some p \<Rightarrow> pl_epoch p)"

record shutdown_answers =
  sa_flush :: "error option"
  sa_recorder :: "error option"
  sa_process :: "error option"
  sa_provider :: "error option"
  sa_self :: "error option"

definition pipeline_ForceFlush :: "error option \<Rightarrow> pipeline option \<Rightarrow> error option \<times> sdk_event list" where
  "pipeline_ForceFlush answer pl =
     (case pl of
        None \<Rightarrow> (Some (Text ''telemetry pipeline is not initialized''), [])
      | Some p \<Rightarrow> (answer, [Flushed]))"

definition pipeline_Shutdown ::
    "shutdown_answers \<Rightarrow> pipeline_sink \<Rightarrow> pipeline option \<Rightarrow> error option \<times> pipeline option \<times> sdk_event list" where
  "pipeline_Shutdown a w pl =
     (case pl of
        None \<Rightarrow> (None, None, [])
      | Some p \<Rightarrow>
          if pl_closed p then (None, Some p, [])
          else (errors_join [sa_flush a, otel_Close (sa_recorder a) (Some (sink_recorder w)),
                   process_Close (sa_process a) (Some (pl_process p)), sa_provider a, sa_self a],
                Some (p\<lparr>pl_closed := True\<rparr>),
                [Flushed] @ close_gauges (sink_recorder w) @ close_process (pl_process p)
                  @ [Halted MetricProvider, Halted SelfProvider]))"

end
