(* ===== verification/Telemetry_Properties.thy ===== *)
theory Telemetry_Properties
  imports Telemetry Identity_Properties Config_Properties
begin

text \<open>
  The properties of the exporters, the resource and the pipeline.
\<close>

section \<open>Export errors\<close>

text \<open>The calls that went well saw no failing answer.\<close>

definition unfailed :: "(exporter_answer \<times> error option \<times> error option) list \<Rightarrow> bool" where
  "unfailed as \<longleftrightarrow> list_all (\<lambda>(kind, e, ctx_err). e = None) as"

definition quietly :: "'x watched \<Rightarrow> 'x watched \<Rightarrow> bool" where
  "quietly w w' \<longleftrightarrow> (\<exists>as. fst (snd w') = fst (snd w) @ as \<and> unfailed as)"

lemma quietly_trans: "quietly w w1 \<Longrightarrow> quietly w1 w2 \<Longrightarrow> quietly w w2"
  by (force simp: quietly_def unfailed_def)

lemma exporter_export_quiet:
  assumes "exporter_export (aside_context ctx) (watched_resource_exporter ctx e r) data w = (None, w')"
  shows "quietly w w'"
proof -
  obtain x answers reported where w: "w = (x, answers, reported)" by (metis surj_pair)
  obtain err1 x1 where a: "exp_Export e data x = (err1, x1)" by force
  show ?thesis
    using assms
    by (cases err1) (auto simp: exporter_export_def watched_simps w a quietly_def unfailed_def)
qed

lemma call_exporter_quiet:
  assumes "call_exporter (aside_context ctx) (watched_resource_exporter ctx e r) c w = (None, w')"
  shows "quietly w w'"
proof (cases c)
  case (CallExport target)
  let ?re = "watched_resource_exporter ctx e r"
  have reader: "re_selfReader ?re = watched_reader r" by (simp add: watched_resource_exporter_def)
  obtain data where t: "target = Some data"
    using assms CallExport by (cases target) (auto simp: resource_Export_def)
  obtain e1 w1 where 1: "exporter_export (aside_context ctx) ?re data w = (e1, w1)" by (metis surj_pair)
  obtain ce self w2 where 2: "watched_reader r w1 = ((ce, self), w2)" by (metis surj_pair)
  obtain e3 w3 where 3: "exporter_export (aside_context ctx) ?re self w2 = (e3, w3)" by (metis surj_pair)
  have ends: "e1 = None \<and> (w' = w2 \<or> e3 = None \<and> w' = w3)"
    using assms CallExport t 1 2 3 by (auto simp: resource_Export_def reader split: if_splits)
  have "quietly w1 w2"
    using 2 by (auto simp: watched_reader_def quietly_def unfailed_def split: prod.splits)
  with ends exporter_export_quiet [of ctx e r data w w1] 1 have "quietly w w2"
    by (auto intro: quietly_trans)
  with ends exporter_export_quiet [of ctx e r self w2 w3] 3 show ?thesis
    by (auto intro: quietly_trans)
next
  case CallForceFlush
  obtain x answers reported where "w = (x, answers, reported)" by (metis surj_pair)
  with assms show ?thesis unfolding CallForceFlush
    by (auto simp: resource_ForceFlush_def watched_simps quietly_def unfailed_def split: prod.splits)
next
  case CallShutdown
  obtain x answers reported where "w = (x, answers, reported)" by (metis surj_pair)
  with assms show ?thesis unfolding CallShutdown
    by (auto simp: resource_Shutdown_def watched_simps quietly_def unfailed_def split: prod.splits)
qed

lemma exporter_calls_quiet:
  "exporter_calls (aside_context ctx) (watched_resource_exporter ctx e r) cs w = (errs, w') \<Longrightarrow>
     list_all (\<lambda>e. e = None) errs \<Longrightarrow> quietly w w'"
proof (induction cs arbitrary: w errs)
  case Nil
  then show ?case by (simp add: quietly_def unfailed_def)
next
  case (Cons c cs)
  obtain err1 w1 where 1: "call_exporter (aside_context ctx) (watched_resource_exporter ctx e r) c w = (err1, w1)"
    by (metis surj_pair)
  obtain errs2 where 2: "errs = err1 # errs2"
    "exporter_calls (aside_context ctx) (watched_resource_exporter ctx e r) cs w1 = (errs2, w')"
    using Cons.prems(1) 1 by (auto split: prod.splits)
  from call_exporter_quiet [of ctx e r c w w1] 1 2(1) Cons.prems(2) have "quietly w w1" by simp
  with Cons.IH [OF 2(2)] 2(1) Cons.prems(2) show ?case by (auto intro: quietly_trans)
qed

lemma unfailed_reported: "unfailed as \<Longrightarrow> reported_for as = []"
  by (induction "as" rule: reported_for.induct) (auto simp: unfailed_def)

text \<open>
  C37. Over any exports, flushes and shutdowns, whatever the transport, the self-metric reader and
  the context answer, every failure of the transport is reported exactly once and in order, as a
  timeout when it or its context ran out of time, as a shutdown error when it was shut down, and as
  a transport error otherwise; and when no call returns an error there was no failure.
\<close>

theorem every_export_failure_is_reported:
  assumes "exporter_calls (aside_context ctx) (watched_resource_exporter ctx e r) cs (x, [], [])
    = (errs, (x', answers, reported))"
  shows "reported = reported_for answers
    \<and> length reported = length (filter (\<lambda>(kind, err, ctx_err). err \<noteq> None) answers)
    \<and> (list_all (\<lambda>err. err = None) errs \<longrightarrow> reported = [])"
proof -
  have 1: "reported = reported_for answers"
    using exporter_calls_in_line [OF assms] by (simp add: in_line_def)
  have "length (reported_for as) = length (filter (\<lambda>(kind, err, ctx_err). err \<noteq> None) as)" for as
    by (induction "as" rule: reported_for.induct) simp_all
  moreover have "reported_for answers = []" if "list_all (\<lambda>err. err = None) errs"
    using exporter_calls_quiet [OF assms that] by (simp add: quietly_def unfailed_reported)
  ultimately show ?thesis unfolding 1 by blast
qed

text \<open>A transport that fails its first export by a timeout, and a reader with data.\<close>

definition flaky :: "(nat, nat) metric_exporter" where
  "flaky = \<lparr>exp_Export = (\<lambda>data n. (if n = 0 then Some (Sentinel Context_DeadlineExceeded) else None, Suc n)),
     exp_ForceFlush = (\<lambda>n. (Some (Text ''flush''), n)), exp_Shutdown = (\<lambda>n. (Some (Text ''stop''), n))\<rparr>"

lemma flaky_run:
  "exporter_calls (aside_context (\<lambda>n. None))
       (watched_resource_exporter (\<lambda>n. None) flaky (\<lambda>n. ((None, \<lparr>ScopeMetrics = [[7]]\<rparr>), n)))
       [CallExport (Some \<lparr>ScopeMetrics = [[3]]\<rparr>), CallForceFlush, CallShutdown] (0, [], [])
     = ([Some (Wrap [] [Sentinel Context_DeadlineExceeded]), Some (Text ''flush''), Some (Text ''stop'')],
        (2, [(AnswerExport, Some (Sentinel Context_DeadlineExceeded), None), (AnswerExport, None, None),
             (AnswerFlush, Some (Text ''flush''), None), (AnswerShutdown, Some (Text ''stop''), None)],
         [ExportErrorTimeout, ExportErrorTransport, ExportErrorShutdown]))"
  by (simp add: resource_Export_def exporter_export_def resource_ForceFlush_def resource_Shutdown_def
      watched_simps watched_reader_def flaky_def hasMetricData_def errors_join_def)

theorem every_export_failure_is_reported_witness:
  "\<exists>errs answers reported.
     exporter_calls (aside_context (\<lambda>n. None))
       (watched_resource_exporter (\<lambda>n. None) flaky (\<lambda>n. ((None, \<lparr>ScopeMetrics = [[7]]\<rparr>), n)))
       [CallExport (Some \<lparr>ScopeMetrics = [[3]]\<rparr>), CallForceFlush, CallShutdown] (0, [], [])
       = (errs, (2, answers, reported))
     \<and> reported = [ExportErrorTimeout, ExportErrorTransport, ExportErrorShutdown]
     \<and> length (filter (\<lambda>(kind, err, ctx_err). err \<noteq> None) answers) = 3"
proof -
  from every_export_failure_is_reported [OF flaky_run]
  have "length (filter (\<lambda>(kind, err, ctx_err). err \<noteq> None)
     [(AnswerExport, Some (Sentinel Context_DeadlineExceeded), None), (AnswerExport, None, None),
      (AnswerFlush, Some (Text ''flush''), None), (AnswerShutdown, Some (Text ''stop''), None)]) = 3"
    by (elim conjE) (simp only: length_Cons, simp)
  then show ?thesis
    by - (rule exI, rule exI, rule exI, rule conjI, rule flaky_run, intro conjI refl, assumption)
qed

section \<open>The transport\<close>

text \<open>
  C40. The transport of a valid configuration tries again at intervals that start positive, never
  shrink below the first and never exceed five seconds or the export timeout, which bounds them
  all and is shorter than the export interval; it goes to the configured local endpoint directly,
  through no proxy, with no headers and a bounded request size.
\<close>

theorem retries_fit_the_export_timeout:
  assumes "NewOTLPHTTPExporter new has_ctx settings = Inr opts"
  shows "0 < InitialInterval (opt_Retry opts)
    \<and> InitialInterval (opt_Retry opts) \<le> MaxInterval (opt_Retry opts)
    \<and> MaxInterval (opt_Retry opts) \<le> 5 * second
    \<and> MaxInterval (opt_Retry opts) \<le> MaxElapsedTime (opt_Retry opts)
    \<and> MaxElapsedTime (opt_Retry opts) = opt_Timeout opts \<and> opt_Timeout opts < ExportInterval settings
    \<and> (\<exists>u. ParseOTLPEndpoint (opt_EndpointURL opts) = Inr u \<and> isLoopbackHost (Hostname u))
    \<and> (\<forall>request. opt_Proxy opts request = Inr None) \<and> opt_Headers opts = []
    \<and> opt_MaxRequestSize opts = 2 ^ 20"
proof -
  have v: "Validate settings = None" and o: "opts = otlp_settings settings"
    using assms by (auto simp: NewOTLPHTTPExporter_def split: if_splits option.splits)
  have "0 < ExportTimeout settings" "ExportTimeout settings < ExportInterval settings"
    "\<exists>u. ParseOTLPEndpoint (OTLPEndpoint settings) = Inr u"
    using v by (auto simp: Validate_None durations_def)
  moreover have "isLoopbackHost (Hostname u)" if "ParseOTLPEndpoint v = Inr u" for v u
    using that by (auto simp: ParseOTLPEndpoint_def split: option.splits if_splits)
  ultimately show ?thesis
    using retry_bounds [of settings]
    by (auto simp: o otlp_settings_def directProxy_def MaxOTLPRequestBytes_def)
qed

theorem retries_fit_the_export_timeout_witness:
  "\<exists>opts. NewOTLPHTTPExporter (\<lambda>x. None) True (Default\<lparr>ReportDirectory := ''/var/run'', cfg_PID := 9\<rparr>) = Inr opts
     \<and> InitialInterval (opt_Retry opts) \<le> MaxInterval (opt_Retry opts)"
proof -
  have "NewOTLPHTTPExporter (\<lambda>x. None) True (Default\<lparr>ReportDirectory := ''/var/run'', cfg_PID := 9\<rparr>)
    = Inr (otlp_settings (Default\<lparr>ReportDirectory := ''/var/run'', cfg_PID := 9\<rparr>))"
    by (simp add: NewOTLPHTTPExporter_def sample_config_valid)
  from this retries_fit_the_export_timeout [OF this] show ?thesis by blast
qed

section \<open>The resource\<close>

text \<open>
  C39. The metrics of the monitored process are exported under a resource of exactly five
  attributes: the service, the 64-digit instance ID, the PID, and a creation time from whose text
  the exact creation time is read back, to the nanosecond, for every time up to the year 9999.
\<close>

theorem resources_name_the_session:
  assumes "NewBlobFuseResource i = Inr attributes" and "printable (CreationTime i)"
  shows "\<exists>created. attributes = [ServiceName ''blobfuse2'', ServiceInstanceID (InstanceID i), ProcessPID (PID i),
      ProcessCreationTime created, StringAttribute ''azure.blobfuse.monitor.source'' ''bfusemon_json'']
    \<and> ParseRFC3339 created = Some (CreationTime i) \<and> length (InstanceID i) = 64
    \<and> 0 < PID i \<and> StartTicks i \<noteq> 0 \<and> BootID i \<noteq> []"
  using assms printable_parses [OF assms(2)]
  by (auto simp: NewBlobFuseResource_def MonitorSourceAttribute_def InstanceID_def length_sha256 split: if_splits)

definition created_identity :: process_identity where
  "created_identity = sample_identity\<lparr>CreationTime := (1709210096, 120000000)\<rparr>"

theorem resources_name_the_session_witness:
  "\<exists>attributes. NewBlobFuseResource created_identity = Inr attributes \<and> length attributes = 5
     \<and> (\<exists>created. ProcessCreationTime created \<in> set attributes \<and> ParseRFC3339 created = Some (1709210096, 120000000))"
proof -
  have "printable (CreationTime created_identity)" by (simp add: printable_def created_identity_def)
  moreover obtain attributes where a: "NewBlobFuseResource created_identity = Inr attributes"
    by (simp add: NewBlobFuseResource_def created_identity_def sample_identity_def IsZero_def zero_time_def
        unixToInternal_def)
  ultimately show ?thesis
    using resources_name_the_session [OF a] by (force simp: created_identity_def)
qed

section \<open>The life of the pipeline\<close>

definition all_started :: "sdk_event list" where
  "all_started = map Started [Transport, SelfProvider, MetricProvider, GaugeCallback, ProcessCallback]"

text \<open>What a pipeline that was created is made of.\<close>

lemma NewPipeline_created:
  assumes "NewPipeline sdk has_ctx settings i processor version = (Inr (pl, w), processor', evs)"
  obtains p self rec where "processor = Some p" "proc_observer p = None"
    "processor' = Some (p\<lparr>proc_observer := Some pipeline_observer\<rparr>)"
    "NewSelfRecorder (Some (sdk_selfMeter sdk)) = Inr self"
    "NewOTelRecorder (Some (sdk_meter sdk)) (Some (proc_state p)) (sdk_gauges sdk) = Inr rec"
    "w = fresh_sink rec self (RecordProcessingStats (stats p) (Some self))"
    "pr_registered (pl_process pl)" "\<not> pl_closed pl" "evs = all_started" "Validate settings = None"
  using assms
  by (auto simp: NewPipeline_def NewOTLPHTTPExporter_def AttachObserver_def processor_State_def processor_Stats_def
      NewProcessRecorder_def newProcessRecorder_def all_started_def Let_def
      split: if_splits option.splits sum.splits)

lemma NewPipeline_failed:
  assumes "NewPipeline sdk has_ctx settings i processor version = (Inl e, processor', evs)"
  shows "running {} evs = {} \<and> processor' = processor"
  using assms
  by (auto simp: NewPipeline_def AttachObserver_def close_gauges_def close_process_def Let_def
      NewProcessRecorder_def newProcessRecorder_def
      split: if_splits option.splits sum.splits dest: NewOTelRecorder_ok)

lemma running_append [simp]: "running ps (es @ fs) = running (running ps es) fs"
  by (induction ps es rule: running.induct) simp_all

lemma running_all_started: "running {} all_started = UNIV"
proof -
  have "p \<in> running {} all_started" for p by (cases p) (simp_all add: all_started_def)
  then show ?thesis by blast
qed

text \<open>
  C38. A pipeline that cannot be created leaves nothing of the SDK running and the processor as it
  was; one that was created has its transport, its two providers and its two callbacks running,
  and shutting it down stops all of them, flushing once while the callbacks are still registered,
  and returns an error exactly if one of the steps did; every later shutdown does nothing.
\<close>

theorem pipelines_stop_what_they_start:
  assumes "NewPipeline sdk has_ctx settings i processor version = (r, processor', evs)"
    and "\<And>pl w. r = Inr (pl, w) \<Longrightarrow> registered (sink_recorder w1)
      \<and> pipeline_Shutdown a w1 (Some pl) = (err, stopped, evs')"
  shows "case r of Inl e \<Rightarrow> running {} evs = {} \<and> processor' = processor
    | Inr (pl, w) \<Rightarrow> running {} evs = UNIV \<and> running {} (evs @ evs') = {} \<and> registered (sink_recorder w)
        \<and> (\<exists>rest. evs' = Flushed # rest \<and> Flushed \<notin> set rest)
        \<and> (err = None \<longleftrightarrow> list_all (\<lambda>x. x = None) [sa_flush a, sa_recorder a, sa_process a, sa_provider a, sa_self a])
        \<and> pipeline_Shutdown a2 w2 stopped = (None, stopped, [])"
proof (cases r)
  case (Inl e)
  with NewPipeline_failed assms(1) show ?thesis by auto
next
  case (Inr plw)
  obtain pl w where plw: "plw = (pl, w)" by force
  with Inr assms have "NewPipeline sdk has_ctx settings i processor version = (Inr (pl, w), processor', evs)"
    and sh: "pipeline_Shutdown a w1 (Some pl) = (err, stopped, evs')" "registered (sink_recorder w1)" by auto
  from this(1) obtain p self rec where "processor = Some p"
    "NewOTelRecorder (Some (sdk_meter sdk)) (Some (proc_state p)) (sdk_gauges sdk) = Inr rec"
    "w = fresh_sink rec self (RecordProcessingStats (stats p) (Some self))"
    and pl: "pr_registered (pl_process pl)" "\<not> pl_closed pl" "evs = all_started"
    by (rule NewPipeline_created) blast
  then have "registered (sink_recorder w)" using NewOTelRecorder_ok by (auto simp: fresh_sink_def)
  moreover have evs': "evs' = [Flushed, Halted GaugeCallback, Halted ProcessCallback, Halted MetricProvider, Halted SelfProvider]"
    "stopped = Some (pl\<lparr>pl_closed := True\<rparr>)"
    "err = errors_join [sa_flush a, sa_recorder a, sa_process a, sa_provider a, sa_self a]"
    using sh pl by (simp_all add: pipeline_Shutdown_def close_gauges_def close_process_def otel_Close_def
        process_Close_def)
  moreover have "running {} (evs @ evs') = {}"
  proof -
    have "UNIV - {GaugeCallback} - {ProcessCallback} - {MetricProvider, Transport} - {SelfProvider} = {}"
      using sdk_part.exhaust by blast
    then show ?thesis by (simp add: pl(3) running_all_started evs'(1))
  qed
  ultimately show ?thesis
    by (simp add: Inr plw pl(3) running_all_started pipeline_Shutdown_def)
qed

text \<open>An SDK that accepts everything but perhaps the callback of the process metrics.\<close>

definition sample_sdk :: "error option \<Rightarrow> sdk_answers" where
  "sample_sdk refusal = \<lparr>sdk_transport = (\<lambda>opts. None), sdk_selfMeter = (\<lambda>d. None), sdk_meter = (\<lambda>d. None),
     sdk_gauges = None, sdk_process = refusal, sdk_now = (1709210100, 0)\<rparr>"

definition sample_settings :: config where
  "sample_settings = Default\<lparr>ReportDirectory := ''/var/run'', cfg_PID := 9\<rparr>"

lemma recorder_accepting: "\<exists>rec. NewOTelRecorder (Some (\<lambda>d. None)) (Some st) None = Inr rec"
  by (simp add: NewOTelRecorder_def representativeSeries_def add_instrument_def DescribeSeries_def
      descriptorWithoutAttributes_def zero_series_def empty_recorder_def)

lemma self_accepting: "\<exists>self. NewSelfRecorder (Some (\<lambda>d. None)) = Inr self"
  by (simp add: NewSelfRecorder_def self_instruments_def)

definition complete_identity :: "process_identity \<Rightarrow> bool" where
  "complete_identity i \<longleftrightarrow> BootID i \<noteq> [] \<and> 0 < PID i \<and> StartTicks i \<noteq> 0 \<and> \<not> IsZero (CreationTime i)"

lemma sample_pipeline:
  assumes "proc_observer p = None" "complete_identity i"
  shows "\<exists>r evs. NewPipeline (sample_sdk refusal) True sample_settings i (Some p) ''dev''
    = (r, (if refusal = None then Some (p\<lparr>proc_observer := Some pipeline_observer\<rparr>) else Some p), evs)
    \<and> (if refusal = None then \<exists>plw. r = Inr plw else \<exists>e. r = Inl e)"
proof -
  obtain rec where rec: "NewOTelRecorder (Some (\<lambda>d. None)) (Some (proc_state p)) None = Inr rec"
    using recorder_accepting by blast
  obtain self where self: "NewSelfRecorder (Some (\<lambda>d. None)) = Inr self" using self_accepting by blast
  have v: "Validate sample_settings = None" using sample_config_valid by (simp add: sample_settings_def)
  obtain target where "NewBlobFuseResource i = Inr target"
    using assms(2) by (simp add: NewBlobFuseResource_def complete_identity_def)
  moreover have "\<not> PID i \<le> 0" "StartTicks i \<noteq> 0" using assms(2) by (simp_all add: complete_identity_def)
  moreover have "first_refusal (\<lambda>d. None) process_instruments = None" by (simp add: process_instruments_def)
  ultimately show ?thesis
    using assms(1) rec self v
    by (cases refusal)
       (simp_all add: NewPipeline_def sample_sdk_def NewOTLPHTTPExporter_def AttachObserver_def processor_State_def
         NewProcessRecorder_def newProcessRecorder_def Let_def)
qed

lemma created_complete: "complete_identity created_identity"
  by (simp add: complete_identity_def created_identity_def sample_identity_def IsZero_def zero_time_def unixToInternal_def)

theorem pipelines_stop_what_they_start_witness:
  "\<exists>(p :: pipeline_sink processor) e evs pl w p' evs1 stopped evs2.
     NewPipeline (sample_sdk (Some (Text ''no''))) True sample_settings created_identity (Some p) ''dev'' = (Inl e, Some p, evs)
     \<and> running {} evs = {}
     \<and> NewPipeline (sample_sdk None) True sample_settings created_identity (Some p) ''dev'' = (Inr (pl, w), p', evs1)
     \<and> pipeline_Shutdown \<lparr>sa_flush = None, sa_recorder = None, sa_process = None, sa_provider = None, sa_self = None\<rparr> w (Some pl)
         = (None, stopped, evs2)
     \<and> running {} (evs1 @ evs2) = {}"
proof -
  define p :: "pipeline_sink processor" where "p = \<lparr>proc_state = NewState, proc_observer = None, stats = zero_stats\<rparr>"
  have none: "proc_observer p = None" by (simp add: p_def)
  define a :: shutdown_answers
    where "a = \<lparr>sa_flush = None, sa_recorder = None, sa_process = None, sa_provider = None, sa_self = None\<rparr>"
  obtain e evs where 1: "NewPipeline (sample_sdk (Some (Text ''no''))) True sample_settings created_identity (Some p) ''dev''
      = (Inl e, Some p, evs)"
    using sample_pipeline [OF none created_complete, of "Some (Text ''no'')"] by auto
  obtain pl w p' evs1 where 2: "NewPipeline (sample_sdk None) True sample_settings created_identity (Some p) ''dev''
      = (Inr (pl, w), p', evs1)"
    using sample_pipeline [OF none created_complete, of None] by auto
  obtain err stopped evs2 where 3: "pipeline_Shutdown a w (Some pl) = (err, stopped, evs2)" by (metis surj_pair)
  have "registered (sink_recorder w)"
    using NewPipeline_created [OF 2] NewOTelRecorder_ok by (metis fresh_sink_def pipeline_sink.select_convs(1))
  with 3 pipelines_stop_what_they_start [OF 2, of w a err stopped evs2 a w] have
    "running {} (evs1 @ evs2) = {}" "err = None" by (auto simp: a_def simp del: running_append)
  moreover have "running {} evs = {}"
    using pipelines_stop_what_they_start [OF 1] by auto
  ultimately show ?thesis using 1 2 3 unfolding a_def by blast
qed

end
