(* ===== verification/Session_Export.thy ===== *)
theory Session_Export
  imports Telemetry_Properties Session_Properties Metrics_Properties
begin

text \<open>
  The whole path from the bytes of the reports to the points handed to the SDK: the session's
  handler is the processor's, its observer the pipeline's, as \<open>app.Run\<close> connects them
  (\<open>processor.Handler()\<close>, \<open>session.AttachObserver(pipeline.RecordSourceEvent)\<close>).
\<close>

type_synonym exporter_world = "pipeline_sink processor \<times> pipeline_sink"

definition Handler :: "exporter_world record_handler" where
  "Handler mode r w = Process mode r w"

definition tells_pipeline :: "exporter_world source_observer" where
  "tells_pipeline event w = (fst w, RecordSourceEvent event (snd w))"

section \<open>The metric state a session leaves\<close>

text \<open>What one accepted record makes of the metric state; the observer leaves it alone.\<close>

definition apply_record :: "record_mode \<Rightarrow> source_record \<Rightarrow> metric_state \<Rightarrow> metric_state" where
  "apply_record mode r st = (case NormalizeRecord r of Inl e \<Rightarrow> st | Inr n \<Rightarrow> fst (Apply mode n st))"

lemma Process_state:
  "Process mode r w = (e, w') \<Longrightarrow>
     proc_state (fst w') = (if e = None then apply_record mode r (proc_state (fst w)) else proc_state (fst w))"
  by (auto simp: Process_def apply_record_def Let_def split: prod.splits sum.splits)

interpretation observed: session_sink Handler "Some tells_pipeline" "\<lambda>w. proc_state (fst w)" apply_record "\<lambda>ev st. st"
  by unfold_locales (auto simp: Handler_def tells_pipeline_def dest: Process_state)

interpretation unobserved: session_sink Handler None "\<lambda>w. proc_state (fst w)" apply_record "\<lambda>ev st. st"
  by unfold_locales (auto simp: Handler_def dest: Process_state)

definition apply_records :: "(record_mode \<times> source_record) list \<Rightarrow> metric_state \<Rightarrow> metric_state" where
  "apply_records = fold (\<lambda>(m, r). apply_record m r)"

lemma observed_state:
  "effects Handler (Some tells_pipeline) es w w' \<Longrightarrow>
     proc_state (fst w') = apply_records (applied_of es) (proc_state (fst w))"
  unfolding apply_records_def using observed.view_applied by simp

lemma unobserved_state:
  "effects Handler None es w w' \<Longrightarrow> proc_state (fst w') = apply_records (applied_of es) (proc_state (fst w))"
  unfolding apply_records_def using unobserved.view_applied by simp

section \<open>Before the cutover\<close>

lemma Process_refused: "Process mode r w = (Some e, w') \<Longrightarrow> Process RecordModeLive r w = (Some e, w')"
  by (auto simp: Process_def Let_def split: prod.splits sum.splits)

lemma Process_unobserved:
  assumes "Process mode r (p, w) = (e, (p', w'))" "proc_observer p = None"
  shows "proc_observer p' = None \<and> w' = w \<and> (state_bounded (proc_state p) \<longrightarrow> state_bounded (proc_state p'))"
  using baseline_run [of mode "[r]" p w p' w'] assms
  by (cases rule: Process_cases [of r mode p w]) (auto simp: notify_def)

lemma baseline_effects:
  "effects Handler None es (p, w) (p', w') \<Longrightarrow> proc_observer p = None \<Longrightarrow> state_bounded (proc_state p) \<Longrightarrow>
     proc_observer p' = None \<and> state_bounded (proc_state p') \<and> w' = w"
proof (induction es "(p, w)" "(p', w')" arbitrary: p w rule: effects.induct)
  case (effects_applied m r w1 es g)
  obtain p1 u1 where w1: "w1 = (p1, u1)" by force
  from effects_applied.hyps(1) effects_applied.prems Process_unobserved [of m r p w None p1 u1] effects_applied.hyps(3) [OF w1]
  show ?case by (auto simp: Handler_def w1)
next
  case (effects_refused m r e w1 es)
  obtain p1 u1 where w1: "w1 = (p1, u1)" by force
  from effects_refused.hyps(1) effects_refused.prems Process_unobserved [of m r p w "Some e" p1 u1] effects_refused.hyps(3) [OF w1]
  show ?case by (auto simp: Handler_def w1)
qed simp_all

section \<open>After the cutover\<close>

text \<open>The names of the self recorder's instruments.\<close>

lemma self_names:
  assumes "NewSelfRecorder m = Inr self"
  shows "sourceRecords self = ''blobfuse_health_exporter.source.records''"
    "sourceRotations self = ''blobfuse_health_exporter.source.rotations''"
    "sourceDiscontinuities self = ''blobfuse_health_exporter.source.discontinuities''"
    "sourceCounterResets self = ''blobfuse_health_exporter.source.counter_resets''"
    "exportErrors self = ''blobfuse_health_exporter.export.errors''"
  using assms by (auto simp: NewSelfRecorder_def self_instruments_def split: option.splits)

definition sink_of :: "self_recorder \<Rightarrow> pipeline_sink \<Rightarrow> bool" where
  "sink_of self w \<longleftrightarrow> sink_ok w \<and> sink_self w = self \<and> (\<exists>m. NewSelfRecorder m = Inr self)"

lemma event_point_names:
  assumes "NewSelfRecorder m = Inr self" "p \<in> set (source_event_points (Some self) ev)"
  shows "point_instrument p = ''blobfuse_health_exporter.source.rotations''
    \<or> point_instrument p = ''blobfuse_health_exporter.source.discontinuities''"
  using assms(2) self_names [OF assms(1)]
  by (auto simp: source_event_points_def RecordRotations_def RecordDiscontinuity_def
      split: source_event_kind.splits option.splits if_splits)

lemma event_keeps_sink:
  assumes "sink_of self w"
  shows "sink_of self (RecordSourceEvent ev w)" "sink_points (RecordSourceEvent ev w) = sink_points w"
    "sink_recorder (RecordSourceEvent ev w) = sink_recorder w" "reset_points (RecordSourceEvent ev w) = reset_points w"
proof -
  obtain m where m: "NewSelfRecorder m = Inr self" using assms by (auto simp: sink_of_def)
  have "sink_self w = self" using assms by (simp add: sink_of_def)
  then show "reset_points (RecordSourceEvent ev w) = reset_points w"
  proof -
    have "point_instrument p \<noteq> ''blobfuse_health_exporter.source.counter_resets''"
      if "p \<in> set (source_event_points (Some self) ev)" for p
      using event_point_names [OF m that] by auto
    then show ?thesis
      by (simp add: reset_points_def RecordSourceEvent_def filter_empty_conv \<open>sink_self w = self\<close>)
  qed
qed (use assms in \<open>auto simp: sink_of_def sink_ok_def RecordSourceEvent_def\<close>)

text \<open>What a series has been exported since a point of the run, against how far the source moved.\<close>

definition in_step :: "series \<Rightarrow> exporter_world \<Rightarrow> exporter_world \<Rightarrow> bool" where
  "in_step k w w' \<longleftrightarrow>
     sink_recorder (snd w') = sink_recorder (snd w) \<and> length (reset_points (snd w)) \<le> length (reset_points (snd w'))
     \<and> (length (reset_points (snd w')) = length (reset_points (snd w)) \<longrightarrow>
          exported_total k (sink_points (snd w')) - exported_total k (sink_points (snd w))
            = baseline (proc_state (fst w')) k - baseline (proc_state (fst w)) k)"

lemma in_step_trans: "in_step k w w1 \<Longrightarrow> in_step k w1 w2 \<Longrightarrow> in_step k w w2"
  by (auto simp: in_step_def)

definition live_world :: "self_recorder \<Rightarrow> series \<Rightarrow> exporter_world \<Rightarrow> bool" where
  "live_world self k w \<longleftrightarrow> proc_observer (fst w) = Some pipeline_observer \<and> state_bounded (proc_state (fst w))
     \<and> sink_of self (snd w) \<and> counterBaselines (proc_state (fst w)) k \<noteq> None"

lemma observer_keeps_self: "sink_self (notify processed p w) = sink_self w"
  if "proc_observer p = Some pipeline_observer"
  using that by (simp add: notify_def pipeline_observer_def split: prod.splits)

lemma live_process:
  assumes "Process RecordModeLive r w = (e, w')" "live_world self k w" "described_as k InstrumentCounter"
  shows "live_world self k w' \<and> in_step k w w'"
proof -
  obtain p u p' u' where w: "w = (p, u)" "w' = (p', u')" by fastforce
  have s: "snd (Process RecordModeLive r (p, u)) = (p', u')" using assms(1) w by simp
  have l: "proc_observer p = Some pipeline_observer" "state_bounded (proc_state p)" "sink_ok u"
    "counterBaselines (proc_state p) k \<noteq> None" "sink_self u = self"
    using assms(2) by (simp_all add: live_world_def sink_of_def w)
  have "sink_self u' = sink_self u"
    using s l(1) observer_keeps_self
    by (cases rule: Process_cases [of r RecordModeLive p u]) auto
  with live_step [OF l(1,2,3) assms(3) l(4) s] l assms(2) show ?thesis
    by (auto simp: live_world_def sink_of_def in_step_def w)
qed

lemma live_effects:
  "effects Handler (Some tells_pipeline) es w w' \<Longrightarrow> set (modes_of es) \<subseteq> {RecordModeLive} \<Longrightarrow>
     live_world self k w \<Longrightarrow> described_as k InstrumentCounter \<Longrightarrow> live_world self k w' \<and> in_step k w w'"
proof (induction rule: effects.induct)
  case (effects_none w)
  then show ?case by (simp add: in_step_def)
next
  case (effects_applied m r w w1 es w2 g)
  then have "Process RecordModeLive r w = (None, w1)" by (simp add: Handler_def)
  from live_process [OF this effects_applied.prems(2,3)] effects_applied show ?case
    by (auto intro: in_step_trans)
next
  case (effects_refused m r w e w1 es w2)
  then have "Process RecordModeLive r w = (Some e, w1)" by (auto simp: Handler_def intro: Process_refused)
  from live_process [OF this effects_refused.prems(2,3)] effects_refused show ?case
    by (auto intro: in_step_trans)
next
  case (effects_notified ob ev es w w2)
  have "live_world self k (ob ev w) \<and> in_step k w (ob ev w)"
    using effects_notified.prems(2) effects_notified.hyps(1) event_keeps_sink [of self "snd w" ev]
    by (auto simp: live_world_def tells_pipeline_def in_step_def)
  with effects_notified show ?case by (auto intro: in_step_trans)
qed

section \<open>The exporter's own metrics\<close>

text \<open>The records counted under an outcome, in the 64 bits the processor counts them in.\<close>

definition outcome_total :: "string \<Rightarrow> int point list \<Rightarrow> u64" where
  "outcome_total name ps = sum_list (map (\<lambda>p. word_of_int (point_value p))
     (filter (\<lambda>p. point_instrument p = ''blobfuse_health_exporter.source.records''
        \<and> point_attributes p = [\<lparr>Key = ''outcome'', Value = name\<rparr>]) ps))"

definition rotations_exported :: "int point list \<Rightarrow> int" where
  "rotations_exported ps = sum_list (map point_value
     (filter (\<lambda>p. point_instrument p = ''blobfuse_health_exporter.source.rotations'') ps))"

definition discontinuities_exported :: "string \<Rightarrow> int point list \<Rightarrow> nat" where
  "discontinuities_exported name ps =
     length (filter (\<lambda>p. point_instrument p = ''blobfuse_health_exporter.source.discontinuities''
       \<and> point_attributes p = [\<lparr>Key = ''reason'', Value = name\<rparr>]) ps)"

text \<open>The names \<open>docs/metrics.md\<close> gives the source's discontinuities.\<close>

definition documented_reasons :: "(source_discontinuity \<times> string) list" where
  "documented_reasons =
    [(SourceDiscontinuityGenerationMissing, ''generation_missing''),
     (SourceDiscontinuityGenerationTruncated, ''generation_truncated''),
     (SourceDiscontinuityOversizeRecord, ''oversize_record''),
     (SourceDiscontinuityStaleGeneration, ''stale_generation''),
     (SourceDiscontinuityUncleanClose, ''unclean_close'')]"

lemma self_totals_append [simp]:
  "outcome_total name (ps @ qs) = outcome_total name ps + outcome_total name qs"
  "rotations_exported (ps @ qs) = rotations_exported ps + rotations_exported qs"
  "discontinuities_exported reason_name (ps @ qs)
     = discontinuities_exported reason_name ps + discontinuities_exported reason_name qs"
  by (simp_all add: outcome_total_def rotations_exported_def discontinuities_exported_def)

text \<open>What the observer was told.\<close>

definition discontinuities_told :: "source_discontinuity \<Rightarrow> source_event list \<Rightarrow> nat" where
  "discontinuities_told reason evs = sum_list (map Count (filter (\<lambda>ev.
     source_event.Kind ev = SourceEventDiscontinuity \<and> Reason ev = Some reason) evs))"

lemma reset_point_other:
  assumes "NewSelfRecorder m = Inr self"
  shows "outcome_total name (reset_point self r) = 0" "rotations_exported (reset_point self r) = 0"
    "discontinuities_exported text_of (reset_point self r) = 0"
  using self_names [OF assms]
  by (auto simp: reset_point_def outcome_total_def rotations_exported_def discontinuities_exported_def
      split: sum.splits)

lemma reset_points_other:
  assumes "NewSelfRecorder m = Inr self"
  shows "outcome_total name (concat (map (reset_point self) rs)) = 0"
    "rotations_exported (concat (map (reset_point self) rs)) = 0"
    "discontinuities_exported text_of (concat (map (reset_point self) rs)) = 0"
proof (induction rs)
  case Nil
  { case 1 show ?case by (simp add: outcome_total_def) }
  { case 2 show ?case by (simp add: rotations_exported_def) }
  { case 3 show ?case by (simp add: discontinuities_exported_def) }
qed (simp_all add: reset_point_other [OF assms])

lemma outcome_points_other:
  assumes "NewSelfRecorder m = Inr self"
  shows "rotations_exported (addRecordOutcome oc n (Some self)) = 0"
    "discontinuities_exported text_of (addRecordOutcome oc n (Some self)) = 0"
  using self_names [OF assms]
  by (auto simp: addRecordOutcome_def rotations_exported_def discontinuities_exported_def split: option.splits)

lemma outcome_points_total:
  assumes "NewSelfRecorder m = Inr self"
  shows "outcome_total name (addRecordOutcome oc n (Some self)) = (if recordOutcomeName oc = Some name then n else 0)"
  using self_names [OF assms] by (auto simp: addRecordOutcome_def outcome_total_def split: option.splits)

text \<open>The points of an event.\<close>

definition discontinuity_point :: "self_recorder \<Rightarrow> discontinuity_reason \<Rightarrow> int point" where
  "discontinuity_point self d = \<lparr>point_instrument = sourceDiscontinuities self, point_value = 1,
     point_attributes = [\<lparr>Key = ''reason'', Value = discontinuity_text d\<rparr>]\<rparr>"

lemma concat_replicate_single [simp]: "concat (replicate n [x]) = replicate n x"
  by (induction n) simp_all

lemma selfDiscontinuityReason_valid: "selfDiscontinuityReason reason = Some d \<Longrightarrow> validDiscontinuityReason d"
  by (auto simp: selfDiscontinuityReason_def split: option.splits source_discontinuity.splits)

lemma source_event_points_cases:
  obtains (rotations) "source_event.Kind ev = SourceEventRotations" "0 < Count ev" "source_event_points (Some self) ev
      = [\<lparr>point_instrument = sourceRotations self, point_value = int (Count ev), point_attributes = []\<rparr>]"
  | (discontinuity) d where "source_event.Kind ev = SourceEventDiscontinuity" "selfDiscontinuityReason (Reason ev) = Some d"
      "validDiscontinuityReason d" "source_event_points (Some self) ev = replicate (Count ev) (discontinuity_point self d)"
  | (ignored) "source_event_points (Some self) ev = []"
      "Count ev = 0 \<or> source_event.Kind ev = SourceEventDiscontinuity \<and> selfDiscontinuityReason (Reason ev) = None"
proof (cases "source_event.Kind ev")
  case SourceEventRotations
  then show ?thesis
    by (cases "Count ev = 0")
       (rule ignored, simp_all add: source_event_points_def, rule rotations,
        simp_all add: source_event_points_def RecordRotations_def)
next
  case SourceEventDiscontinuity
  show ?thesis
  proof (cases "selfDiscontinuityReason (Reason ev)")
    case None
    with SourceEventDiscontinuity show ?thesis by (intro ignored) (simp_all add: source_event_points_def)
  next
    case (Some d)
    with selfDiscontinuityReason_valid SourceEventDiscontinuity show ?thesis
      by (intro discontinuity [OF SourceEventDiscontinuity Some])
         (auto simp: source_event_points_def RecordDiscontinuity_def discontinuity_point_def)
  qed
qed

lemma documented_reason_text:
  assumes "(reason, name) \<in> set documented_reasons" "selfDiscontinuityReason (Some r) = Some d"
  shows "discontinuity_text d = name \<longleftrightarrow> r = reason"
  using assms by (cases r) (auto simp: documented_reasons_def selfDiscontinuityReason_def)

lemma selfDiscontinuityReason_known: "selfDiscontinuityReason (Some r) \<noteq> None"
  by (cases r) (simp_all add: selfDiscontinuityReason_def)

lemma event_points_totals:
  assumes "NewSelfRecorder m = Inr self"
  shows "outcome_total name (source_event_points (Some self) ev) = 0"
    "rotations_exported (source_event_points (Some self) ev) = int (rotations_told [ev])"
  using self_names [OF assms]
  by (cases rule: source_event_points_cases [of ev self];
      auto simp: outcome_total_def rotations_exported_def rotations_told_def discontinuity_point_def filter_replicate)+

lemma event_points_reasons:
  assumes "NewSelfRecorder m = Inr self" "(reason, name) \<in> set documented_reasons"
  shows "discontinuities_exported name (source_event_points (Some self) ev) = discontinuities_told reason [ev]"
proof (cases rule: source_event_points_cases [of ev self])
  case rotations
  then show ?thesis using self_names [OF assms(1)] by (simp add: discontinuities_exported_def discontinuities_told_def)
next
  case (discontinuity d)
  then obtain r where r: "Reason ev = Some r" by (cases "Reason ev") (auto simp: selfDiscontinuityReason_def)
  with discontinuity documented_reason_text [OF assms(2), of r d] self_names [OF assms(1)] show ?thesis
    by (auto simp: discontinuities_exported_def discontinuities_told_def discontinuity_point_def filter_replicate)
next
  case ignored
  then show ?thesis
    using selfDiscontinuityReason_known
    by (cases "Reason ev") (auto simp: discontinuities_exported_def discontinuities_told_def)
qed

text \<open>The self metrics of a world are in step with the processor's statistics and the events told.\<close>

definition counted :: "self_recorder \<Rightarrow> source_event list \<Rightarrow> exporter_world \<Rightarrow> bool" where
  "counted self evs w \<longleftrightarrow> proc_observer (fst w) = Some pipeline_observer \<and> sink_self (snd w) = self
     \<and> outcome_total ''accepted'' (sink_self_points (snd w)) = AcceptedRecords (stats (fst w))
     \<and> outcome_total ''ignored'' (sink_self_points (snd w)) = IgnoredRecords (stats (fst w))
     \<and> outcome_total ''invalid'' (sink_self_points (snd w)) = InvalidRecords (stats (fst w))
     \<and> rotations_exported (sink_self_points (snd w)) = int (rotations_told evs)
     \<and> (\<forall>(reason, name) \<in> set documented_reasons.
          discontinuities_exported name (sink_self_points (snd w)) = discontinuities_told reason evs)"

lemma recordStats_outcomes:
  "AcceptedRecords (stats (recordStats processed p))
     = AcceptedRecords (stats p) + (if Outcome processed = RecordAccepted then 1 else 0)"
  "IgnoredRecords (stats (recordStats processed p))
     = IgnoredRecords (stats p) + (if Outcome processed = RecordIgnored then 1 else 0)"
  "InvalidRecords (stats (recordStats processed p))
     = InvalidRecords (stats p) + (if Outcome processed = RecordInvalid then 1 else 0)"
  by (cases "Outcome processed"; simp add: recordStats_def Let_def)+

lemma recordOutcomeName_eq:
  "recordOutcomeName oc = Some ''accepted'' \<longleftrightarrow> oc = RecordAccepted"
  "recordOutcomeName oc = Some ''ignored'' \<longleftrightarrow> oc = RecordIgnored"
  "recordOutcomeName oc = Some ''invalid'' \<longleftrightarrow> oc = RecordInvalid"
  by (cases oc; simp)+

lemma observed_points:
  "sink_self (pipeline_observer processed u) = sink_self u"
  "sink_self_points (pipeline_observer processed u) = sink_self_points u
     @ addRecordOutcome (Outcome processed) 1 (Some (sink_self u))
     @ concat (map (reset_point (sink_self u)) (CounterResets (Metrics processed)))"
  by (simp_all add: pipeline_observer_def self_Record_def split: prod.splits)

lemma counted_processed:
  assumes "counted self evs (p, u)" "NewSelfRecorder m = Inr self"
  shows "counted self evs (recordStats processed (p\<lparr>proc_state := st\<rparr>), pipeline_observer processed u)"
  using assms
  by (simp add: counted_def observed_points recordStats_outcomes outcome_points_total outcome_points_other
      reset_points_other recordOutcomeName_eq)

lemma counted_Process:
  assumes "Process mode r w = (e, w')" "counted self evs w" "NewSelfRecorder m = Inr self"
  shows "counted self evs w'"
proof -
  obtain p u where w: "w = (p, u)" by force
  have ob: "proc_observer p = Some pipeline_observer" using assms(2) by (simp add: counted_def w)
  have same: "p\<lparr>proc_state := proc_state p\<rparr> = p" by simp
  show ?thesis
    using counted_processed [OF assms(2) [unfolded w] assms(3)] assms(1) ob
    by (cases rule: Process_cases [of r mode p u]) (auto simp: w notify_def, metis same)
qed

lemma told_append [simp]:
  "discontinuities_told reason (evs @ [ev]) = discontinuities_told reason evs + discontinuities_told reason [ev]"
  by (simp add: discontinuities_told_def)

lemma counted_event:
  assumes "counted self evs w" "NewSelfRecorder m = Inr self"
  shows "counted self (evs @ [ev]) (tells_pipeline ev w)"
  using assms event_points_totals [OF assms(2)] event_points_reasons [OF assms(2)]
  by (auto simp: counted_def tells_pipeline_def RecordSourceEvent_def)

lemma counted_effects:
  "effects Handler (Some tells_pipeline) es w w' \<Longrightarrow> counted self evs w \<Longrightarrow> NewSelfRecorder m = Inr self \<Longrightarrow>
     counted self (evs @ events_of es) w'"
proof (induction arbitrary: evs rule: effects.induct)
  case (effects_applied m' r w w1 es w2 g)
  then show ?case using counted_Process [of m' r w None w1] by (simp add: Handler_def)
next
  case (effects_refused m' r w e w1 es w2)
  then show ?case using counted_Process [of m' r w "Some e" w1] by (simp add: Handler_def)
next
  case (effects_notified ob ev es w w2)
  then show ?case using counted_event [of self evs w m ev] effects_notified.IH [of "evs @ [ev]"] by simp
qed simp

text \<open>A new pipeline starts with the statistics so far.\<close>

lemma counted_new:
  assumes "NewSelfRecorder m = Inr self" "proc_observer p = Some pipeline_observer"
  shows "counted self [] (p, fresh_sink rec self (RecordProcessingStats (stats p) (Some self)))"
proof -
  show ?thesis
    using assms
    by (simp add: counted_def fresh_sink_def RecordProcessingStats_def outcome_points_total outcome_points_other
        rotations_told_def discontinuities_told_def)
qed

section \<open>A whole run\<close>

text \<open>
  The pieces \<open>app.Run\<close> puts together, up to any point of the session's life: the records before
  the cutover, those after it, and what the recorders start with.
\<close>

lemma exporter_starts:
  assumes "NewProcessor (Some NewState) None = Inr p0" and "effects Handler None base (p0, w0) (p1, w1)"
    and "NewPipeline sdk has_ctx' settings i (Some p1) version = (Inr (pl, w2), Some p2, sdk_evs)"
  obtains self rec m where
    "proc_state p0 = NewState" "proc_observer p1 = None" "state_bounded (proc_state p1)"
    "p2 = p1\<lparr>proc_observer := Some pipeline_observer\<rparr>" "NewSelfRecorder m = Inr self"
    "recorder_ok rec" "droppedInvalidSeries rec = 0"
    "w2 = fresh_sink rec self (RecordProcessingStats (stats p1) (Some self))"
proof -
  have p0: "proc_state p0 = NewState" "proc_observer p0 = None"
    using assms(1) by (auto simp: NewProcessor_def)
  have p1: "proc_observer p1 = None" "state_bounded (proc_state p1)"
    using baseline_effects [OF assms(2)] p0 by simp_all
  obtain p self rec where p: "Some p1 = Some p" "Some p2 = Some (p\<lparr>proc_observer := Some pipeline_observer\<rparr>)"
    "NewSelfRecorder (Some (sdk_selfMeter sdk)) = Inr self"
    "NewOTelRecorder (Some (sdk_meter sdk)) (Some (proc_state p)) (sdk_gauges sdk) = Inr rec"
    "w2 = fresh_sink rec self (RecordProcessingStats (stats p) (Some self))"
    using assms(3) by (rule NewPipeline_created) blast
  then show ?thesis using NewOTelRecorder_ok [OF p(4)] p0(1) p1 by (intro that) auto
qed

text \<open>What happened to a session since it was attached to an observer.\<close>

lemma session_since_cutover:
  assumes "InitializeSource os pvs has_ctx dir i options (Some h) w0 = Some (Inr s, w1, evs)"
    and "list_all (honest_pass c) pvs"
    and "session_AttachObserver (Some ob) (Some s) = (None, Some s1)"
    and "session_steps c s1 w2 evs' s2 w3"
  obtains base later where
    "effects h None base w0 w1" "effects h (Some ob) later w2 w3" "applied_once c (ss_registry s2) (base @ later)"
    "set (modes_of base) \<subseteq> {RecordModeBaseline}" "set (modes_of later) \<subseteq> {RecordModeLive}"
    "generations (ss_registry s2) = generations (ss_registry s) + rotations_told (events_of later)"
proof -
  from InitializeSource_ok [OF assms(1,2)] obtain base where base: "effects h None base w0 w1"
    "set (modes_of base) \<subseteq> {RecordModeBaseline}" "session_ok s" "\<exists>pv. cut_over pv s" "ss_handle s = h"
    "ss_observer s = None" "0 < reg_maxRecordBytes (ss_registry s)" "accounted c (ss_registry s) base" by auto
  have s1: "s1 = s\<lparr>ss_observer := Some ob\<rparr>" "\<not> ss_closed s"
    using assms(3) base(4) by (auto simp: session_AttachObserver_def cut_over_def split: if_splits)
  obtain later where "session_does c s1 w2 base s2 w3 later evs'"
    using session_steps_does [OF assms(4), of base] base(3,8) by (auto simp: s1)
  then have later: "effects h (Some ob) later w2 w3"
    "accounted c (ss_registry s2) (base @ later)" "set (modes_of later) \<subseteq> {RecordModeLive}" "session_ok s2" "\<not> ss_closed s2"
    "generations (ss_registry s2) = generations (ss_registry s) + rotations_told (events_of later)"
    using base(5,7) s1(2) by (auto simp: session_does_def traced_def keeps_def same_session_def s1(1))
  moreover have "applied_once c (ss_registry s2) (base @ later)"
    using later(2,4,5) by (intro accounted_once) (auto simp: session_ok_def)
  ultimately show ?thesis using base(1,2) by (intro that)
qed

text \<open>A run over a report that grows from one record to two: five bytes downloaded, then nine.\<close>

definition report5 :: bytes where "report5 = ''['' @ Raw (sample_record ''5'') @ '',''"

definition report59 :: bytes where
  "report59 = ''['' @ Raw (sample_record ''5'') @ '','' @ Raw (sample_record ''9'') @ '']''"

lemma real_growth:
  assumes "\<forall>r. Raw r = Raw (sample_record ''5'') \<longrightarrow> f r w = (None, w1)"
    and "\<forall>r. Raw r = Raw (sample_record ''9'') \<longrightarrow> g r w2 = (None, w3)"
  shows "\<exists>d1 fp1 res1 d2 fp2 res2 d3 fp3 res3.
     drain (Some f) (map file_at [report5, report5]) (Some (sample_rd sample_decoder zero_fingerprint False)) w
       = Some (None, Some (sample_rd d1 fp1 True), res1, w1)
   \<and> drain (Some f) (map file_at [report5]) (Some (sample_rd d1 fp1 True)) w1
       = Some (None, Some (sample_rd d2 fp2 True), res2, w1)
   \<and> drain (Some g) (map file_at [report59]) (Some (sample_rd d2 fp2 True)) w2
       = Some (None, Some (sample_rd d3 fp3 True), res3, w3)"
  by (simp add: sample_rd_def sample_report_def sample_decoder_def NewDecoder_def sample_record_def quoted_def assms
      report5_def report59_def reader_run decoder_run json_run)

lemma normalize_raw: "Raw r = Raw r' \<Longrightarrow> NormalizeRecord r = NormalizeRecord r'"
  by (simp only: NormalizeRecord_def Record_Decode_def)

definition sample_new :: "pipeline_sink processor" where
  "sample_new = \<lparr>proc_state = NewState, proc_observer = None, stats = zero_stats\<rparr>"

definition sample_processed :: "counter_increment list \<Rightarrow> processed_record" where
  "sample_processed incs = \<lparr>Outcome = RecordAccepted, ProcIgnoredValues = 0, ProcInvalidValues = 0,
     Metrics = empty_result\<lparr>CounterIncrements := incs\<rparr>\<rparr>"

definition sample_baseline :: "pipeline_sink processor" where
  "sample_baseline = recordStats (sample_processed []) (sample_new\<lparr>proc_state := NewState\<lparr>counterBaselines := [storage_read \<mapsto> 5]\<rparr>\<rparr>)"

definition four_more :: processed_record where
  "four_more = sample_processed [\<lparr>inc_series = storage_read, Delta = 4\<rparr>]"

definition sample_live :: "pipeline_sink processor" where
  "sample_live = recordStats four_more (sample_baseline\<lparr>proc_observer := Some pipeline_observer,
     proc_state := NewState\<lparr>counterBaselines := [storage_read \<mapsto> 9]\<rparr>\<rparr>)"

lemma sample_handles:
  assumes "Raw r = Raw (sample_record ''5'')"
  shows "Handler RecordModeBaseline r (sample_new, w) = (None, (sample_baseline, w))"
  using normalize_raw [OF assms]
  by (simp add: Handler_def Process_def sample_normalizes sample_new_def sample_apply sample_outcome notify_def
      sample_baseline_def sample_processed_def empty_result_def)

lemma sample_handles_live:
  assumes "Raw r = Raw (sample_record ''9'')"
  shows "Handler RecordModeLive r (sample_baseline\<lparr>proc_observer := Some pipeline_observer\<rparr>, w)
    = (None, (sample_live, pipeline_observer four_more w))"
  using normalize_raw [OF assms]
  by (simp add: Handler_def Process_def sample_normalizes sample_apply sample_outcome notify_def
      sample_baseline_def sample_processed_def four_more_def sample_live_def Let_def)

definition growing_passes :: "bytes list \<Rightarrow> pass_view" where
  "growing_passes vs = quiet_pass (map file_at vs)"

lemma growing_honest:
  "list_all (honest_pass (\<lambda>g. report59)) [growing_passes [report5, report5], growing_passes [report5]]"
  "list_all (honest_pass (\<lambda>g. report59)) [growing_passes [report59]]"
proof -
  have "report59 = report5 @ Raw (sample_record ''9'') @ '']''" by (simp add: report5_def report59_def)
  then have "prefix report5 report59" by (rule prefixI)
  then show "list_all (honest_pass (\<lambda>g. report59)) [growing_passes [report5, report5], growing_passes [report5]]"
    "list_all (honest_pass (\<lambda>g. report59)) [growing_passes [report59]]"
    using quiet_pass_honest [of report59 "[report5, report5]"] quiet_pass_honest [of report59 "[report5]"]
      quiet_pass_honest [of report59 "[report59]"] by (simp_all add: growing_passes_def)
qed

abbreviation attached :: "pipeline_sink processor" where
  "attached \<equiv> sample_baseline\<lparr>proc_observer := Some pipeline_observer\<rparr>"

text \<open>The session of the sample, with any handler that takes the two records and any observer.\<close>

lemma sample_session_run:
  fixes h :: "'w record_handler" and ob :: "'w source_observer"
  assumes "\<forall>r. Raw r = Raw (sample_record ''5'') \<longrightarrow> h RecordModeBaseline r w0 = (None, w1)"
    and "\<forall>r. Raw r = Raw (sample_record ''9'') \<longrightarrow> h RecordModeLive r w2 = (None, w3)"
  obtains s evs s1 r s2 evs2 so where
    "InitializeSource sample_watch [growing_passes [report5, report5], growing_passes [report5]] True
       (Some sample_directory) sample_identity sample_options (Some h) w0 = Some (Inr s, w1, evs)"
    "session_AttachObserver (Some ob) (Some s) = (None, Some s1)"
    "Reconcile [growing_passes [report59]] True (Some s1) w2 = Some (None, r, Some s2, w3, evs2)"
    "ss_watcher s1 = \<lparr>w_fd = Some 5, w_watch = 1\<rparr>" "ss_identity s1 = sample_identity"
    "ss_watcher s2 = \<lparr>w_fd = Some 5, w_watch = 1\<rparr>"
    "session_Close (quiet_pass []) (Some s2) = (None, so, [FdClose 5, FdClose 10])"
proof -
  from real_growth [of "h RecordModeBaseline" w0 w1 "h RecordModeLive" w2 w3, OF assms]
  obtain d1 fp1 res1 d2 fp2 res2 d3 fp3 res3 where g:
    "drain (Some (h RecordModeBaseline)) (map file_at [report5, report5])
       (Some (sample_rd sample_decoder zero_fingerprint False)) w0 = Some (None, Some (sample_rd d1 fp1 True), res1, w1)"
    "drain (Some (h RecordModeBaseline)) (map file_at [report5]) (Some (sample_rd d1 fp1 True)) w1
       = Some (None, Some (sample_rd d2 fp2 True), res2, w1)"
    "drain (Some (h RecordModeLive)) (map file_at [report59]) (Some (sample_rd d2 fp2 True)) w2
       = Some (None, Some (sample_rd d3 fp3 True), res3, w3)"
    by (elim exE conjE) (rule that)
  define cv where "cv = watermarks [g0] (sample_registry (sample_rd d2 fp2 True))"
  define s where "s = sample_session (sample_registry (sample_rd d2 fp2 True)) cv h"
  note init = sample_init [of h, OF g(1,2), folded growing_passes_def cv_def, folded s_def]
  have att: "session_AttachObserver (Some ob) (Some s) = (None, Some (s\<lparr>ss_observer := Some ob\<rparr>))"
    by (simp add: session_AttachObserver_def s_def)
  define s2 where "s2 = (sample_session (sample_registry (sample_rd d3 fp3 True)) cv h)\<lparr>ss_observer := Some ob\<rparr>"
  obtain r where rec: "Reconcile [growing_passes [report59]] True (Some (s\<lparr>ss_observer := Some ob\<rparr>)) w2
      = Some (None, r, Some s2, w3, [FdOpen 4, FdClose 4, FdOpen 10, FdClose 10])"
    using sample_reconcile_observed [of h, OF g(3), where cv = cv and obs = "Some ob"]
    unfolding growing_passes_def s_def s2_def by blast
  obtain so where cl: "session_Close (quiet_pass []) (Some s2) = (None, so, [FdClose 5, FdClose 10])"
    unfolding s2_def sample_close_observed by blast
  show ?thesis by (rule that [OF init att rec _ _ _ cl]) (simp_all add: s_def s2_def)
qed

lemma sample_pipeline_created:
  obtains pl w2 sdk_evs where
    "NewPipeline (sample_sdk None) True sample_settings sample_identity (Some sample_baseline) ''dev''
       = (Inr (pl, w2), Some attached, sdk_evs)"
proof -
  have "proc_observer sample_baseline = None" by (simp add: sample_baseline_def sample_new_def)
  moreover have "complete_identity sample_identity"
    by (simp add: complete_identity_def sample_identity_def IsZero_def zero_time_def unixToInternal_def)
  ultimately show ?thesis using sample_pipeline [of sample_baseline sample_identity None] that by auto
qed

lemma exporter_sample:
  fixes w0 :: pipeline_sink
  obtains s evs pl w2 sdk_evs s1 r s2 evs2 so where
    "InitializeSource sample_watch [growing_passes [report5, report5], growing_passes [report5]] True
       (Some sample_directory) sample_identity sample_options (Some Handler) (sample_new, w0)
       = Some (Inr s, (sample_baseline, w0), evs)"
    "NewPipeline (sample_sdk None) True sample_settings sample_identity (Some sample_baseline) ''dev''
       = (Inr (pl, w2), Some attached, sdk_evs)"
    "session_AttachObserver (Some tells_pipeline) (Some s) = (None, Some s1)"
    "Reconcile [growing_passes [report59]] True (Some s1) (attached, w2)
       = Some (None, r, Some s2, (sample_live, pipeline_observer four_more w2), evs2)"
    "ss_watcher s1 = \<lparr>w_fd = Some 5, w_watch = 1\<rparr>" "ss_identity s1 = sample_identity"
    "ss_watcher s2 = \<lparr>w_fd = Some 5, w_watch = 1\<rparr>"
    "session_Close (quiet_pass []) (Some s2) = (None, so, [FdClose 5, FdClose 10])"
proof -
  obtain pl w2 sdk_evs where pipe:
    "NewPipeline (sample_sdk None) True sample_settings sample_identity (Some sample_baseline) ''dev''
       = (Inr (pl, w2), Some attached, sdk_evs)"
    by (rule sample_pipeline_created)
  have "\<forall>r. Raw r = Raw (sample_record ''5'') \<longrightarrow> Handler RecordModeBaseline r (sample_new, w0) = (None, (sample_baseline, w0))"
    "\<forall>r. Raw r = Raw (sample_record ''9'') \<longrightarrow> Handler RecordModeLive r (attached, w2) = (None, (sample_live, pipeline_observer four_more w2))"
    using sample_handles sample_handles_live by blast+
  from this obtain s evs s1 r s2 evs2 so where run:
    "InitializeSource sample_watch [growing_passes [report5, report5], growing_passes [report5]] True
       (Some sample_directory) sample_identity sample_options (Some Handler) (sample_new, w0)
       = Some (Inr s, (sample_baseline, w0), evs)"
    "session_AttachObserver (Some tells_pipeline) (Some s) = (None, Some s1)"
    "Reconcile [growing_passes [report59]] True (Some s1) (attached, w2)
       = Some (None, r, Some s2, (sample_live, pipeline_observer four_more w2), evs2)"
    "ss_watcher s1 = \<lparr>w_fd = Some 5, w_watch = 1\<rparr>" "ss_identity s1 = sample_identity"
    "ss_watcher s2 = \<lparr>w_fd = Some 5, w_watch = 1\<rparr>"
    "session_Close (quiet_pass []) (Some s2) = (None, so, [FdClose 5, FdClose 10])"
    by (rule sample_session_run)
  then show ?thesis using pipe by (intro that)
qed

text \<open>The same run with a log of what the observer is told.\<close>

lemma exporter_sample_logged:
  fixes w0 :: pipeline_sink
  obtains s evs pl w2 sdk_evs s1 r s2 evs2 where
    "InitializeSource sample_watch [growing_passes [report5, report5], growing_passes [report5]] True
       (Some sample_directory) sample_identity sample_options (Some (aside Handler)) ((sample_new, w0), [])
       = Some (Inr s, ((sample_baseline, w0), []), evs)"
    "NewPipeline (sample_sdk None) True sample_settings sample_identity (Some sample_baseline) ''dev''
       = (Inr (pl, w2), Some attached, sdk_evs)"
    "session_AttachObserver (Some (logs_events tells_pipeline)) (Some s) = (None, Some s1)"
    "Reconcile [growing_passes [report59]] True (Some s1) ((attached, w2), [])
       = Some (None, r, Some s2, ((sample_live, pipeline_observer four_more w2), []), evs2)"
proof -
  obtain pl w2 sdk_evs where pipe:
    "NewPipeline (sample_sdk None) True sample_settings sample_identity (Some sample_baseline) ''dev''
       = (Inr (pl, w2), Some attached, sdk_evs)"
    by (rule sample_pipeline_created)
  have h: "\<forall>r. Raw r = Raw (sample_record ''5'') \<longrightarrow>
      aside Handler RecordModeBaseline r ((sample_new, w0), []) = (None, ((sample_baseline, w0), ([] :: source_event list)))"
    "\<forall>r. Raw r = Raw (sample_record ''9'') \<longrightarrow>
      aside Handler RecordModeLive r ((attached, w2), []) = (None, ((sample_live, pipeline_observer four_more w2), ([] :: source_event list)))"
    using sample_handles sample_handles_live by (simp_all add: aside_def)
  show ?thesis
    by (rule sample_session_run [of "aside Handler" "((sample_new, w0), [])" "((sample_baseline, w0), [])"
        "((attached, w2), [])" "((sample_live, pipeline_observer four_more w2), [])" "logs_events tells_pipeline", OF h])
      (rule that [OF _ pipe])
qed

lemma exporter_sample_steps:
  assumes "Reconcile [growing_passes [report59]] True (Some s1) w = Some (None, r, Some s2, w', evs)"
  shows "session_steps (\<lambda>g. report59) s1 w ([] @ evs) s2 w'"
  by (rule steps_one [OF steps_none step_reconcile [OF assms growing_honest(2)]])

lemma sample_exported:
  assumes "NewPipeline (sample_sdk None) True sample_settings i (Some sample_baseline) ''dev'' = (Inr (pl, w2), p2, evs)"
  shows "reset_points (pipeline_observer four_more w2) = []"
proof -
  obtain p self rec where "Some sample_baseline = Some p" "NewSelfRecorder (Some (sdk_selfMeter (sample_sdk None))) = Inr self"
    "w2 = fresh_sink rec self (RecordProcessingStats (stats p) (Some self))"
    using assms by (rule NewPipeline_created) blast
  with self_names(1) [OF this(2)] show ?thesis
    by (auto simp: reset_points_def observed_points fresh_sink_def RecordProcessingStats_def addRecordOutcome_def
        four_more_def sample_processed_def empty_result_def split: option.splits)
qed

text \<open>
  C1. End to end: whatever the kernel returns and whatever is refused, from the cutover to any
  point of the session's life, the metric state is that of the reports' records, each applied
  exactly once, as baseline before the cutover and live after it; and as long as the reset metric
  shows no decrease, what was handed to the SDK for a counter series the baseline saw is exactly
  how far the source's counter moved since the cutover.  No increment is dropped.
\<close>

theorem sessions_export_what_the_source_counted:
  assumes "NewProcessor (Some NewState) None = Inr p0"
    and "InitializeSource os pvs has_ctx dir i options (Some Handler) (p0, w0) = Some (Inr s, (p1, w1), evs)"
    and "list_all (honest_pass c) pvs"
    and "NewPipeline sdk has_ctx' settings i (Some p1) version = (Inr (pl, w2), Some p2, sdk_evs)"
    and "session_AttachObserver (Some tells_pipeline) (Some s) = (None, Some s1)"
    and "session_steps c s1 (p2, w2) evs' s2 (p3, w3)"
    and "described_as k InstrumentCounter" and "CounterBaselines (proc_state p1) k \<noteq> None"
  shows "\<exists>base later. applied_once c (ss_registry s2) (base @ later)
    \<and> list_all (\<lambda>m. m = RecordModeBaseline) (modes_of base) \<and> list_all (\<lambda>m. m = RecordModeLive) (modes_of later)
    \<and> proc_state p1 = apply_records (applied_of base) NewState
    \<and> proc_state p3 = apply_records (applied_of later) (proc_state p1)
    \<and> DroppedInvalidSeries (sink_recorder w3) = 0
    \<and> (reset_points w3 = [] \<longrightarrow>
         exported_total k (sink_points w3) = baseline (proc_state p3) k - baseline (proc_state p1) k)"
proof -
  from assms(2,3,5,6) obtain base later where l:
    "effects Handler None base (p0, w0) (p1, w1)" "effects Handler (Some tells_pipeline) later (p2, w2) (p3, w3)"
    "applied_once c (ss_registry s2) (base @ later)"
    "set (modes_of base) \<subseteq> {RecordModeBaseline}" "set (modes_of later) \<subseteq> {RecordModeLive}"
    by (rule session_since_cutover)
  from assms(1) l(1) assms(4) obtain self rec m where m:
    "proc_state p0 = NewState" "state_bounded (proc_state p1)"
    "p2 = p1\<lparr>proc_observer := Some pipeline_observer\<rparr>" "NewSelfRecorder m = Inr self"
    "recorder_ok rec" "droppedInvalidSeries rec = 0"
    "w2 = fresh_sink rec self (RecordProcessingStats (stats p1) (Some self))"
    by (rule exporter_starts)
  note r = l m
  have "sink_of self w2"
    using r(9,10) self_names [OF r(9)] by (auto simp: sink_of_def sink_ok_def fresh_sink_def r(12))
  then have "live_world self k (p2, w2)"
    using r(7) assms(8) by (simp add: live_world_def r(8) CounterBaselines_def)
  from live_effects [OF r(2,5) this assms(7)] have "in_step k (p2, w2) (p3, w3)" by blast
  moreover have "exported_total k (sink_points w2) = 0" "sink_recorder w2 = rec" "proc_state p2 = proc_state p1"
    by (simp_all add: r(8,12) fresh_sink_def exported_total_def)
  ultimately have "DroppedInvalidSeries (sink_recorder w3) = 0
      \<and> (reset_points w3 = [] \<longrightarrow>
         exported_total k (sink_points w3) = baseline (proc_state p3) k - baseline (proc_state p1) k)"
    using r(11) by (auto simp: in_step_def DroppedInvalidSeries_def)
  moreover have "proc_state p1 = apply_records (applied_of base) NewState"
    "proc_state p3 = apply_records (applied_of later) (proc_state p1)"
    using unobserved_state [OF r(1)] observed_state [OF r(2)] r(6) by (simp_all add: r(8))
  moreover have "list_all (\<lambda>m. m = RecordModeBaseline) (modes_of base)" "list_all (\<lambda>m. m = RecordModeLive) (modes_of later)"
    using r(4,5) by (auto simp: list_all_iff)
  ultimately show ?thesis using r(3) by blast
qed

theorem sessions_export_what_the_source_counted_witness:
  "\<exists>w0 s evs pl w2 sdk_evs s1 evs' s2 w3.
     InitializeSource sample_watch [growing_passes [report5, report5], growing_passes [report5]] True
       (Some sample_directory) sample_identity sample_options (Some Handler) (sample_new, w0)
       = Some (Inr s, (sample_baseline, w0), evs)
     \<and> NewPipeline (sample_sdk None) True sample_settings sample_identity (Some sample_baseline) ''dev''
       = (Inr (pl, w2), Some (sample_baseline\<lparr>proc_observer := Some pipeline_observer\<rparr>), sdk_evs)
     \<and> session_AttachObserver (Some tells_pipeline) (Some s) = (None, Some s1)
     \<and> session_steps (\<lambda>g. report59) s1 (sample_baseline\<lparr>proc_observer := Some pipeline_observer\<rparr>, w2) evs' s2 (sample_live, w3)
     \<and> exported_total storage_read (sink_points w3) = 4"
proof -
  fix w0 :: pipeline_sink
  obtain s evs pl w2 sdk_evs s1 res s2 evs2 where q:
    "InitializeSource sample_watch [growing_passes [report5, report5], growing_passes [report5]] True
       (Some sample_directory) sample_identity sample_options (Some Handler) (sample_new, w0)
       = Some (Inr s, (sample_baseline, w0), evs)"
    "NewPipeline (sample_sdk None) True sample_settings sample_identity (Some sample_baseline) ''dev''
       = (Inr (pl, w2), Some attached, sdk_evs)"
    "session_AttachObserver (Some tells_pipeline) (Some s) = (None, Some s1)"
    "Reconcile [growing_passes [report59]] True (Some s1) (attached, w2)
       = Some (None, res, Some s2, (sample_live, pipeline_observer four_more w2), evs2)"
    by (rule exporter_sample) blast
  note r = q(1-3) exporter_sample_steps [OF q(4)]
  have "NewProcessor (Some NewState) None = Inr sample_new" by (simp add: NewProcessor_def sample_new_def)
  moreover have "CounterBaselines (proc_state sample_baseline) storage_read \<noteq> None"
    by (simp add: CounterBaselines_def sample_baseline_def)
  ultimately have "exported_total storage_read (sink_points (pipeline_observer four_more w2))
      = baseline (proc_state sample_live) storage_read - baseline (proc_state sample_baseline) storage_read"
    using sessions_export_what_the_source_counted [OF _ r(1) growing_honest(1) r(2-4) storage_read_described]
      sample_exported [OF r(2)] by auto
  then have "exported_total storage_read (sink_points (pipeline_observer four_more w2)) = 4"
    by (simp add: baseline_def sample_live_def sample_baseline_def)
  with r show ?thesis by blast
qed

text \<open>
  C35. The exporter's own metrics tell the truth about a session at every point of its life, whatever
  the kernel returns.  The records metric agrees with the processor's statistics, outcome by outcome,
  counting also the records before the cutover and the refused ones; the rotations metric is exactly how
  many report generations the session has taken up since the cutover; and the discontinuities
  metric counts, under the name the documentation gives each reason, exactly the discontinuities in
  the log of what the session told its observer.
\<close>

theorem self_metrics_match_the_session:
  assumes "NewProcessor (Some NewState) None = Inr p0"
    and "InitializeSource os pvs has_ctx dir i options (Some (aside Handler)) ((p0, w0), [])
      = Some (Inr s, ((p1, w1), before), evs)"
    and "list_all (honest_pass c) pvs"
    and "NewPipeline sdk has_ctx' settings i (Some p1) version = (Inr (pl, w2), Some p2, sdk_evs)"
    and "session_AttachObserver (Some (logs_events tells_pipeline)) (Some s) = (None, Some s1)"
    and "session_steps c s1 ((p2, w2), before) evs' s2 ((p3, w3), told)"
  shows "outcome_total ''accepted'' (sink_self_points w3) = AcceptedRecords (processor_Stats p3)
    \<and> outcome_total ''ignored'' (sink_self_points w3) = IgnoredRecords (processor_Stats p3)
    \<and> outcome_total ''invalid'' (sink_self_points w3) = InvalidRecords (processor_Stats p3)
    \<and> rotations_exported (sink_self_points w3)
        = int (generations (ss_registry s2)) - int (generations (ss_registry s))
    \<and> rotations_exported (sink_self_points w3) = int (rotations_told told)
    \<and> list_all (\<lambda>(reason, name). discontinuities_exported name (sink_self_points w3) = discontinuities_told reason told)
        documented_reasons"
proof -
  from assms(2,3,5,6) obtain base later where l:
    "effects (aside Handler) None base ((p0, w0), []) ((p1, w1), before)"
    "effects (aside Handler) (Some (logs_events tells_pipeline)) later ((p2, w2), before) ((p3, w3), told)"
    "generations (ss_registry s2) = generations (ss_registry s) + rotations_told (events_of later)"
    by (rule session_since_cutover)
  have told: "told = events_of later"
    using told_effects [OF l(2)] aside_effects_unobserved [OF l(1)] by simp
  have e: "effects Handler (Some tells_pipeline) later (p2, w2) (p3, w3)" using aside_effects [OF l(2)] by simp
  from assms(1) conjunct1 [OF aside_effects_unobserved [OF l(1)], simplified] assms(4) obtain self rec m where r:
    "p2 = p1\<lparr>proc_observer := Some pipeline_observer\<rparr>" "NewSelfRecorder m = Inr self"
    "w2 = fresh_sink rec self (RecordProcessingStats (stats p1) (Some self))"
    by (rule exporter_starts)
  have "counted self [] (p2, w2)"
    using counted_new [OF r(2), of p2 rec] by (simp add: r(1,3))
  from counted_effects [OF e this r(2)] l(3) show ?thesis
    by (auto simp: counted_def processor_Stats_def told list_all_iff)
qed

theorem self_metrics_match_the_session_witness:
  "\<exists>s1 (w2 :: pipeline_sink) evs' s2 w3.
     session_steps (\<lambda>g. report59) s1 ((sample_baseline\<lparr>proc_observer := Some pipeline_observer\<rparr>, w2), ([] :: source_event list)) evs' s2 ((sample_live, w3), [])
     \<and> outcome_total ''accepted'' (sink_self_points w3) = 2
     \<and> discontinuities_exported ''unclean_close'' (sink_self_points w3) = 0"
proof -
  fix w0 :: pipeline_sink
  obtain s evs pl w2 sdk_evs s1 res s2 evs2 where q:
    "InitializeSource sample_watch [growing_passes [report5, report5], growing_passes [report5]] True
       (Some sample_directory) sample_identity sample_options (Some (aside Handler)) ((sample_new, w0), [])
       = Some (Inr s, ((sample_baseline, w0), []), evs)"
    "NewPipeline (sample_sdk None) True sample_settings sample_identity (Some sample_baseline) ''dev''
       = (Inr (pl, w2), Some attached, sdk_evs)"
    "session_AttachObserver (Some (logs_events tells_pipeline)) (Some s) = (None, Some s1)"
    "Reconcile [growing_passes [report59]] True (Some s1) ((attached, w2), [])
       = Some (None, res, Some s2, ((sample_live, pipeline_observer four_more w2), []), evs2)"
    by (rule exporter_sample_logged) blast
  note r = q(1-3) exporter_sample_steps [OF q(4)]
  have n: "NewProcessor (Some NewState) None = Inr sample_new" by (simp add: NewProcessor_def sample_new_def)
  have m: "outcome_total ''accepted'' (sink_self_points (pipeline_observer four_more w2)) = AcceptedRecords (processor_Stats sample_live)"
    "discontinuities_exported ''unclean_close'' (sink_self_points (pipeline_observer four_more w2)) = 0"
    using self_metrics_match_the_session [OF n r(1) growing_honest(1) r(2-4)]
    by (auto simp: documented_reasons_def discontinuities_told_def)
  have "AcceptedRecords (processor_Stats sample_live) = 2"
    by (simp add: processor_Stats_def sample_live_def recordStats_outcomes sample_baseline_def four_more_def
        sample_processed_def sample_new_def zero_stats_def)
  then have "outcome_total ''accepted'' (sink_self_points (pipeline_observer four_more w2)) = 2" using m(1) by simp
  with r(4) m(2) show ?thesis by blast
qed

end
