(* ===== verification/App.thy ===== *)
theory App
  imports Session_Export Flags
begin

text \<open>
  \<open>internal/app/run_linux.go\<close> and \<open>main.go\<close>: a whole run of the exporter.  Everything the
  kernel, the clocks, the contexts and the SDK answer is one record of answers; a run shows the
  descriptors and the parts of the SDK it started and stopped, and the processor and the sink it
  ends with.  A run whose loops need more turns than the answers hold has not returned.
\<close>

record app_answers =
  aa_sysconf :: "error + int"
  aa_files :: read_file
  aa_directory :: directory_answers
  aa_watch :: watch_answers
  aa_passes :: "pass_view list"
  aa_sdk :: sdk_answers
  aa_turns :: "run_turn list"
  aa_ctx :: "sentinel option"
  aa_gauges :: "metric_state \<Rightarrow> series list"
  aa_shutdown :: shutdown_answers
  aa_session_close :: pass_view
  aa_directory_close :: "error option"

record app_result =
  SourceEnded :: bool
  res_UncleanGenerations :: nat

definition zero_result :: app_result where
  "zero_result = \<lparr>SourceEnded = False, res_UncleanGenerations = 0\<rparr>"

record app_outcome =
  out_result :: app_result
  out_error :: "error option"
  out_fds :: "fd_event list"
  out_sdk :: "sdk_event list"
  out_world :: "exporter_world option"

definition failed_run :: "error \<Rightarrow> fd_event list \<Rightarrow> sdk_event list \<Rightarrow> app_outcome" where
  "failed_run e fds sdk = \<lparr>out_result = zero_result, out_error = Some e, out_fds = fds, out_sdk = sdk, out_world = None\<rparr>"

text \<open>Before the pipeline exists there is no sink; nothing reads or writes this one.\<close>

definition no_sink :: pipeline_sink where
  "no_sink = fresh_sink empty_recorder \<lparr>sourceRecords = [], sourceRotations = [], sourceDiscontinuities = [],
     sourceCounterResets = [], exportErrors = []\<rparr> []"

text \<open>The end of a run: the pipeline first, then the session and the directory.\<close>

definition finish_run ::
    "app_answers \<Rightarrow> app_result \<Rightarrow> error option \<Rightarrow> pipeline \<Rightarrow> exporter_world \<Rightarrow> exporter_world source_session option
      \<Rightarrow> report_directory \<Rightarrow> fd_event list \<Rightarrow> sdk_event list \<Rightarrow> app_outcome" where
  "finish_run a result err pl w session dir fds sdk =
     (case pipeline_Shutdown (aa_shutdown a) (snd w) (Some pl) of
        (shutdownErr, _, sdk') \<Rightarrow>
          (case session_Close (aa_session_close a) session of
             (sessionErr, _, fds1) \<Rightarrow>
               (case directory_Close (aa_directory_close a) (Some dir) of
                  (dirErr, _, fds2) \<Rightarrow>
                    \<lparr>out_result = result,
                     out_error = errors_join [err, shutdownErr, errors_join [sessionErr, dirErr]],
                     out_fds = fds @ fds1 @ fds2, out_sdk = sdk @ sdk', out_world = Some w\<rparr>)))"

definition init_options :: "config \<Rightarrow> initialization_options" where
  "init_options settings = \<lparr>MaxRecordBytes = nat (cfg_MaxRecordBytes settings),
     io_RescanInterval = RescanInterval settings, InitializationTimeout = cfg_InitializationTimeout settings\<rparr>"

text \<open>From the new session on.\<close>

definition run_session ::
    "app_answers \<Rightarrow> config \<Rightarrow> string \<Rightarrow> process_identity \<Rightarrow> report_directory \<Rightarrow> exporter_world source_session
      \<Rightarrow> pipeline_sink processor \<Rightarrow> fd_event list \<Rightarrow> app_outcome option" where
  "run_session a settings version identity dir s p fds =
     (case NewPipeline (aa_sdk a) True settings identity (Some p) version of
        (Inl e, _, sdk) \<Rightarrow>
          Some (failed_run e (fds @ snd (snd (session_Close (aa_session_close a) (Some s)))
            @ snd (snd (directory_Close (aa_directory_close a) (Some dir)))) sdk)
      | (Inr (pl, sink), p1, sdk) \<Rightarrow>
          (case session_AttachObserver (Some tells_pipeline) (Some s) of
             (Some e, s1) \<Rightarrow> Some (finish_run a zero_result (Some e) pl (the p1, sink) s1 dir fds sdk)
           | (None, s1) \<Rightarrow>
               (case session_Run (aa_turns a) True (RescanInterval settings) (SourceDrainTimeout settings) s1 (the p1, sink) of
                  None \<Rightarrow> None
                | Some (runErr, rr, s2, (p2, w2), fds1) \<Rightarrow>
                    (let ended = SourceEnd rr \<noteq> None;
                         result = \<lparr>SourceEnded = ended,
                                   res_UncleanGenerations = length (UncleanGenerations (rr_Drain rr))\<rparr>;
                         p3 = (if ended
                               then p2\<lparr>proc_state := fst (ClearGauges (aa_gauges a (proc_state p2)) (proc_state p2))\<rparr>
                               else p2);
                         cancelled = (case (aa_ctx a, runErr) of (Some c, Some e) \<Rightarrow> errors_is c e | _ \<Rightarrow> False)
                     in Some (finish_run a result (if cancelled then None else runErr) pl (p3, w2) s2 dir
                                (fds @ fds1) sdk)))))"

definition app_Run :: "app_answers \<Rightarrow> bool \<Rightarrow> config \<Rightarrow> string \<Rightarrow> app_outcome option" where
  "app_Run a has_ctx settings version =
     (if \<not> has_ctx then Some (failed_run (Text ''application context is required'') [] [])
      else (case Validate settings of
        Some e \<Rightarrow> Some (failed_run e [] [])
      | None \<Rightarrow>
          (case ReadProcessIdentity (aa_sysconf a) (aa_files a) (cfg_PID settings) of
             Inl e \<Rightarrow> Some (failed_run e [] [])
           | Inr identity \<Rightarrow>
               (case OpenReportDirectory (aa_directory a) (ReportDirectory settings) (AllowInsecureSource settings) of
                  (Inl e, fds) \<Rightarrow> Some (failed_run e fds [])
                | (Inr dir, fds) \<Rightarrow>
                    (let close = snd (snd (directory_Close (aa_directory_close a) (Some dir)))
                     in case NewProcessor (Some NewState) None of
                          Inl e \<Rightarrow> Some (failed_run e (fds @ close) [])
                        | Inr p \<Rightarrow>
                            (case InitializeSource (aa_watch a) (aa_passes a) True (Some dir) identity
                                (init_options settings) (Some Handler) (p, no_sink) of
                               None \<Rightarrow> None
                             | Some (Inl e, _, fds1) \<Rightarrow> Some (failed_run e (fds @ fds1 @ close) [])
                             | Some (Inr s, (p1, _), fds1) \<Rightarrow>
                                 run_session a settings version identity dir s p1 (fds @ fds1)))))))"

section \<open>The program\<close>

text \<open>What the program prints and logs; the help is printed as it stands.\<close>

definition usage :: bytes where
  "usage = concat (map (\<lambda>l. l @ [CHR 0x0A]) [
     ''BlobFuse Health Exporter'',
     [],
     ''Usage:'',
     ''  blobfuse-health-exporter --report-dir PATH --pid PID [options]'',
     [],
     ''Required:'',
     ''  --report-dir PATH             Dedicated bfusemon report directory'',
     ''  --pid PID                     Monitored BlobFuse process ID'',
     [],
     ''Options:'',
     ''  --otlp-endpoint URL           OTLP/HTTP metrics URL (default http://127.0.0.1:4318/v1/metrics)'',
     ''  --rescan-interval DURATION    Directory and identity rescan interval (default 5s)'',
     ''  --initialization-timeout DURATION'',
     ''                                Baseline initialization timeout (default 30s)'',
     ''  --source-drain-timeout DURATION'',
     ''                                Source shutdown drain timeout (default 10s)'',
     ''  --export-interval DURATION    Metric export interval (default 30s)'',
     ''  --export-timeout DURATION     Metric export timeout (default 10s)'',
     ''  --shutdown-timeout DURATION   Final flush and shutdown timeout (default 5s)'',
     ''  --max-record-bytes BYTES      Maximum encoded source record (default 16777216)'',
     ''  --allow-insecure-source       Relax source owner and mode checks for development'',
     ''  --log-level LEVEL             debug, info, warn, or error (default info)'',
     ''  --help                        Show this help''])"

datatype program_output =
    Print bytes
  | PrintConfigurationError error
  | LogStopped error
  | LogEnded nat

text \<open>The levels of \<open>log/slog\<close>: a record is written when its level is not below the logger's.\<close>

definition LevelDebug :: int where "LevelDebug = -4"
definition LevelInfo :: int where "LevelInfo = 0"
definition LevelWarn :: int where "LevelWarn = 4"
definition LevelError :: int where "LevelError = 8"

definition logLevel :: "bytes \<Rightarrow> int" where
  "logLevel v = (if v = ''debug'' then LevelDebug else if v = ''warn'' then LevelWarn
     else if v = ''error'' then LevelError else LevelInfo)"

definition log_at :: "int \<Rightarrow> int \<Rightarrow> program_output \<Rightarrow> program_output list" where
  "log_at logger level out = (if logger \<le> level then [out] else [])"

definition main_run :: "app_answers \<Rightarrow> bytes list \<Rightarrow> string \<Rightarrow> (int \<times> program_output list) option" where
  "main_run a args version =
     (case config_Parse args of
        Inl e \<Rightarrow>
          if errors_is ErrHelp e then Some (0, [Print usage]) else Some (2, [PrintConfigurationError e])
      | Inr settings \<Rightarrow>
          (case app_Run a True settings version of
             None \<Rightarrow> None
           | Some out \<Rightarrow>
               (case out_error out of
                  Some e \<Rightarrow> Some (1, log_at (logLevel (LogLevel settings)) LevelError (LogStopped e))
                | None \<Rightarrow>
                    Some (0, if SourceEnded (out_result out)
                             then log_at (logLevel (LogLevel settings)) LevelInfo
                                    (LogEnded (res_UncleanGenerations (out_result out)))
                             else []))))"

end
