(* ===== verification/App_Properties.thy ===== *)
theory App_Properties
  imports App
begin

text \<open>
  The properties of a whole run of the exporter.
\<close>

section \<open>The recorder stays registered\<close>

lemma record_increment_registered: "registered (fst (record_increment w inc)) = registered (fst w)"
  by (auto simp: record_increment_def recordInvalidSeries_def split: prod.splits option.splits)

lemma otel_Record_registered: "registered (fst (otel_Record processed rec)) = registered rec"
proof -
  have "registered (fst (foldl record_increment w is)) = registered (fst w)" for w "is"
    by (induction "is" arbitrary: w) (simp_all add: record_increment_registered)
  then show ?thesis by (simp add: otel_Record_def)
qed

lemma observer_registered: "registered (sink_recorder (pipeline_observer processed u)) = registered (sink_recorder u)"
  using otel_Record_registered [of processed "sink_recorder u"]
  by (auto simp: pipeline_observer_def split: prod.splits)

definition piped :: "exporter_world \<Rightarrow> bool" where
  "piped w \<longleftrightarrow> proc_observer (fst w) = Some pipeline_observer \<and> registered (sink_recorder (snd w))"

lemma piped_Process: "Process m r w = (e, w') \<Longrightarrow> piped w \<Longrightarrow> piped w'"
proof -
  assume run: "Process m r w = (e, w')" and p: "piped w"
  obtain q u where w: "w = (q, u)" by force
  show "piped w'"
    using run p
    by (cases rule: Process_cases [of r m q u]) (auto simp: w piped_def notify_def observer_registered)
qed

lemma piped_effects: "effects Handler (Some tells_pipeline) es w w' \<Longrightarrow> piped w \<Longrightarrow> piped w'"
proof (induction rule: effects.induct)
  case (effects_notified ob ev es w w2)
  then show ?case by (auto simp: piped_def tells_pipeline_def RecordSourceEvent_def)
qed (auto simp: Handler_def dest: piped_Process)

section \<open>There are finitely many gauges\<close>

lemma apply_gauges_finite: "finite (dom (gauges st)) \<Longrightarrow> finite (dom (gauges (fst (foldl apply_gauge (st, res) gs))))"
proof (induction gs arbitrary: st res)
  case (Cons g gs)
  obtain st1 res1 where 1: "apply_gauge (st, res) g = (st1, res1)" by force
  then have "finite (dom (gauges st1))" using Cons.prems by (auto simp: apply_gauge_def Let_def split: if_splits option.splits)
  with Cons.IH 1 show ?case by simp
qed simp

lemma apply_counters_gauges: "gauges (fst (foldl (apply_counter mode) (st, res) cs)) = gauges st"
proof (induction cs arbitrary: st res)
  case (Cons c cs)
  obtain st1 res1 where 1: "apply_counter mode (st, res) c = (st1, res1)" by force
  then have "gauges st1 = gauges st" by (auto simp: apply_counter_def Let_def split: if_splits option.splits)
  with Cons.IH [of st1 res1] 1 show ?case by simp
qed simp

lemma apply_record_finite: "finite (dom (gauges st)) \<Longrightarrow> finite (dom (gauges (apply_record m r st)))"
proof (cases "NormalizeRecord r")
  case (Inr n)
  assume f: "finite (dom (gauges st))"
  obtain st1 res1 where 1: "foldl (apply_counter m) (st, empty_result) (Counters n) = (st1, res1)" by force
  with apply_counters_gauges [of m st empty_result "Counters n"] f have "finite (dom (gauges st1))" by simp
  from apply_gauges_finite [OF this] 1 Inr show ?thesis by (simp add: apply_record_def Apply_def)
qed (simp add: apply_record_def)

lemma apply_records_finite: "finite (dom (gauges st)) \<Longrightarrow> finite (dom (gauges (apply_records rs st)))"
  unfolding apply_records_def by (induction rs arbitrary: st) (auto simp: apply_record_finite)

section \<open>Everything that was opened is closed\<close>

lemma OpenReportDirectory_dir:
  "OpenReportDirectory os path allow = (Inr dir, fds) \<Longrightarrow> \<exists>fd. dir_fd dir = Some fd \<and> fd_flow {#} fds {#fd#}"
  using OpenReportDirectory_fds [of os path allow "Inr dir" fds]
  by (fastforce simp: OpenReportDirectory_def split: if_splits prod.splits sum.splits option.splits)

lemma directory_Close_flow:
  assumes "dir_fd dir = Some fd"
  shows "fd_flow {#fd#} (snd (snd (directory_Close x (Some dir)))) {#}"
  using assms by (simp add: directory_Close_def fd_flow_def)

lemma session_Close_flow:
  assumes "session_ok s" "ranges pv"
  shows "fd_flow (session_owned s) (snd (snd (session_Close pv (Some s)))) {#}"
proof -
  obtain e so evs where c: "session_Close pv (Some s) = (e, so, evs)" by (metis surj_pair)
  from session_Close_ok [OF c assms] c show ?thesis by auto
qed

text \<open>Closing the session and then the directory.\<close>

lemma close_both:
  assumes "fd_flow {#} fds (session_owned s + {#fd#})" "session_ok s" "ranges pv" "dir_fd dir = Some fd"
  shows "live (fds @ snd (snd (session_Close pv (Some s))) @ snd (snd (directory_Close x (Some dir)))) = {#}"
proof -
  have "fd_flow (session_owned s + {#fd#}) (snd (snd (session_Close pv (Some s)))) ({#} + {#fd#})"
    using fd_flow_frame [OF session_Close_flow [OF assms(2,3)]] .
  with assms(1) directory_Close_flow [OF assms(4)] show ?thesis
    by (intro fd_flow_live) (auto intro: fd_flow_append)
qed

definition finishes :: "app_answers \<Rightarrow> report_directory \<Rightarrow> nat \<Rightarrow> app_outcome \<Rightarrow> bool" where
  "finishes a dir fd out \<longleftrightarrow> (\<exists>res err pl w s fds.
     out = finish_run a res err pl w (Some s) dir fds all_started
     \<and> fd_flow {#} fds (session_owned s + {#fd#}) \<and> session_ok s
     \<and> piped w \<and> pr_registered (pl_process pl) \<and> \<not> pl_closed pl
     \<and> (SourceEnded res \<longrightarrow> (\<exists>st. finite (dom (gauges st)) \<and> proc_state (fst w) = fst (ClearGauges (aa_gauges a st) st))))"

lemma finish_run_releases:
  assumes "fd_flow {#} fds (session_owned s + {#fd#})" "session_ok s" "ranges (aa_session_close a)"
    and "dir_fd dir = Some fd" "piped w" "pr_registered (pl_process pl)" "\<not> pl_closed pl"
  shows "live (out_fds (finish_run a res err pl w (Some s) dir fds all_started)) = {#}
    \<and> running {} (out_sdk (finish_run a res err pl w (Some s) dir fds all_started)) = {}"
proof -
  obtain e1 so evs1 where c1: "session_Close (aa_session_close a) (Some s) = (e1, so, evs1)" by (metis surj_pair)
  obtain e2 d evs2 where c2: "directory_Close (aa_directory_close a) (Some dir) = (e2, d, evs2)" by (metis surj_pair)
  have "live (fds @ evs1 @ evs2) = {#}" using close_both [OF assms(1-4), of "aa_directory_close a"] c1 c2 by simp
  moreover have "UNIV - {GaugeCallback} - {ProcessCallback} - {MetricProvider, Transport} - {SelfProvider} = {}"
    using sdk_part.exhaust by blast
  ultimately show ?thesis
    using assms(5-7) c1 c2
    by (simp add: finish_run_def pipeline_Shutdown_def piped_def close_gauges_def close_process_def running_all_started)
qed

text \<open>Running a session that the pipeline observes: the pipeline is not created, or the run finishes.\<close>

lemma run_session_ends:
  assumes "run_session a settings version i dir s p fds = Some out"
    and "fd_flow {#} fds (session_owned s + {#fd#})" "session_ok s" "ss_handle s = Handler" "ss_observer s = None"
    and "accounted c (ss_registry s) tr" "list_all (honest_turn c) (aa_turns a)" "finite (dom (gauges (proc_state p)))"
  shows "(\<exists>e sdk. out = failed_run e (fds @ snd (snd (session_Close (aa_session_close a) (Some s)))
            @ snd (snd (directory_Close (aa_directory_close a) (Some dir)))) sdk \<and> running {} sdk = {})
    \<or> finishes a dir fd out"
proof -
  obtain r p1 sdk where np: "NewPipeline (aa_sdk a) True settings i (Some p) version = (r, p1, sdk)" by (metis surj_pair)
  show ?thesis
  proof (cases r)
    case (Inl e)
    with assms(1) np NewPipeline_failed [of "aa_sdk a" True settings i "Some p" version e p1 sdk]
    show ?thesis by (auto simp: run_session_def)
  next
    case (Inr plw)
    then obtain pl sink where plw: "r = Inr (pl, sink)" by (cases plw) auto
    from np [unfolded plw] obtain q self rec where n: "Some p = Some q"
      "p1 = Some (q\<lparr>proc_observer := Some pipeline_observer\<rparr>)"
      "NewOTelRecorder (Some (sdk_meter (aa_sdk a))) (Some (proc_state q)) (sdk_gauges (aa_sdk a)) = Inr rec"
      "sink = fresh_sink rec self (RecordProcessingStats (stats q) (Some self))"
      "pr_registered (pl_process pl)" "\<not> pl_closed pl" "sdk = all_started"
      by (rule NewPipeline_created) blast
    have piped: "piped (the p1, sink)"
      using NewOTelRecorder_ok [OF n(3)] by (simp add: piped_def n(2,4) fresh_sink_def)
    obtain ae s1 where at: "session_AttachObserver (Some tells_pipeline) (Some s) = (ae, s1)" by force
    show ?thesis
    proof (cases ae)
      case (Some e)
      with at have "s1 = Some s" by (auto simp: session_AttachObserver_def split: if_splits)
      with assms(1) np plw at Some n(7) have
        "out = finish_run a zero_result (Some e) pl (the p1, sink) (Some s) dir fds all_started"
        by (simp add: run_session_def)
      with assms(2,3) piped n(5,6) show ?thesis
        unfolding finishes_def by (fastforce simp: zero_result_def)
    next
      case None
      then have s1: "s1 = Some (s\<lparr>ss_observer := Some tells_pipeline\<rparr>)"
        using at by (auto simp: session_AttachObserver_def split: if_splits)
      let ?s = "s\<lparr>ss_observer := Some tells_pipeline\<rparr>"
      obtain runErr rr s2 p2 w2 fds1 where run: "session_Run (aa_turns a) True (RescanInterval settings)
          (SourceDrainTimeout settings) (Some ?s) (the p1, sink) = Some (runErr, rr, s2, (p2, w2), fds1)"
        using assms(1) np plw at None s1 by (auto simp: run_session_def split: option.splits)
      obtain s3 where s3: "s2 = Some s3" using run by (auto simp: session_Run_def split: if_splits)
      have "session_steps c ?s (the p1, sink) ([] @ fds1) s3 (p2, w2)"
        by (rule steps_one [OF steps_none step_run [OF run [unfolded s3] assms(7)]])
      from session_steps_does [OF this, of tr] assms(3,6) obtain es where
        "session_does c ?s (the p1, sink) tr s3 (p2, w2) es fds1" by (auto simp: session_ok_observed)
      then have k: "session_ok s3" "fd_flow (session_owned s) fds1 (session_owned s3)"
        "effects Handler (Some tells_pipeline) es (the p1, sink) (p2, w2)"
        using assms(4) by (simp_all add: session_does_def keeps_def traced_def session_owned_def)
      have flow: "fd_flow {#} (fds @ fds1) (session_owned s3 + {#fd#})"
        using fd_flow_append [OF assms(2) fd_flow_frame [OF k(2)]] .
      have "piped (p2, w2)" using piped_effects [OF k(3) piped] .
      moreover have "finite (dom (gauges (proc_state p2)))"
        using observed_state [OF k(3)] apply_records_finite assms(8) n(1,2) by simp
      ultimately show ?thesis
        using assms(1) flow k(1) n(5-7) unfolding finishes_def
        by (intro disjI2) (fastforce simp: run_session_def np plw at None s1 run s3 Let_def piped_def)
    qed
  qed
qed

lemma run_session_releases:
  assumes "run_session a settings version i dir s p fds = Some out"
    and "fd_flow {#} fds (session_owned s + {#fd#})" "session_ok s" "ss_handle s = Handler" "ss_observer s = None"
    and "accounted c (ss_registry s) tr" "list_all (honest_turn c) (aa_turns a)" "finite (dom (gauges (proc_state p)))"
    and "ranges (aa_session_close a)" "dir_fd dir = Some fd"
  shows "live (out_fds out) = {#} \<and> running {} (out_sdk out) = {}"
  using run_session_ends [OF assms(1-8)]
proof (elim disjE exE conjE)
  fix e sdk
  assume "out = failed_run e (fds @ snd (snd (session_Close (aa_session_close a) (Some s)))
    @ snd (snd (directory_Close (aa_directory_close a) (Some dir)))) sdk" "running {} sdk = {}"
  with close_both [OF assms(2,3,9,10)] show ?thesis by (simp add: failed_run_def)
next
  assume "finishes a dir fd out"
  with finish_run_releases assms(9,10) show ?thesis unfolding finishes_def by blast
qed

lemma failed_run_simps [simp]:
  "out_fds (failed_run e fds sdk) = fds" "out_sdk (failed_run e fds sdk) = sdk" "out_world (failed_run e fds sdk) = None"
  "out_error (failed_run e fds sdk) = Some e"
  by (simp_all add: failed_run_def)

text \<open>How a run gets to its session.\<close>

lemma app_Run_starts:
  assumes "app_Run a has_ctx settings version = Some out" and "list_all (honest_pass c) (aa_passes a)"
  shows "(\<exists>e fds. out = failed_run e fds [] \<and> live fds = {#})
    \<or> (\<exists>i dir fd s p fds tr. Validate settings = None \<and> run_session a settings version i dir s p fds = Some out
        \<and> fd_flow {#} fds (session_owned s + {#fd#}) \<and> session_ok s \<and> ss_handle s = Handler \<and> ss_observer s = None
        \<and> accounted c (ss_registry s) tr \<and> finite (dom (gauges (proc_state p))) \<and> dir_fd dir = Some fd)"
proof (cases "\<exists>i dir fds. has_ctx \<and> Validate settings = None
    \<and> ReadProcessIdentity (aa_sysconf a) (aa_files a) (cfg_PID settings) = Inr i
    \<and> OpenReportDirectory (aa_directory a) (ReportDirectory settings) (AllowInsecureSource settings) = (Inr dir, fds)")
  case True
  then obtain i dir fds where start: "has_ctx" "Validate settings = None"
    "ReadProcessIdentity (aa_sysconf a) (aa_files a) (cfg_PID settings) = Inr i"
    "OpenReportDirectory (aa_directory a) (ReportDirectory settings) (AllowInsecureSource settings) = (Inr dir, fds)"
    by blast
  obtain fd where fd: "dir_fd dir = Some fd" "fd_flow {#} fds {#fd#}" using OpenReportDirectory_dir [OF start(4)] by blast
  let ?p = "\<lparr>proc_state = NewState, proc_observer = None, stats = zero_stats\<rparr> :: pipeline_sink processor"
  obtain r w1 fds1 where init: "InitializeSource (aa_watch a) (aa_passes a) True (Some dir) i (init_options settings)
      (Some Handler) (?p, no_sink) = Some (r, w1, fds1)"
    using assms(1) start by (auto simp: app_Run_def Let_def NewProcessor_def split: option.splits)
  from InitializeSource_ok [OF init assms(2)] obtain es where es: "effects Handler None es (?p, no_sink) w1"
    "case r of Inl e \<Rightarrow> fd_flow {#} fds1 {#}
      | Inr s \<Rightarrow> fd_flow {#} fds1 (session_owned s) \<and> session_ok s \<and> ss_handle s = Handler
          \<and> ss_observer s = None \<and> accounted c (ss_registry s) es"
    by (cases r) auto
  show ?thesis
  proof (cases r)
    case (Inl e)
    have "fd_flow {#fd#} fds1 ({#} + {#fd#})" using es Inl fd_flow_frame [of "{#}" fds1 "{#}" "{#fd#}"] by simp
    then have "live (fds @ fds1 @ snd (snd (directory_Close (aa_directory_close a) (Some dir)))) = {#}"
      using fd directory_Close_flow [OF fd(1)] by (intro fd_flow_live) (auto intro: fd_flow_append)
    with assms(1) start init Inl show ?thesis by (auto simp: app_Run_def Let_def NewProcessor_def)
  next
    case (Inr s)
    obtain p1 u1 where w1: "w1 = (p1, u1)" by force
    have "run_session a settings version i dir s p1 (fds @ fds1) = Some out"
      using assms(1) start init Inr w1 by (simp add: app_Run_def Let_def NewProcessor_def)
    moreover have "fd_flow {#fd#} fds1 (session_owned s + {#fd#})"
      using es Inr fd_flow_frame [of "{#}" fds1 "session_owned s" "{#fd#}"] by simp
    then have "fd_flow {#} (fds @ fds1) (session_owned s + {#fd#})" using fd(2) by (rule fd_flow_append [rotated])
    moreover have "finite (dom (gauges (proc_state p1)))"
      using unobserved_state [OF es(1)] apply_records_finite [of NewState] by (simp add: w1 NewState_def)
    ultimately show ?thesis using es(2) Inr start(2) fd(1) by (intro disjI2) fastforce
  qed
next
  case False
  have "out = failed_run (the (out_error out)) (out_fds out) [] \<and> live (out_fds out) = {#}"
    using assms(1) False fd_flow_live [OF OpenReportDirectory_fds, of "aa_directory a" "ReportDirectory settings"
        "AllowInsecureSource settings"]
    by (auto simp: app_Run_def Let_def live_def split: if_splits option.splits sum.splits prod.splits)
  then show ?thesis by blast
qed

section \<open>A run that is cancelled\<close>

text \<open>
  The exporter is started on a growing report, reconciles once and is then cancelled.  Every gauge
  is found by looking at all series.
\<close>

definition all_metrics :: "metric list" where
  "all_metrics = [NoMetric, MetricStorageIO, MetricFSOperations, MetricOpenFiles, MetricCacheDownloads,
     MetricCacheHits, MetricCacheUsage, MetricCacheUtilization, MetricMemoryVirtual]"

definition all_components :: "component list" where
  "all_components = [NoComponent, ComponentLibfuse, ComponentAzStorage]"

definition all_directions :: "direction list" where
  "all_directions = [NoDirection, DirectionRead, DirectionWrite]"

definition all_operations :: "operation list" where
  "all_operations = [NoOperation, OperationCreateDir, OperationDeleteDir, OperationStreamDir, OperationRenameDir,
     OperationCreateFile, OperationDeleteFile, OperationRenameFile, OperationTruncateFile,
     OperationCreateLink, OperationReadLink, OperationSyncFile, OperationSyncDir, OperationChmod]"

lemma all_enumerated: "m \<in> set all_metrics" "c \<in> set all_components" "d \<in> set all_directions" "q \<in> set all_operations"
proof -
  show "m \<in> set all_metrics" by (cases m) (simp_all add: all_metrics_def)
  show "c \<in> set all_components" by (cases c) (simp_all add: all_components_def)
  show "d \<in> set all_directions" by (cases d) (simp_all add: all_directions_def)
  show "q \<in> set all_operations" by (cases q) (simp_all add: all_operations_def)
qed

lemma all_distinct: "distinct all_metrics" "distinct all_components" "distinct all_directions" "distinct all_operations"
  by (simp_all add: all_metrics_def all_components_def all_directions_def all_operations_def)

definition all_series :: "series list" where
  "all_series = map (\<lambda>((m, c), (d, oper)). \<lparr>Metric = m, Component = c, Direction = d, Operation = oper\<rparr>)
     (List.product (List.product all_metrics all_components) (List.product all_directions all_operations))"

lemma all_series_complete: "s \<in> set all_series"
proof -
  have "s = (\<lambda>((m, c), (d, oper)). \<lparr>Metric = m, Component = c, Direction = d, Operation = oper\<rparr>)
      ((Metric s, Component s), (Direction s, Operation s))" by simp
  moreover have "((Metric s, Component s), (Direction s, Operation s))
      \<in> set (List.product (List.product all_metrics all_components) (List.product all_directions all_operations))"
    by (simp add: all_enumerated)
  ultimately show ?thesis unfolding all_series_def set_map by (rule image_eqI)
qed

lemma all_series_distinct: "distinct all_series"
  unfolding all_series_def distinct_map
  by (intro conjI distinct_product all_distinct) (auto simp: inj_on_def)

definition gauge_order :: "metric_state \<Rightarrow> series list" where
  "gauge_order st = filter (\<lambda>s. gauges st s \<noteq> None) all_series"

lemma gauge_order_enumerates: "enumerates (gauge_order st) (gauges st)"
  using all_series_complete all_series_distinct by (auto simp: enumerates_def gauge_order_def)

definition sample_turns :: "run_turn list" where
  "sample_turns =
     [\<lparr>rt_wait = [\<lparr>wa_ctx = None, wa_remaining = 0, wa_poll = PollTimeout\<rparr>],
       rt_lookup = Some (ReadProcessIdentity (Inr 42) sample_files), rt_passes = [growing_passes [report59]],
       rt_drain = [], rt_final = [], rt_last = growing_passes []\<rparr>,
      \<lparr>rt_wait = [\<lparr>wa_ctx = Some (Sentinel Context_Canceled), wa_remaining = 1, wa_poll = PollTimeout\<rparr>],
       rt_lookup = None, rt_passes = [], rt_drain = [], rt_final = [], rt_last = growing_passes []\<rparr>]"

definition sample_answers :: app_answers where
  "sample_answers = \<lparr>aa_sysconf = Inr 42, aa_files = sample_files, aa_directory = sample_walk False,
     aa_watch = sample_watch, aa_passes = [growing_passes [report5, report5], growing_passes [report5]],
     aa_sdk = sample_sdk None, aa_turns = sample_turns, aa_ctx = Some Context_Canceled, aa_gauges = gauge_order,
     aa_shutdown = \<lparr>sa_flush = None, sa_recorder = None, sa_process = None, sa_provider = None, sa_self = None\<rparr>,
     aa_session_close = quiet_pass [], aa_directory_close = None\<rparr>"

lemma sample_directory_opened:
  "OpenReportDirectory (sample_walk False) ''/var/run'' False
     = (Inr sample_directory, [FdOpen 1, FdOpen 2, FdClose 1, FdOpen 3, FdClose 2])"
  by code_simp

lemma sample_options_eq: "init_options sample_settings = sample_options"
  by (simp add: init_options_def sample_settings_def Default_def sample_options_def second_def)

lemma sample_turns_honest: "list_all (honest_turn (\<lambda>g. report59)) (aa_turns sample_answers)"
  using growing_honest(2) by (simp add: sample_answers_def sample_turns_def honest_turn_def)

lemma sample_close_ranges: "ranges (aa_session_close sample_answers)"
  using range_sorted_ok by (simp add: sample_answers_def ranges_def quiet_pass_def)

lemma sample_run_returns:
  obtains out where "app_Run sample_answers True sample_settings ''dev'' = Some out" "out_error out = None"
    "out_result out = zero_result"
proof -
  have v: "Validate sample_settings = None" using sample_config_valid by (simp add: sample_settings_def)
  have pid: "cfg_PID sample_settings = 9" "ReportDirectory sample_settings = ''/var/run''" "\<not> AllowInsecureSource sample_settings"
    "RescanInterval sample_settings = 5000000000" "SourceDrainTimeout sample_settings = 10000000000"
    by (simp_all add: sample_settings_def Default_def second_def)
  obtain s evs pl w2 sdk_evs s1 res s2 evs2 so where q:
    "InitializeSource sample_watch [growing_passes [report5, report5], growing_passes [report5]] True
       (Some sample_directory) sample_identity sample_options (Some Handler) (sample_new, no_sink)
       = Some (Inr s, (sample_baseline, no_sink), evs)"
    "NewPipeline (sample_sdk None) True sample_settings sample_identity (Some sample_baseline) ''dev''
       = (Inr (pl, w2), Some attached, sdk_evs)"
    "session_AttachObserver (Some tells_pipeline) (Some s) = (None, Some s1)"
    "Reconcile [growing_passes [report59]] True (Some s1) (attached, w2)
       = Some (None, res, Some s2, (sample_live, pipeline_observer four_more w2), evs2)"
    and w: "ss_watcher s1 = \<lparr>w_fd = Some 5, w_watch = 1\<rparr>" "ss_identity s1 = sample_identity"
      "ss_watcher s2 = \<lparr>w_fd = Some 5, w_watch = 1\<rparr>"
    and cl: "session_Close (quiet_pass []) (Some s2) = (None, so, [FdClose 5, FdClose 10])"
    by (rule exporter_sample)
  have verify: "verifyProcessIdentity sample_identity (Some (ReadProcessIdentity (Inr 42) sample_files)) = None"
    using sample_identity_read by (simp add: verifyProcessIdentity_def SameSession_def sample_identity_def)
  have "run_loop sample_turns 5000000000 10000000000 s1 zero_run (attached, w2)
    = Some (Some (Sentinel Context_Canceled), zero_run\<lparr>rr_Live := mergeLiveResult zero_live res, Reconciliations := 1\<rparr>, s2,
        (sample_live, pipeline_observer four_more w2), evs2)"
    using q(4) verify
    by (simp add: sample_turns_def watcher_Wait_def w zero_run_def)
  then have run: "session_Run sample_turns True 5000000000 10000000000 (Some s1) (attached, w2)
    = Some (Some (Sentinel Context_Canceled), zero_run\<lparr>rr_Live := mergeLiveResult zero_live res, Reconciliations := 1\<rparr>, Some s2,
        (sample_live, pipeline_observer four_more w2), evs2)"
    by (simp add: session_Run_def)
  have new: "NewProcessor (Some NewState) None = Inr sample_new" by (simp add: NewProcessor_def sample_new_def)
  let ?w = "(sample_live, pipeline_observer four_more w2) :: exporter_world"
  let ?out = "finish_run sample_answers zero_result None pl ?w (Some s2) sample_directory
    ([FdOpen 1, FdOpen 2, FdClose 1, FdOpen 3, FdClose 2] @ evs @ evs2) sdk_evs"
  have "app_Run sample_answers True sample_settings ''dev'' = Some ?out"
    by (simp add: app_Run_def sample_answers_def v pid sample_identity_read sample_directory_opened new
         sample_options_eq q(1) run_session_def q(2,3) run zero_run_def zero_result_def)
  moreover have "fst (pipeline_Shutdown (aa_shutdown sample_answers) u (Some pl)) = None" for u
    by (simp add: pipeline_Shutdown_def otel_Close_def process_Close_def sample_answers_def)
  then obtain pl' sdk' where "pipeline_Shutdown (aa_shutdown sample_answers) (pipeline_observer four_more w2) (Some pl)
      = (None, pl', sdk')"
    by (metis prod.collapse)
  then have "out_error ?out = None \<and> out_result ?out = zero_result"
    using cl by (simp add: finish_run_def sample_answers_def directory_Close_def split: option.splits)
  ultimately show ?thesis using that by blast
qed

text \<open>
  C3. A run of the exporter releases everything it took, on every path: whatever fails, and
  whatever the kernel and the SDK answer, a run that returns has closed every descriptor it opened
  and stopped every part of the SDK it started.
\<close>

theorem runs_release_everything:
  assumes "app_Run a has_ctx settings version = Some out"
    and "list_all (honest_pass c) (aa_passes a)" and "list_all (honest_turn c) (aa_turns a)"
    and "ranges (aa_session_close a)"
  shows "live (out_fds out) = {#} \<and> running {} (out_sdk out) = {}"
  using app_Run_starts [OF assms(1,2)]
proof (elim disjE exE conjE)
  fix i dir fd s p fds tr
  assume "run_session a settings version i dir s p fds = Some out" "fd_flow {#} fds (session_owned s + {#fd#})"
    "session_ok s" "ss_handle s = Handler" "ss_observer s = None" "accounted c (ss_registry s) tr"
    "finite (dom (gauges (proc_state p)))" "dir_fd dir = Some fd"
  with run_session_releases [OF this(1-6) assms(3) this(7) assms(4) this(8)] show ?thesis by blast
qed (simp add: failed_run_def)

theorem runs_release_everything_witness:
  "\<exists>out. app_Run sample_answers True sample_settings ''dev'' = Some out \<and> out_error out = None
     \<and> live (out_fds out) = {#} \<and> running {} (out_sdk out) = {}"
proof -
  obtain out where out: "app_Run sample_answers True sample_settings ''dev'' = Some out" "out_error out = None"
    by (rule sample_run_returns)
  have "list_all (honest_pass (\<lambda>g. report59)) (aa_passes sample_answers)"
    using growing_honest(1) by (simp add: sample_answers_def)
  then show ?thesis using runs_release_everything [OF out(1) _ sample_turns_honest sample_close_ranges] out by blast
qed

text \<open>A run that returns no error has shut the pipeline down without an error.\<close>

lemma finishes_quietly:
  assumes "finishes a dir fd out" "out_error out = None"
    and "\<And>st. finite (dom (gauges st)) \<Longrightarrow> enumerates (aa_gauges a st) (gauges st)"
  shows "\<exists>p w. out_world out = Some (p, w) \<and> (SourceEnded (out_result out) \<longrightarrow> gauges (proc_state p) = Map.empty)
    \<and> list_all (\<lambda>e. e = None) [sa_flush (aa_shutdown a), sa_recorder (aa_shutdown a), sa_process (aa_shutdown a),
        sa_provider (aa_shutdown a), sa_self (aa_shutdown a)]"
proof -
  obtain res err pl w s fds where f: "out = finish_run a res err pl w (Some s) dir fds all_started"
    "piped w" "pr_registered (pl_process pl)" "\<not> pl_closed pl"
    "SourceEnded res \<longrightarrow> (\<exists>st. finite (dom (gauges st)) \<and> proc_state (fst w) = fst (ClearGauges (aa_gauges a st) st))"
    using assms(1) unfolding finishes_def by (elim exE conjE) (rule that)
  obtain p u where w: "w = (p, u)" by force
  have "gauges (proc_state p) = Map.empty" if "SourceEnded res"
    using f(5) that ClearGauges_run [OF assms(3)] by (auto simp: w)
  with f(1-4) assms(2) show ?thesis
    by (auto simp: finish_run_def pipeline_Shutdown_def piped_def w otel_Close_def process_Close_def
        split: prod.splits)
qed

text \<open>
  C36. Exit status 0 can be trusted: unless only the help was asked for, it means that a valid
  configuration was run, that the final flush and the shutdown of every part of the SDK succeeded,
  that everything was released, that a source that ended has no gauge left that the final flush
  could still have reported, and that the end of the source, and nothing else, was logged.
\<close>

theorem successful_exits_are_clean:
  assumes "main_run a args version = Some (0, output)" and "Print usage \<notin> set output"
    and "list_all (honest_pass c) (aa_passes a)" and "list_all (honest_turn c) (aa_turns a)"
    and "ranges (aa_session_close a)" and "\<And>st. finite (dom (gauges st)) \<Longrightarrow> enumerates (aa_gauges a st) (gauges st)"
  shows "\<exists>settings out p w. config_Parse args = Inr settings \<and> Validate settings = None
    \<and> app_Run a True settings version = Some out \<and> out_error out = None \<and> out_world out = Some (p, w)
    \<and> live (out_fds out) = {#} \<and> running {} (out_sdk out) = {}
    \<and> (SourceEnded (out_result out) \<longrightarrow> gauges (proc_state p) = Map.empty)
    \<and> list_all (\<lambda>e. e = None) [sa_flush (aa_shutdown a), sa_recorder (aa_shutdown a), sa_process (aa_shutdown a),
        sa_provider (aa_shutdown a), sa_self (aa_shutdown a)]
    \<and> output = (if SourceEnded (out_result out) \<and> LogLevel settings \<notin> {''warn'', ''error''}
        then [LogEnded (res_UncleanGenerations (out_result out))] else [])"
proof -
  obtain settings out where m: "config_Parse args = Inr settings" "app_Run a True settings version = Some out"
    "out_error out = None" and log: "output = (if SourceEnded (out_result out) \<and> LogLevel settings \<notin> {''warn'', ''error''}
        then [LogEnded (res_UncleanGenerations (out_result out))] else [])"
    using assms(1,2) by (auto simp: main_run_def log_at_def logLevel_def LevelDebug_def LevelInfo_def LevelWarn_def
        LevelError_def split: sum.splits option.splits if_splits)
  from app_Run_starts [OF m(2) assms(3)] m(3) obtain i dir fd s p fds tr where r: "Validate settings = None"
    "run_session a settings version i dir s p fds = Some out" "fd_flow {#} fds (session_owned s + {#fd#})"
    "session_ok s" "ss_handle s = Handler" "ss_observer s = None" "accounted c (ss_registry s) tr"
    "finite (dom (gauges (proc_state p)))" "dir_fd dir = Some fd" by auto
  from run_session_releases [OF r(2-7) assms(4) r(8) assms(5) r(9)]
  have "live (out_fds out) = {#} \<and> running {} (out_sdk out) = {}" .
  moreover from run_session_ends [OF r(2-7) assms(4) r(8)] m(3) have "finishes a dir fd out" by auto
  ultimately show ?thesis using finishes_quietly [OF _ m(3) assms(6)] m r(1) log by blast
qed

theorem successful_exits_are_clean_witness:
  "main_run sample_answers (command_line sample_settings) ''dev'' = Some (0, [])
     \<and> (\<exists>out p w. app_Run sample_answers True sample_settings ''dev'' = Some out \<and> out_world out = Some (p, w))"
proof -
  obtain out where out: "app_Run sample_answers True sample_settings ''dev'' = Some out" "out_error out = None"
    "out_result out = zero_result"
    by (rule sample_run_returns)
  have v: "Validate sample_settings = None" using sample_config_valid by (simp add: sample_settings_def)
  have "fits_int64 sample_settings"
    by (simp add: fits_int64_def durations_def sample_settings_def Default_def second_def)
  then have c: "config_Parse (command_line sample_settings) = Inr sample_settings"
    using parse_command_line [OF v] v by (simp add: config_Parse_def)
  have m: "main_run sample_answers (command_line sample_settings) ''dev'' = Some (0, [])"
    by (simp add: main_run_def c out zero_result_def)
  have "list_all (honest_pass (\<lambda>g. report59)) (aa_passes sample_answers)"
    using growing_honest(1) by (simp add: sample_answers_def)
  moreover have "enumerates (aa_gauges sample_answers st) (gauges st)" for st
    using gauge_order_enumerates by (simp add: sample_answers_def)
  ultimately have "\<exists>settings out p w. config_Parse (command_line sample_settings) = Inr settings
      \<and> app_Run sample_answers True settings ''dev'' = Some out \<and> out_world out = Some (p, w)"
    using successful_exits_are_clean [OF m _ _ sample_turns_honest sample_close_ranges] by fastforce
  with c m show ?thesis by auto
qed

end
