(* ===== verification/Spec2Isabelle.thy ===== *)
theory Spec2Isabelle
  imports Decoder_Properties Metrics_Properties Identity_Properties Reader_Properties Session_Properties
    Config_Properties Telemetry_Properties Session_Export App_Properties
begin

text \<open>
  A model of the BlobFuse health exporter and the theorems that make it correct.

  \<^bold>\<open>The program.\<close>  BlobFuse's health monitor appends JSON arrays of records to report files of one
  directory, a new file (a \<^emph>\<open>generation\<close>) each time it rotates.  The exporter identifies the
  monitored process, watches the directory, reads every generation incrementally, normalizes each
  record to counters and gauges of a fixed table of series, turns the source's counters into deltas,
  and sends the result to an OTLP endpoint on the same host, together with metrics about itself and
  about the process it monitors.  A run is: parse the configuration, open the directory, initialize
  the session (everything already reported becomes the baseline), then reconcile and wait until the
  source or the caller ends, drain, clear the gauges, flush and close.

  \<^bold>\<open>Which theory models which file.\<close>  The names of definitions are those of the source; a record is
  a struct with the same fields, a pointer that may be nil is an option, a method takes its receiver
  and returns it changed.

  \<^item> \<open>Prelude\<close>: Go's errors as a datatype with \<open>errors.Is\<close> and \<open>errors.Join\<close>, bytes, association
    lists and enumerations of maps, and the collections \<open>invar_intros\<close> and \<open>run_simps\<close>.
  \<^item> \<open>Go_Json\<close>, \<open>Go_Value\<close>, \<open>Go_Strings\<close>, \<open>Go_Float\<close>, \<open>Go_Rat\<close>, \<open>Go_Time\<close>, \<open>Go_Format\<close>, \<open>Go_Net\<close>,
    \<open>Go_Url\<close>, \<open>Go_Sha256\<close>: what the program uses of Go's standard library.  They are models of the
    library, executable on bytes; the manifest maps none of them to the program's lines.
  \<^item> \<open>Record_Decoder\<close>: \<open>internal/source/decoder.go\<close>, the incremental framing of one report.
    \<open>Decoder_Chunks\<close>, \<open>Framer\<close> and \<open>Decoder_Lossless\<close> hold its theory.
  \<^item> \<open>Normalizer\<close>: \<open>internal/source/normalizer.go\<close>; \<open>Descriptor\<close>, \<open>Metric_State\<close>, \<open>Processor\<close>:
    \<open>internal/metrics/descriptor.go\<close>, \<open>state.go\<close>, \<open>processor.go\<close>; \<open>Normalizer_Facts\<close>: what
    normalization guarantees to them; \<open>Documented_Metrics\<close>: the tables of \<open>docs/metrics.md\<close>, the
    specification of normalization, and that it meets them.
  \<^item> \<open>Recorder\<close>: \<open>internal/metrics/otel.go\<close> and \<open>self.go\<close>; \<open>Process_Recorder\<close>:
    \<open>process_otel_linux.go\<close>.
  \<^item> \<open>Identity\<close>: \<open>identity_linux.go\<close>, \<open>recheck_linux.go\<close> and \<open>process_metrics_linux.go\<close> of
    \<open>internal/source\<close>; \<open>Directory\<close>: \<open>directory_linux.go\<close> and \<open>scan_linux.go\<close>; \<open>Reader\<close>:
    \<open>reader_linux.go\<close>; \<open>Registry\<close>: \<open>order_linux.go\<close> and \<open>registry_linux.go\<close>; \<open>Watcher\<close>:
    \<open>watch_linux.go\<close> and \<open>wait_linux.go\<close>; \<open>Session\<close>: \<open>events_linux.go\<close>, \<open>initialize_linux.go\<close>,
    \<open>live_linux.go\<close>, \<open>drain_linux.go\<close> and \<open>run_linux.go\<close>.
  \<^item> \<open>Endpoint\<close>, \<open>Config\<close>, \<open>Flags\<close>: \<open>endpoint.go\<close>, \<open>config.go\<close>, \<open>flags.go\<close> of \<open>internal/config\<close>.
  \<^item> \<open>Resource\<close>, \<open>Export\<close>, \<open>Otlp\<close>: \<open>resource.go\<close>, \<open>resource_exporter.go\<close>, \<open>exporter.go\<close> of
    \<open>internal/telemetry\<close>; \<open>Pipeline\<close> and \<open>Telemetry\<close>: \<open>source_events.go\<close> and \<open>pipeline.go\<close>.
  \<^item> \<open>App\<close>: \<open>internal/app/run_linux.go\<close> and \<open>main.go\<close>.
\<close>

text \<open>
  \<^bold>\<open>State and effects.\<close>  What an operation reads from outside is an argument: the contents of a
  \<open>/proc\<close> file, what \<open>fstat\<close>, \<open>pread\<close>, \<open>openat\<close>, \<open>poll\<close> and \<open>read\<close> answer, the clock, the context, what
  the OpenTelemetry SDK and the OTLP transport return.  What it does outside is a value it returns:
  descriptors opened and closed (\<open>fd_event\<close>), parts of the SDK started and stopped (\<open>sdk_event\<close>),
  points handed to instruments, records handed to the handler, events told to the observer.  The
  handler and the observer change a state of their own that the session threads through; \<open>app_Run\<close>
  makes it the processor and the pipeline's sink.  Integers have their width (\<open>64 word\<close>) where they
  can wrap or where the code tests for overflow; a \<open>float64\<close> is \<open>go_float\<close>, rounded to nearest even.

  \<^bold>\<open>Loops.\<close>  \<open>take_records\<close> and the loops over bytes and lists end by a measure.  A loop that asks
  the outside again on every turn (\<open>drain\<close>, \<open>wait_loop\<close>, \<open>Reconcile\<close>, \<open>DrainSource\<close>, \<open>session_Run\<close>) takes
  the list of answers, one for each turn; the list is its fuel, and the value \<open>None\<close> says that the
  loop needed more turns than it was given.  How many suffice is proved: \<open>drain_returns\<close> gives a bound
  from the length of the file, \<open>wait_returns\<close> from the deadline.  The hypotheses on answers are named:
  \<open>honest\<close> and \<open>honest_pass\<close> (a \<open>pread\<close> returns bytes of the generation at the offset asked for, and
  ranging over a map visits each key once) and \<open>ranges\<close> (its second half).

  \<^bold>\<open>Interfaces.\<close>  \<open>stream_framer\<close> (in \<open>Framer\<close>) is what the generation reader asks of a decoder; it is
  interpreted on the decoder of \<open>decoder.go\<close>, and the reader's theorems rest on the facts it yields.
  \<open>keyed_less\<close> (in \<open>Registry\<close>) is an order by a key; it is interpreted on \<open>older_generation\<close>.
  \<open>session_sink\<close> (in \<open>Session_Facts\<close>) is what a handler and an observer do to the state they share; it
  is interpreted on the processor's handler with the pipeline's observer and without one
  (\<open>Session_Export\<close>), and on handlers that also log what they are given.

  \<^bold>\<open>What the theorems show.\<close>
  \<^item> \<open>Decoder_Properties\<close>: framing does not depend on where reads cut the stream, accounts for every
    byte, delivers bounded JSON objects, and keeps a record pending until it is committed.
  \<^item> \<open>Metrics_Properties\<close>: normalized values are reportable, source integers and memory sizes (for
    each suffix the power of 1024 it stands for) exact, every field of a component accounted for, a
    record normalized to exactly the documented metrics, series distinct, and gauges observed until
    they are cleared.
  \<^item> \<open>Identity_Properties\<close>: a command name cannot disturb \<open>/proc/PID/stat\<close>; the creation time is
    exact over the whole range and refused only where it would wrap; instance ID and process memory
    are exact; one defect of reading the boot time.
  \<^item> \<open>Reader_Properties\<close>: the directory walk follows no link, a scan opens reports by name without
    following a link, owns its descriptors and trusts only what the code means to trust; drains deliver exactly the report's records, lose nothing when
    they fail, and return.
  \<^item> \<open>Session_Properties\<close>: the reading order, the event buffer, the bounded wait; initialization,
    reconciliation, draining and running apply each record of each generation once, in order, and
    close what they open.  \<open>session_step\<close> is the step relation of a session.
  \<^item> \<open>Config_Properties\<close>: accepted endpoints are local, and every valid configuration is the value of
    some command line.
  \<^item> \<open>Telemetry_Properties\<close>: export failures are reported once under their type, a pipeline stops
    what it starts, the resource has the five allowed attributes, retries fit the timeout.
  \<^item> \<open>Session_Export\<close>: from the reports' bytes to the exported totals; and the exporter's own metrics
    agree with the processor's statistics, the generations the session took up, and the log of the
    discontinuities it told.
  \<^item> \<open>App_Properties\<close>: every path of a run releases everything, and what exit status 0 means.

  A witness applies each theorem with hypotheses at a concrete input; \<open>Session_Sample\<close> evaluates the
  growing report the session's witnesses share.
\<close>

text \<open>
  \<^bold>\<open>Not modelled.\<close>
  \<^item> The rendered texts of errors and log records: an \<open>error\<close> keeps the sentinels it wraps and
    \<open>program_output\<close> says which record is written.
  \<^item> \<open>main\<close> itself, which installs the signal context and exits with the status \<open>main_run\<close> gives.
  \<^item> \<open>Temporality\<close> and \<open>Aggregation\<close> of the resource exporter, which pass the question on.
  \<^item> Goroutines and mutexes: each exported operation is one step, as its lock makes it, and the
    \<open>select\<close> between timers, contexts and channels is the answer of that turn.  Copies that guard
    against aliasing (\<open>cloneRecord\<close>, copies of slices and maps) are the identity on values.
  \<^item> The OpenTelemetry SDK, the OTLP transport and the kernel: what they answer is a parameter, what
    the code asks of them is a result.
  \<^item> \<open>test/performance/procstat\<close>, a measuring tool of the performance tests that is no part of the
    exporter, and the tests.
\<close>

end
